(* ===== verification/Prelude.thy ===== *)
theory Prelude
  imports Complex_Main "HOL-Library.AList" "HOL-Library.Sublist"
    "HOL-Library.Multiset" "HOL-Library.List_Lexorder" "HOL-Library.Char_ord" "HOL-Library.Word"
begin

text \<open>
  Shared vocabulary of the development. Go strings and byte slices are both \<^typ>\<open>string\<close>
  (a \<^typ>\<open>char\<close> is one byte); the order of \<open>bytes.Compare\<close> is the list order of
  \<^theory_text>\<open>List_Lexorder\<close> over bytes. Results that can fail are sums with the failure on
  the left, composed with \<open>rbind\<close>. The file also holds \<open>bytes.Join\<close> and
  \<open>bytes.Split\<close> for the separator byte 0 and the order facts about prefixes that the
  key-value scans rest on.
\<close>

type_synonym bytes = string
type_synonym 'v kvs = "(string \<times> 'v) list"

named_theorems res_simps "evaluation of failing results"
named_theorems path_simps "joining and splitting key paths"

subsection \<open>Failing results\<close>

definition rbind :: "'e + 'a \<Rightarrow> ('a \<Rightarrow> 'e + 'b) \<Rightarrow> 'e + 'b" where
  "rbind m f = (case m of Inl e \<Rightarrow> Inl e | Inr a \<Rightarrow> f a)"

lemma rbind_Inl [simp, res_simps]: "rbind (Inl e) f = Inl e"
  by (simp add: rbind_def)

lemma rbind_Inr [simp, res_simps]: "rbind (Inr a) f = f a"
  by (simp add: rbind_def)

lemma rbind_eq_Inr [res_simps]: "rbind m f = Inr b \<longleftrightarrow> (\<exists>a. m = Inr a \<and> f a = Inr b)"
  by (cases m) auto

lemma rbind_eq_Inl [res_simps]:
  "rbind m f = Inl e \<longleftrightarrow> m = Inl e \<or> (\<exists>a. m = Inr a \<and> f a = Inl e)"
  by (cases m) auto

lemma rbind_assoc: "rbind (rbind m f) g = rbind m (\<lambda>x. rbind (f x) g)"
  by (cases m) auto

lemma rbind_cong [fundef_cong]:
  "m = m' \<Longrightarrow> (\<And>a. m' = Inr a \<Longrightarrow> f a = f' a) \<Longrightarrow> rbind m f = rbind m' f'"
  by (cases m') auto

text \<open>A loop that stops at the first failure, over a list the code ranges over.\<close>

fun rfold :: "('a \<Rightarrow> 's \<Rightarrow> 'e + 's) \<Rightarrow> 'a list \<Rightarrow> 's \<Rightarrow> 'e + 's" where
  "rfold f [] s = Inr s"
| "rfold f (x # xs) s = rbind (f x s) (rfold f xs)"

lemma rfold_append: "rfold f (xs @ ys) s = rbind (rfold f xs s) (rfold f ys)"
  by (induction xs arbitrary: s) (auto simp: rbind_def split: sum.splits)

lemma rfold_invariant:
  assumes "rfold f xs s = Inr s'" and "P s"
    and "\<And>x s t. x \<in> set xs \<Longrightarrow> P s \<Longrightarrow> f x s = Inr t \<Longrightarrow> P t"
  shows "P s'"
  using assms
proof (induction xs arbitrary: s)
  case Nil
  then show ?case by simp
next
  case (Cons x xs)
  from Cons.prems(1) obtain t where t: "f x s = Inr t" and r: "rfold f xs t = Inr s'"
    by (auto simp: rbind_eq_Inr)
  from Cons.prems t have "P t" by auto
  with r Cons.prems(3) show ?case by (auto intro: Cons.IH)
qed

lemma rfold_total:
  assumes "\<And>x s. x \<in> set xs \<Longrightarrow> f x s = Inr (g x s)"
  shows "rfold f xs s = Inr (fold g xs s)"
  using assms by (induction xs arbitrary: s) auto

subsection \<open>Association lists as Go maps\<close>

text \<open>
  A Go map ranged over in an order the runtime chooses is an association list with distinct
  keys: its order is the order of one iteration. Theorems about it hold for every order.
\<close>

definition keys :: "'v kvs \<Rightarrow> string list" where
  "keys m = map fst m"

lemma keys_simps [simp]: "keys [] = []" "keys ((k, v) # m) = k # keys m"
  by (simp_all add: keys_def)

lemma set_keys: "set (keys m) = fst ` set m"
  by (simp add: keys_def)

lemma map_of_keys: "map_of m k \<noteq> None \<longleftrightarrow> k \<in> set (keys m)"
  by (simp add: set_keys map_of_eq_None_iff)

lemma map_of_in: "distinct (keys m) \<Longrightarrow> (k, v) \<in> set m \<Longrightarrow> map_of m k = Some v"
  by (simp add: keys_def)

subsection \<open>Joining and splitting at the zero byte\<close>

abbreviation nul :: char where
  "nul \<equiv> CHR 0x00"

fun join0 :: "bytes list \<Rightarrow> bytes" where
  "join0 [] = []"
| "join0 [s] = s"
| "join0 (s # t # ss) = s @ nul # join0 (t # ss)"

fun split0 :: "bytes \<Rightarrow> bytes list" where
  "split0 [] = [[]]"
| "split0 (c # cs) =
     (if c = nul then [] # split0 cs
      else case split0 cs of [] \<Rightarrow> [[c]] | s # ss \<Rightarrow> (c # s) # ss)"

lemma split0_not_Nil [simp]: "split0 s \<noteq> []"
  by (cases s) (auto split: list.splits)

lemma split0_plain [path_simps]: "nul \<notin> set s \<Longrightarrow> split0 s = [s]"
  by (induction s) auto

lemma split0_append_nul [path_simps]: "split0 (s @ nul # t) = split0 s @ split0 t"
proof (induction s)
  case Nil
  then show ?case by simp
next
  case (Cons c s)
  then show ?case by (auto split: list.splits)
qed

lemma join0_Cons: "ss \<noteq> [] \<Longrightarrow> join0 (s # ss) = s @ nul # join0 ss"
  by (cases ss) auto

lemma join0_append [path_simps]:
  "ss \<noteq> [] \<Longrightarrow> ts \<noteq> [] \<Longrightarrow> join0 (ss @ ts) = join0 ss @ nul # join0 ts"
proof (induction ss)
  case Nil
  then show ?case by simp
next
  case (Cons s ss)
  then show ?case by (cases ss) (auto simp: join0_Cons)
qed

lemma split0_join0: "ss \<noteq> [] \<Longrightarrow> split0 (join0 ss) = concat (map split0 ss)"
proof (induction ss)
  case Nil
  then show ?case by simp
next
  case (Cons s ss)
  then show ?case
    by (cases ss) (auto simp: join0_Cons split0_append_nul)
qed

lemma last_split0_join0:
  assumes "nul \<notin> set y"
  shows "last (split0 (join0 (ss @ [y]))) = y"
proof -
  have "split0 (join0 (ss @ [y])) = concat (map split0 ss) @ [y]"
    using assms by (simp add: split0_join0 split0_plain)
  then show ?thesis by simp
qed

lemma join0_plain_inject:
  assumes "join0 (ss @ [y]) = join0 (ts @ [z])" "nul \<notin> set y" "nul \<notin> set z"
  shows "y = z"
  by (metis assms last_split0_join0)

text \<open>Leading segments without a zero byte can be read off a joined path.\<close>

lemma plain_segment_eq:
  assumes "s @ nul # u = t @ nul # v" "nul \<notin> set s" "nul \<notin> set t"
  shows "s = t \<and> u = v"
  using assms
proof (induction s arbitrary: t)
  case Nil
  then show ?case by (cases t) auto
next
  case (Cons c s)
  then show ?case by (cases t) auto
qed

lemma prefix_join0_segments:
  assumes "prefix (join0 ss @ [nul]) (join0 ts)" and "ss \<noteq> []"
    and "\<forall>s\<in>set ss. nul \<notin> set s" and "length ss \<le> length ts"
    and "\<forall>t\<in>set (take (length ss) ts). nul \<notin> set t"
  shows "take (length ss) ts = ss"
  using assms
proof (induction ss arbitrary: ts)
  case Nil
  then show ?case by simp
next
  case (Cons s ss)
  from Cons.prems(4) obtain t ts' where ts: "ts = t # ts'" by (cases ts) auto
  have t0: "nul \<notin> set t" using Cons.prems(5) by (simp add: ts)
  have s0: "nul \<notin> set s" using Cons.prems(3) by simp
  show ?case
  proof (cases "ss = []")
    case True
    from Cons.prems(1) obtain w where w: "join0 ts = s @ nul # w"
      by (auto simp: prefix_def True)
    have "ts' \<noteq> []"
      using w t0 by (cases ts') (auto simp: ts)
    then have "t @ nul # join0 ts' = s @ nul # w"
      using w by (simp add: ts join0_Cons)
    then have "t = s" using plain_segment_eq t0 s0 by blast
    then show ?thesis by (simp add: True ts)
  next
    case False
    from Cons.prems(1) obtain w where w: "join0 ts = s @ nul # (join0 ss @ nul # w)"
      using False by (auto simp: prefix_def join0_Cons)
    have ts'0: "ts' \<noteq> []" using Cons.prems(4) False ts by auto
    then have "t @ nul # join0 ts' = s @ nul # (join0 ss @ nul # w)"
      using w by (simp add: ts join0_Cons)
    then have eq: "t = s" "join0 ts' = join0 ss @ nul # w"
      using plain_segment_eq t0 s0 by blast+
    have "take (length ss) ts' = ss"
      by (rule Cons.IH) (use Cons.prems False eq in \<open>auto simp: ts prefix_def\<close>)
    with eq show ?thesis by (simp add: ts)
  qed
qed

subsection \<open>The byte order and prefixes\<close>

lemma prefix_imp_le: "prefix (p :: string) k \<Longrightarrow> p \<le> k"
proof (induction p arbitrary: k)
  case Nil
  then show ?case by simp
next
  case (Cons c p)
  then show ?case by (cases k) auto
qed

lemma prefix_convex:
  assumes "prefix p (k' :: string)" "p \<le> k" "k \<le> k'"
  shows "prefix p k"
  using assms
proof (induction p arbitrary: k k')
  case Nil
  then show ?case by simp
next
  case (Cons c p)
  from Cons.prems obtain u' where k': "k' = c # u'" and pu: "prefix p u'"
    by (cases k') auto
  from Cons.prems obtain d u where k: "k = d # u" by (cases k) auto
  from Cons.prems have "d = c" by (auto simp: k k')
  with Cons.prems have "p \<le> u" "u \<le> u'" by (auto simp: k k')
  with pu Cons.IH[of u' u] show ?case by (simp add: k \<open>d = c\<close>)
qed

text \<open>
  In a list sorted by key, the keys from a prefix on that carry the prefix are consecutive:
  the scan that stops at the first key without it visits exactly the keys with it.
\<close>

lemma takeWhile_convex:
  assumes "sorted (map fst kvs)" "\<forall>kv\<in>set kvs. p \<le> fst kv"
  shows "takeWhile (\<lambda>kv. prefix (p :: string) (fst kv)) kvs = filter (\<lambda>kv. prefix p (fst kv)) kvs"
  using assms
proof (induction kvs)
  case Nil
  then show ?case by simp
next
  case (Cons kv kvs)
  show ?case
  proof (cases "prefix p (fst kv)")
    case True
    with Cons show ?thesis by simp
  next
    case False
    have "\<not> prefix p (fst x)" if "x \<in> set kvs" for x
    proof
      assume "prefix p (fst x)"
      moreover have "p \<le> fst kv" "fst kv \<le> fst x" using Cons.prems that by auto
      ultimately show False using prefix_convex False by blast
    qed
    with False show ?thesis by (simp add: filter_empty_conv)
  qed
qed

lemma scan_prefix:
  assumes "sorted (map fst kvs)"
  shows "takeWhile (\<lambda>kv. prefix (p :: string) (fst kv)) (dropWhile (\<lambda>kv. fst kv < p) kvs)
         = filter (\<lambda>kv. prefix p (fst kv)) kvs"
  using assms
proof (induction kvs)
  case Nil
  then show ?case by simp
next
  case (Cons kv kvs)
  show ?case
  proof (cases "fst kv < p")
    case True
    then have "\<not> prefix p (fst kv)" using prefix_imp_le leD by blast
    with True Cons show ?thesis by simp
  next
    case False
    then have "\<forall>x\<in>set (kv # kvs). p \<le> fst x" using Cons.prems by auto
    then have "takeWhile (\<lambda>x. prefix p (fst x)) (kv # kvs) = filter (\<lambda>x. prefix p (fst x)) (kv # kvs)"
      by (rule takeWhile_convex [OF Cons.prems])
    moreover have "dropWhile (\<lambda>x. fst x < p) (kv # kvs) = kv # kvs" using False by simp
    ultimately show ?thesis by presburger
  qed
qed

end
