(* ===== verification/Errors.thy ===== *)
theory Errors
  imports Prelude
begin

text \<open>
  \<open>errors/errors.go\<close>: the error record with its code, its messages and the rt
  error text; \<open>New\<close>, \<open>Wrap\<close>, \<open>Extract\<close>, \<open>RemoveError\<close> and the JSON text of
  an error. A Go \<open>error\<close> is \<open>Custom\<close> (the package's own type) or \<open>Plain\<close> (any other
  error, known by its text); \<open>nil\<close> is \<^term>\<open>None\<close>. Messages are taken after
  \<open>fmt.Sprintf\<close> has filled in their arguments. \<open>failure\<close> adds the two ways a call
  can fail to return: a run-time panic, and the exhaustion of the model's fuel.
\<close>

type_synonym code = int

definition Internal :: code where "Internal = 500"
definition NotFound :: code where "NotFound = 404"
definition Forbidden :: code where "Forbidden = 403"
definition Validation :: code where "Validation = 400"
definition Unauthorized :: code where "Unauthorized = 401"

lemmas code_defs = Internal_def NotFound_def Forbidden_def Validation_def Unauthorized_def

record goerror =
  err_code :: code
  err_messages :: "string list"
  err_err :: string

datatype gerr = Custom goerror | Plain string

datatype failure = Fail gerr | Panic string | NoFuel

type_synonym 'a res = "failure + 'a"

subsection \<open>The JSON text of an error\<close>

text \<open>
  \<open>encoding/json\<close> on the error record: object members in field order, empty members
  left out, strings quoted with the escapes of the standard library (ASCII text; a byte
  from 128 on is part of a well-formed UTF-8 sequence and copied).
\<close>

fun show_nat :: "nat \<Rightarrow> string" where
  "show_nat n = (if n < 10 then [char_of (48 + n)] else show_nat (n div 10) @ [char_of (48 + n mod 10)])"

declare show_nat.simps [simp del]

definition show_int :: "int \<Rightarrow> string" where
  "show_int i = (if i < 0 then ''-'' @ show_nat (nat (- i)) else show_nat (nat i))"

definition hex_digit :: "nat \<Rightarrow> char" where
  "hex_digit d = (if d < 10 then char_of (48 + d) else char_of (87 + d))"

definition json_char :: "char \<Rightarrow> string" where
  "json_char c =
     (let n = of_char c :: nat in
      if n = 34 then [CHR 0x5C, CHR 0x22]
      else if n = 92 then [CHR 0x5C, CHR 0x5C]
      else if n = 10 then CHR 0x5C # ''n''
      else if n = 13 then CHR 0x5C # ''r''
      else if n = 9 then CHR 0x5C # ''t''
      else if n < 32 \<or> n = 60 \<or> n = 62 \<or> n = 38
        then CHR 0x5C # ''u00'' @ [hex_digit (n div 16), hex_digit (n mod 16)]
      else [c])"

definition json_quote :: "string \<Rightarrow> string" where
  "json_quote s = [CHR 0x22] @ concat (map json_char s) @ [CHR 0x22]"

fun json_commas :: "string list \<Rightarrow> string" where
  "json_commas [] = []"
| "json_commas [s] = s"
| "json_commas (s # t # ss) = s @ '','' @ json_commas (t # ss)"

definition error_json :: "goerror \<Rightarrow> string" where
  "error_json e = ''{'' @ json_commas
     ([json_quote ''code'' @ '':'' @ show_int (err_code e)]
      @ (if err_messages e = [] then []
         else [json_quote ''messages'' @ '':['' @ json_commas (map json_quote (err_messages e)) @ '']''])
      @ (if err_err e = [] then [] else [json_quote ''err'' @ '':'' @ json_quote (err_err e)]))
     @ ''}''"

definition error_text :: "gerr \<Rightarrow> string" where
  "error_text g = (case g of Custom e \<Rightarrow> error_json e | Plain s \<Rightarrow> s)"

subsection \<open>The operations of the package\<close>

definition RemoveError :: "goerror \<Rightarrow> goerror" where
  "RemoveError e = \<lparr>err_code = err_code e, err_messages = err_messages e, err_err = []\<rparr>"

definition Extract :: "gerr option \<Rightarrow> goerror option" where
  "Extract err = (case err of
     None \<Rightarrow> None
   | Some (Plain s) \<Rightarrow> Some \<lparr>err_code = 0, err_messages = [], err_err = s\<rparr>
   | Some (Custom e) \<Rightarrow> Some e)"

definition New :: "code \<Rightarrow> string \<Rightarrow> gerr" where
  "New c msg = Custom \<lparr>err_code = c, err_messages = [], err_err = msg\<rparr>"

text \<open>\<open>Wrap\<close> of an error that is not nil; \<open>wrap_opt\<close> adds the nil case.\<close>

definition wrap :: "gerr \<Rightarrow> code \<Rightarrow> string \<Rightarrow> gerr" where
  "wrap err c msg = (case err of
     Custom e \<Rightarrow>
       (let e1 = (if msg \<noteq> [] then e\<lparr>err_messages := err_messages e @ [msg]\<rparr> else e);
            e2 = (if err_err e1 = [] then e1\<lparr>err_err := error_json e1\<rparr> else e1);
            e3 = (if c > 0 then e2\<lparr>err_code := c\<rparr> else e2)
        in Custom e3)
   | Plain s \<Rightarrow>
       (let e = \<lparr>err_code = c, err_messages = [], err_err = s\<rparr>
        in Custom (if msg \<noteq> [] then e\<lparr>err_messages := err_messages e @ [msg]\<rparr> else e)))"

definition wrap_opt :: "gerr option \<Rightarrow> code \<Rightarrow> string \<Rightarrow> gerr option" where
  "wrap_opt err c msg = (case err of None \<Rightarrow> None | Some e \<Rightarrow> Some (wrap e c msg))"

text \<open>The shapes in which the callers use errors: fail with a new one, or wrap the error of a call.\<close>

definition fail :: "code \<Rightarrow> string \<Rightarrow> 'a res" where
  "fail c msg = Inl (Fail (New c msg))"

definition wrapping :: "code \<Rightarrow> string \<Rightarrow> 'a res \<Rightarrow> 'a res" where
  "wrapping c msg r = (case r of Inl (Fail e) \<Rightarrow> Inl (Fail (wrap e c msg)) | _ \<Rightarrow> r)"

definition lift_err :: "gerr + 'a \<Rightarrow> 'a res" where
  "lift_err r = (case r of Inl e \<Rightarrow> Inl (Fail e) | Inr a \<Rightarrow> Inr a)"

lemma fail_not_Inr [simp]: "fail c msg \<noteq> Inr a" "Inr a \<noteq> fail c msg"
  by (simp_all add: fail_def)

lemma wrapping_Inr [simp, res_simps]: "wrapping c msg (Inr a) = Inr a"
  by (simp add: wrapping_def)

lemma wrapping_eq_Inr [simp, res_simps]: "wrapping c msg r = Inr a \<longleftrightarrow> r = Inr a"
  by (auto simp: wrapping_def split: sum.splits failure.splits)

lemma lift_err_eq_Inr [simp, res_simps]: "lift_err r = Inr a \<longleftrightarrow> r = Inr a"
  by (auto simp: lift_err_def split: sum.splits)

lemma lift_err_Inr [simp, res_simps]: "lift_err (Inr a) = Inr a"
  by (simp add: lift_err_def)

subsection \<open>Results that are not exhausted fuel\<close>

definition fueled :: "'a res \<Rightarrow> bool" where
  "fueled r \<longleftrightarrow> r \<noteq> Inl NoFuel"

lemma fueled_Inr [simp]: "fueled (Inr a)"
  by (simp add: fueled_def)

lemma fueled_Fail [simp]: "fueled (Inl (Fail e))"
  by (simp add: fueled_def)

lemma fueled_Panic [simp]: "fueled (Inl (Panic s))"
  by (simp add: fueled_def)

lemma fueled_fail [simp]: "fueled (fail c msg)"
  by (simp add: fail_def)

lemma fueled_lift_err [simp]: "fueled (lift_err r)"
  by (simp add: lift_err_def split: sum.splits)

lemma fueled_wrapping [simp]: "fueled (wrapping c msg r) \<longleftrightarrow> fueled r"
  by (auto simp: fueled_def wrapping_def split: sum.splits failure.splits)

lemma fueled_rbind [intro!]: "fueled m \<Longrightarrow> (\<And>a. m = Inr a \<Longrightarrow> fueled (f a)) \<Longrightarrow> fueled (rbind m f)"
  by (cases m) (auto simp: fueled_def)

lemma fueled_rfold [intro!]: "(\<And>x s. fueled (f x s)) \<Longrightarrow> fueled (rfold f xs s)"
  by (induction xs arbitrary: s) auto

subsection \<open>Chains of wrapping\<close>

text \<open>What a caller reads off an error: its code, its messages and its root text.\<close>

definition err_fields :: "gerr \<Rightarrow> code \<times> string list \<times> string" where
  "err_fields g = (case Extract (Some g) of
     Some e \<Rightarrow> (err_code e, err_messages e, err_err e) | None \<Rightarrow> (0, [], []))"

fun wrap_all :: "gerr \<Rightarrow> (code \<times> string) list \<Rightarrow> gerr" where
  "wrap_all e [] = e"
| "wrap_all e ((c, msg) # ws) = wrap_all (wrap e c msg) ws"

fun last_code :: "code \<Rightarrow> code list \<Rightarrow> code" where
  "last_code c [] = c"
| "last_code c (d # ds) = last_code (if d > 0 then d else c) ds"

lemma err_fields_wrap:
  assumes "err_fields e = (c0, ms, rt)" "rt \<noteq> []" "c \<ge> 0 \<and> c0 \<ge> 0"
  shows "err_fields (wrap e c msg)
    = (if c > 0 then c else c0, ms @ (if msg = [] then [] else [msg]), rt)"
  using assms
  by (cases e) (auto simp: err_fields_def Extract_def wrap_def Let_def)

text \<open>
  However often an error is wrapped on its way up, its root text stays the one it was
  made with, its messages are the non-empty messages of the wrappers in order, and its
  code is the last positive code that a wrapper gave (code 0 leaves the code alone).
\<close>

lemma wrap_chain:
  assumes "err_fields e = (c0, ms, rt)" and "rt \<noteq> []" and "c0 \<ge> 0"
    and "\<forall>w\<in>set ws. fst w \<ge> 0"
  shows "err_fields (wrap_all e ws)
    = (last_code c0 (map fst ws), ms @ filter (\<lambda>m. m \<noteq> []) (map snd ws), rt)"
  using assms
proof (induction ws arbitrary: e c0 ms)
  case Nil
  then show ?case by simp
next
  case (Cons w ws)
  obtain c msg where w: "w = (c, msg)" by fastforce
  have step: "err_fields (wrap e c msg)
    = (if c > 0 then c else c0, ms @ (if msg = [] then [] else [msg]), rt)"
    using Cons.prems by (intro err_fields_wrap) (auto simp: w)
  show ?case
    using Cons.IH [OF step] Cons.prems by (simp add: w)
qed

lemma wrap_chain_witness:
  "err_fields (wrap_all (New Validation ''bad'') [(0, ''tx: failed''), (Internal, []), (0, ''outer'')])
     = (500, [''tx: failed'', ''outer''], ''bad'')"
  using wrap_chain [of "New Validation ''bad''" 400 "[]" "''bad''"
      "[(0, ''tx: failed''), (Internal, []), (0, ''outer'')]"]
  by (simp add: err_fields_def Extract_def New_def code_defs)

end
