(* ===== verification/Values.thy ===== *)
theory Values
  imports Errors
begin

text \<open>
  Go's \<open>any\<close> as far as the program uses it: the values that decoded JSON has
  (\<open>nil\<close>, \<open>bool\<close>, \<open>float64\<close>, \<open>string\<close>, \<open>[]any\<close>, \<open>map[string]any\<close>) and the further
  dynamic types that a caller may put into a where clause or a document: the other numeric
  kinds, \<open>time.Time\<close> and \<open>time.Duration\<close> (both as nanoseconds), \<open>[]byte\<close> and a
  \<open>gjson.Result\<close> (by the value it holds). A number is its kind and its value; the finite
  doubles are rationals, NaN and the infinities do not arise from JSON.

  The record \<open>cast_lib\<close> holds the functions of \<open>github.com/spf13/cast\<close> and
  \<open>encoding/json\<close> on such values, as parameters.
\<close>

type_synonym float64 = rat

datatype nkind = KInt | KInt8 | KInt16 | KInt32 | KInt64
  | KUint | KUint8 | KUint16 | KUint32 | KUint64 | KFloat32 | KFloat64

datatype any = ANil | ABool bool | ANum nkind rat | AStr string | ATime int | ADuration int
  | ABytes bytes | ASlice "any list" | AMap "(string \<times> any) list" | AResult any

abbreviation AFloat :: "float64 \<Rightarrow> any" where
  "AFloat x \<equiv> ANum KFloat64 x"

abbreviation AInt :: "int \<Rightarrow> any" where
  "AInt i \<equiv> ANum KInt (of_int i)"

subsection \<open>Rounding\<close>

text \<open>
  Arithmetic on \<open>float64\<close> rounds the exact result to the nearest double, ties to the even
  significand; \<open>bit_len\<close> is the number of binary digits, \<open>binary_exp x\<close> the exponent \<open>e\<close> with
  \<open>2^e \<le> \<bar>x\<bar> < 2^(e+1)\<close>. Results beyond the largest double are outside the model.
\<close>

fun bit_len :: "nat \<Rightarrow> nat" where
  "bit_len n = (if n = 0 then 0 else Suc (bit_len (n div 2)))"

declare bit_len.simps [simp del]

definition binary_exp :: "rat \<Rightarrow> int" where
  "binary_exp x = (case quotient_of \<bar>x\<bar> of (p, q) \<Rightarrow>
     (let e = int (bit_len (nat p)) - int (bit_len (nat q))
      in if 2 powi e \<le> \<bar>x\<bar> then e else e - 1))"

definition round_even :: "rat \<Rightarrow> int" where
  "round_even x = (let n = \<lfloor>x\<rfloor>; d = x - of_int n in
     if d < 1 / 2 then n else if d > 1 / 2 then n + 1 else if even n then n else n + 1)"

definition round64 :: "rat \<Rightarrow> float64" where
  "round64 x = (if x = 0 then 0 else
     (let u = 2 powi (max (binary_exp x - 52) (- 1074)) in of_int (round_even (x / u)) * u))"

definition float_add :: "float64 \<Rightarrow> float64 \<Rightarrow> float64" where
  "float_add x y = round64 (x + y)"

lemma bit_len_bounds: "0 < n \<Longrightarrow> 2 ^ (bit_len n - 1) \<le> n \<and> n < 2 ^ bit_len n \<and> 0 < bit_len n"
proof (induction n rule: bit_len.induct)
  case (1 n)
  show ?case
  proof (cases "n div 2 = 0")
    case True
    with 1(2) have "n = 1" by auto
    then show ?thesis by (simp add: bit_len.simps)
  next
    case False
    let ?m = "n div 2"
    have ih: "2 ^ (bit_len ?m - 1) \<le> ?m" "?m < 2 ^ bit_len ?m" "0 < bit_len ?m"
      using 1 False by auto
    have b: "bit_len n = Suc (bit_len ?m)" using 1(2) by (subst bit_len.simps) simp
    have "(2::nat) ^ bit_len ?m = 2 * 2 ^ (bit_len ?m - 1)" using ih(3) by (simp flip: power_Suc)
    with ih(1,2) have "2 ^ bit_len ?m \<le> n \<and> n < 2 * 2 ^ bit_len ?m" by linarith
    with b show ?thesis by simp
  qed
qed

lemma round_even_int [simp]: "round_even (of_int n) = n"
  by (simp add: round_even_def)

lemma round64_int:
  assumes "\<bar>n\<bar> \<le> 2 ^ 53"
  shows "round64 (of_int n) = of_int n"
proof (cases "n = 0")
  case True
  then show ?thesis by (simp add: round64_def)
next
  case False
  let ?m = "nat \<bar>n\<bar>"
  have q: "quotient_of \<bar>of_int n\<bar> = (\<bar>n\<bar>, 1)" by (simp flip: of_int_abs)
  have b: "2 ^ (bit_len ?m - 1) \<le> ?m" "?m < 2 ^ bit_len ?m" "0 < bit_len ?m"
    using bit_len_bounds [of ?m] False by auto
  have b1: "bit_len (Suc 0) = 1" by (simp add: bit_len.simps)
  define e where "e = int (bit_len ?m) - 1"
  have exp: "binary_exp (of_int n) = e"
  proof -
    have "2 powi e \<le> \<bar>of_int n :: rat\<bar>"
    proof -
      have "(of_nat (2 ^ (bit_len ?m - 1)) :: rat) \<le> of_nat ?m" using b(1) by (simp only: of_nat_le_iff)
      moreover have "(2 :: rat) powi e = 2 ^ (bit_len ?m - 1)"
        using b(3) by (simp add: e_def power_int_def nat_diff_distrib)
      ultimately show ?thesis by simp
    qed
    then show ?thesis by (simp add: binary_exp_def q Let_def b1 e_def)
  qed
  have e0: "0 \<le> e" using b(3) by (simp add: e_def)
  have scaled: "\<exists>k. of_int n / 2 powi (e - 52) = (of_int k :: rat)"
  proof (cases "e \<le> 52")
    case True
    then have "(2 :: rat) powi (e - 52) = inverse (2 ^ nat (52 - e))"
      by (auto simp: power_int_def nat_diff_distrib power_one_over inverse_eq_divide)
    then have "of_int n / 2 powi (e - 52) = (of_int (n * 2 ^ nat (52 - e)) :: rat)" by (simp add: field_simps)
    then show ?thesis by blast
  next
    case False
    have m: "?m \<le> 2 ^ 53" using assms by (simp add: nat_le_iff)
    from b(1) m have "(2::nat) ^ (bit_len ?m - 1) \<le> 2 ^ 53" by (rule order_trans)
    then have le: "bit_len ?m - 1 \<le> 53" by (rule power_le_imp_le_exp [rotated]) simp
    with False have "bit_len ?m - 1 = 53" by (simp add: e_def)
    with b(1) m have "?m = 2 ^ 53" by simp
    then have "even ?m" by simp
    then have "even n" by (simp add: even_nat_iff)
    moreover have "e - 52 = 1" using \<open>bit_len ?m - 1 = 53\<close> b(3) by (simp add: e_def)
    ultimately show ?thesis by (intro exI [of _ "n div 2"]) (auto elim!: evenE)
  qed
  then obtain k where k: "of_int n / 2 powi (e - 52) = (of_int k :: rat)" by blast
  have "max (e - 52) (- 1074) = e - 52" using e0 by simp
  then have "round64 (of_int n) = of_int k * 2 powi (e - 52)"
    using False by (simp add: round64_def exp Let_def k)
  also have "\<dots> = of_int n" unfolding k [symmetric] by simp
  finally show ?thesis .
qed

subsection \<open>Equality of interface values\<close>

text \<open>
  \<open>==\<close> on two interface values: different dynamic types are unequal, equal comparable
  types compare by value, and equal types that are not comparable (slices, maps, and
  structs that hold one) panic.
\<close>

definition iface_eq :: "any \<Rightarrow> any \<Rightarrow> bool res" where
  "iface_eq a b = (case a of
     ABytes _ \<Rightarrow> (case b of ABytes _ \<Rightarrow> Inl (Panic ''comparing uncomparable type []uint8'') | _ \<Rightarrow> Inr False)
   | ASlice _ \<Rightarrow> (case b of ASlice _ \<Rightarrow> Inl (Panic ''comparing uncomparable type []interface {}'') | _ \<Rightarrow> Inr False)
   | AMap _ \<Rightarrow> (case b of AMap _ \<Rightarrow> Inl (Panic ''comparing uncomparable type map[string]interface {}'') | _ \<Rightarrow> Inr False)
   | AResult _ \<Rightarrow> (case b of AResult _ \<Rightarrow> Inl (Panic ''comparing uncomparable type gjson.Result'') | _ \<Rightarrow> Inr False)
   | _ \<Rightarrow> Inr (a = b))"

definition iface_neq :: "any \<Rightarrow> any \<Rightarrow> bool res" where
  "iface_neq a b = rbind (iface_eq a b) (\<lambda>r. Inr (\<not> r))"

fun comparable :: "any \<Rightarrow> bool" where
  "comparable (ABytes _) = False"
| "comparable (ASlice _) = False"
| "comparable (AMap _) = False"
| "comparable (AResult _) = False"
| "comparable _ = True"

lemma iface_eq_comparable: "comparable a \<or> comparable b \<Longrightarrow> iface_eq a b = Inr (a = b)"
  by (cases a; cases b) (auto simp: iface_eq_def)

lemma iface_neq_comparable: "comparable a \<or> comparable b \<Longrightarrow> iface_neq a b = Inr (a \<noteq> b)"
  by (simp add: iface_neq_def iface_eq_comparable)

lemma iface_eq_True: "iface_eq a b = Inr True \<Longrightarrow> a = b"
  by (auto simp: iface_eq_def split: any.splits)

text \<open>Values that come out of decoded JSON, and what a stored value reads back as.\<close>

fun json_value :: "any \<Rightarrow> bool" where
  "json_value ANil = True"
| "json_value (ABool _) = True"
| "json_value (ANum k _) = (k = KFloat64)"
| "json_value (AStr _) = True"
| "json_value (ASlice vs) = list_all json_value vs"
| "json_value (AMap kvs) = list_all (\<lambda>kv. json_value (snd kv)) kvs"
| "json_value _ = False"

subsection \<open>String functions of the standard library\<close>

definition HasPrefix :: "string \<Rightarrow> string \<Rightarrow> bool" where
  "HasPrefix s p = prefix p s"

definition HasSuffix :: "string \<Rightarrow> string \<Rightarrow> bool" where
  "HasSuffix s p = suffix p s"

definition ContainsStr :: "string \<Rightarrow> string \<Rightarrow> bool" where
  "ContainsStr s p = sublist p s"

definition TrimPrefix :: "string \<Rightarrow> string \<Rightarrow> string" where
  "TrimPrefix s p = (if prefix p s then drop (length p) s else s)"

fun JoinStr :: "string \<Rightarrow> string list \<Rightarrow> string" where
  "JoinStr sep [] = []"
| "JoinStr sep [s] = s"
| "JoinStr sep (s # t # ss) = s @ sep @ JoinStr sep (t # ss)"

subsection \<open>Parameters: casting and encoding of dynamic values\<close>

record cast_lib =
  ToString :: "any \<Rightarrow> string"
  ToFloat64 :: "any \<Rightarrow> float64"
  ToBool :: "any \<Rightarrow> bool"
  ToUint64 :: "any \<Rightarrow> 64 word"
  ToStringSlice :: "any \<Rightarrow> string list"
  JSONString :: "any \<Rightarrow> string"
  ToTime :: "any \<Rightarrow> int"

text \<open>
  What the documentation of \<open>cast\<close> says of these functions on the kinds the program
  relies on: strings, numbers and booleans cast to themselves, a non-negative integral
  number casts to the unsigned integer of its value.
\<close>

definition cast_laws :: "'z cast_lib_scheme \<Rightarrow> bool" where
  "cast_laws L \<longleftrightarrow>
     (\<forall>s. ToString L (AStr s) = s) \<and> (ToString L ANil = []) \<and>
     (\<forall>k x. ToFloat64 L (ANum k x) = x) \<and> (ToFloat64 L ANil = 0) \<and> (\<forall>b. ToBool L (ABool b) = b) \<and>
     (\<forall>k n. n < 2 ^ 64 \<longrightarrow> ToUint64 L (ANum k (of_nat n)) = of_nat n)"

lemma cast_lawsD [simp]:
  assumes "cast_laws L"
  shows "ToString L (AStr s) = s" "ToString L ANil = []" "ToFloat64 L (ANum k x) = x" "ToFloat64 L ANil = 0"
    "ToBool L (ABool b) = b" "n < 2 ^ 64 \<Longrightarrow> ToUint64 L (ANum k (of_nat n)) = of_nat n"
  using assms by (simp_all add: cast_laws_def)

text \<open>One instance of the parameters, for the witnesses.\<close>

definition show_rat :: "rat \<Rightarrow> string" where
  "show_rat r = (case quotient_of r of (p, q) \<Rightarrow>
     if q = 1 then show_int p else show_int p @ ''/'' @ show_int q)"

fun plain_string :: "any \<Rightarrow> string" where
  "plain_string (AStr s) = s"
| "plain_string (ABool b) = (if b then ''true'' else ''false'')"
| "plain_string (ANum k x) = show_rat x"
| "plain_string _ = []"

fun plain_json :: "any \<Rightarrow> string" where
  "plain_json (AStr s) = json_quote s"
| "plain_json (ABool b) = (if b then ''true'' else ''false'')"
| "plain_json (ANum k x) = show_rat x"
| "plain_json (ASlice vs) = ''['' @ json_commas (map plain_json vs) @ '']''"
| "plain_json _ = ''null''"

definition simple_cast :: cast_lib where
  "simple_cast = \<lparr>
     ToString = plain_string,
     ToFloat64 = (\<lambda>v. case v of ANum k x \<Rightarrow> x | _ \<Rightarrow> 0),
     ToBool = (\<lambda>v. case v of ABool b \<Rightarrow> b | _ \<Rightarrow> False),
     ToUint64 = (\<lambda>v. case v of ANum k x \<Rightarrow> (if x < 0 then 0 else word_of_int (floor x)) | _ \<Rightarrow> 0),
     ToStringSlice = (\<lambda>v. case v of ASlice vs \<Rightarrow> map plain_string vs | AStr s \<Rightarrow> [s] | _ \<Rightarrow> []),
     JSONString = plain_json,
     ToTime = (\<lambda>v. case v of ATime t \<Rightarrow> t | _ \<Rightarrow> 0)\<rparr>"

lemma simple_cast_laws: "cast_laws simple_cast"
  by (auto simp: cast_laws_def simple_cast_def)

subsection \<open>Machine integers\<close>

text \<open>Go's \<open>int\<close> and \<open>time.Duration\<close> wrap around at 64 bits.\<close>

definition int64 :: "int \<Rightarrow> int" where
  "int64 i = signed_take_bit 63 i"

lemma int64_id: "- (2 ^ 63) \<le> i \<Longrightarrow> i < 2 ^ 63 \<Longrightarrow> int64 i = i"
  by (simp add: int64_def signed_take_bit_int_eq_self_iff)

end
