(* ===== verification/Model.thy ===== *)
theory Model
  imports Values
begin

text \<open>
  The data model of \<open>model.go\<close>: queries, indexes, explanations, field operations, commands,
  change records, triggers and authorization rules; \<open>Query.Validate\<close>;
  \<open>isAggregateQuery\<close> and \<open>defaultAs\<close> of \<open>util.go\<close>; the query builder of
  \<open>builder.go\<close>. String enumerations are datatypes with one constructor for any other text.
\<close>

subsection \<open>Queries\<close>

datatype where_op = WEq | WNeq | WGt | WGte | WLt | WLte | WIn | WContains | WContainsAll
  | WContainsAny | WHasPrefix | WHasSuffix | WRegex | WOther string

datatype direction = Asc | Desc | DirOther string

datatype agg_fun = NoAgg | AggCount | AggMax | AggMin | AggSum | AggOther string

record where_c =
  wField :: string
  wOp :: where_op
  wValue :: any

record order_by =
  obDirection :: direction
  obField :: string

record select_c =
  sAggregate :: agg_fun
  sAs :: string
  sField :: string

record join_c =
  jCollection :: string
  jOn :: "where_c list"
  jAs :: string

record query =
  qSelect :: "select_c list"
  qJoin :: "join_c list"
  qWhere :: "where_c list"
  qGroupBy :: "string list"
  qPage :: int
  qLimit :: int
  qOrderBy :: "order_by list"
  qHaving :: "where_c list"

definition empty_query :: query where
  "empty_query = \<lparr>qSelect = [], qJoin = [], qWhere = [], qGroupBy = [], qPage = 0, qLimit = 0,
     qOrderBy = [], qHaving = []\<rparr>"

definition select_field :: "string \<Rightarrow> select_c" where
  "select_field f = \<lparr>sAggregate = NoAgg, sAs = [], sField = f\<rparr>"

definition agg_text :: "agg_fun \<Rightarrow> string" where
  "agg_text a = (case a of NoAgg \<Rightarrow> [] | AggCount \<Rightarrow> ''count'' | AggMax \<Rightarrow> ''max''
     | AggMin \<Rightarrow> ''min'' | AggSum \<Rightarrow> ''sum'' | AggOther s \<Rightarrow> s)"

definition defaultAs :: "agg_fun \<Rightarrow> string \<Rightarrow> string" where
  "defaultAs f field = (if f \<noteq> NoAgg then agg_text f @ ''_'' @ field else field)"

definition isAggregateQuery :: "query \<Rightarrow> bool" where
  "isAggregateQuery q = list_ex (\<lambda>a. sAggregate a \<noteq> NoAgg) (qSelect q)"

subsection \<open>Validation\<close>

text \<open>
  The struct tags are checked by \<open>github.com/go-playground/validator\<close>, the parameter
  \<open>validate_struct\<close>; the rest of \<open>Query.Validate\<close> is the source's three loops.
\<close>

definition quote_sq :: "string \<Rightarrow> string" where
  "quote_sq s = CHR 0x27 # s @ [CHR 0x27]"

fun check_select_fields :: "select_c list \<Rightarrow> unit res" where
  "check_select_fields [] = Inr ()"
| "check_select_fields (a # as) =
     (if sField a = [] then fail Validation (''empty required field: '' @ quote_sq ''select.field'') else check_select_fields as)"

fun check_grouped :: "string list \<Rightarrow> select_c list \<Rightarrow> unit res" where
  "check_grouped gs [] = Inr ()"
| "check_grouped gs (a # as) =
     (if sAggregate a = NoAgg \<and> sField a \<notin> set gs
      then fail Validation (quote_sq (sField a) @ '', is required in the group_by clause when aggregating'')
      else check_grouped gs as)"

fun check_selected :: "select_c list \<Rightarrow> string list \<Rightarrow> unit res" where
  "check_selected sel [] = Inr ()"
| "check_selected sel (g # gs) =
     (if \<not> list_ex (\<lambda>f. sField f = g) sel
      then fail Validation (quote_sq g @ '', is required in the select clause when aggregating'')
      else check_selected sel gs)"

definition Validate :: "(query \<Rightarrow> gerr option) \<Rightarrow> query \<Rightarrow> unit res" where
  "Validate validate_struct q =
     (case validate_struct q of
        Some e \<Rightarrow> Inl (Fail (wrap e Validation []))
      | None \<Rightarrow>
          if qSelect q = [] then fail Validation ''query validation error: at least one select is required''
          else rbind (check_select_fields (qSelect q)) (\<lambda>_.
            if isAggregateQuery q
            then rbind (check_grouped (qGroupBy q) (qSelect q)) (\<lambda>_. check_selected (qSelect q) (qGroupBy q))
            else Inr ()))"

lemma check_select_fields_ok: "check_select_fields as = Inr () \<longleftrightarrow> (\<forall>a\<in>set as. sField a \<noteq> [])"
  by (induction as) auto

lemma check_grouped_ok:
  "check_grouped gs as = Inr () \<longleftrightarrow> (\<forall>a\<in>set as. sAggregate a = NoAgg \<longrightarrow> sField a \<in> set gs)"
  by (induction as) auto

lemma check_selected_ok: "check_selected sel gs = Inr () \<longleftrightarrow> set gs \<subseteq> sField ` set sel"
  by (induction gs) (auto simp: list_ex_iff image_iff)

text \<open>
  When the struct tags hold, validation accepts a query exactly if it selects something,
  every selected field is named and, for an aggregate query, the fields selected without
  an aggregate are grouped and every grouping field is selected.
\<close>

lemma Validate_iff:
  assumes "vs q = None"
  shows "Validate vs q = Inr () \<longleftrightarrow>
    qSelect q \<noteq> [] \<and> (\<forall>a\<in>set (qSelect q). sField a \<noteq> []) \<and>
    (isAggregateQuery q \<longrightarrow>
       sField ` {a \<in> set (qSelect q). sAggregate a = NoAgg} \<subseteq> set (qGroupBy q) \<and>
       set (qGroupBy q) \<subseteq> sField ` set (qSelect q))"
  using assms
  by (auto simp: Validate_def rbind_eq_Inr check_select_fields_ok check_grouped_ok check_selected_ok)

lemma Validate_iff_witness:
  "Validate (\<lambda>_. None) (empty_query\<lparr>qSelect := [select_field ''a'', \<lparr>sAggregate = AggSum, sAs = [], sField = ''b''\<rparr>],
     qGroupBy := [''a'']\<rparr>) = Inr ()"
  using Validate_iff [of "\<lambda>_. None" "empty_query\<lparr>qSelect := [select_field ''a'', \<lparr>sAggregate = AggSum, sAs = [], sField = ''b''\<rparr>],
     qGroupBy := [''a'']\<rparr>"]
  by (auto simp: select_field_def)

subsection \<open>Indexes, explanations and field operations\<close>

record foreign_key =
  fkCollection :: string
  fkCascade :: bool

record index_c =
  iName :: string
  iFields :: "string list"
  iUnique :: bool
  iPrimary :: bool
  iForeignKey :: "foreign_key option"

definition no_index :: index_c where
  "no_index = \<lparr>iName = [], iFields = [], iUnique = False, iPrimary = False, iForeignKey = None\<rparr>"

record explain =
  eCollection :: string
  eIndex :: index_c
  eMatchedFields :: "string list"
  eMatchedValues :: "any kvs"
  eSeekFields :: "string list"
  eSeekValues :: "any kvs"
  eReverse :: bool

datatype json_op = JSONOpRemove | JSONOpAdd | JSONOpReplace | JSONOpOther string

record field_op =
  foPath :: string
  foOp :: json_op
  foValue :: any
  foBefore :: any

subsection \<open>Commands, change records, triggers, rules\<close>

datatype action = CreateAction | SetAction | UpdateAction | DeleteAction | QueryAction
  | ConfigureAction | ChangeStreamAction | ActOther string

definition action_text :: "action \<Rightarrow> string" where
  "action_text a = (case a of CreateAction \<Rightarrow> ''create'' | SetAction \<Rightarrow> ''set'' | UpdateAction \<Rightarrow> ''update''
     | DeleteAction \<Rightarrow> ''delete'' | QueryAction \<Rightarrow> ''query'' | ConfigureAction \<Rightarrow> ''configure''
     | ChangeStreamAction \<Rightarrow> ''changeStream'' | ActOther s \<Rightarrow> s)"

datatype event_type = OnSet | OnDelete | OnUpdate | OnCreate | EvOther string

record 'r persist_command =
  pcCollection :: string
  pcAction :: action
  pcDocument :: 'r
  pcTimestamp :: int
  pcMetadata :: "'r option"

record 'r cdc =
  cdcID :: string
  cdcCollection :: string
  cdcAction :: action
  cdcDocumentID :: string
  cdcDiff :: "field_op list"
  cdcTimestamp :: int
  cdcMetadata :: "'r option"

record trigger =
  trName :: string
  trOrder :: int
  trEvents :: "event_type list"
  trScript :: string

record computed =
  cRead :: bool
  cWrite :: bool
  cExpr :: string

record property =
  pPrimary :: bool
  pName :: string
  pType :: string
  pPath :: string
  pImmutable :: bool
  pUnique :: bool
  pForeignKey :: "foreign_key option"
  pCompute :: "computed option"
  pDefault :: "any option"

datatype authz_effect = Allow | Deny | EffectOther string

record authz_rule =
  arEffect :: authz_effect
  arAction :: "action list"
  arMatch :: string

abbreviation any_action :: action where
  "any_action \<equiv> ActOther ''*''"

subsection \<open>The query builder\<close>

text \<open>The builder holds a pointer to the query it fills; each method updates it and returns the builder.\<close>

definition qb_Select :: "select_c list \<Rightarrow> query \<Rightarrow> query" where
  "qb_Select fs q = q\<lparr>qSelect := qSelect q @ fs\<rparr>"

definition qb_Where :: "where_c list \<Rightarrow> query \<Rightarrow> query" where
  "qb_Where ws q = q\<lparr>qWhere := qWhere q @ ws\<rparr>"

definition qb_Join :: "join_c list \<Rightarrow> query \<Rightarrow> query" where
  "qb_Join js q = q\<lparr>qJoin := qJoin q @ js\<rparr>"

definition qb_OrderBy :: "order_by list \<Rightarrow> query \<Rightarrow> query" where
  "qb_OrderBy os q = q\<lparr>qOrderBy := qOrderBy q @ os\<rparr>"

definition qb_Limit :: "int \<Rightarrow> query \<Rightarrow> query" where
  "qb_Limit n q = q\<lparr>qLimit := n\<rparr>"

definition qb_Page :: "int \<Rightarrow> query \<Rightarrow> query" where
  "qb_Page n q = q\<lparr>qPage := n\<rparr>"

definition qb_GroupBy :: "string list \<Rightarrow> query \<Rightarrow> query" where
  "qb_GroupBy gs q = q\<lparr>qGroupBy := qGroupBy q @ gs\<rparr>"

definition qb_Having :: "where_c list \<Rightarrow> query \<Rightarrow> query" where
  "qb_Having ws q = q\<lparr>qHaving := qHaving q @ ws\<rparr>"

end
