(* ===== verification/Document.thy ===== *)
theory Document
  imports Model
begin

text \<open>
  \<open>document.go\<close>: JSON documents. A document is its JSON text, of the type parameter
  \<open>'r\<close>; reading and writing that text is \<open>github.com/tidwall/gjson\<close> and \<open>sjson\<close>, the
  parameters of the record \<open>json_lib\<close>, with \<open>json_laws\<close> for what their documentation
  says of plain paths. On top of them stand the source's operations: \<open>Get\<close>, \<open>Set\<close>,
  \<open>SetAll\<close>, \<open>Overwrite\<close>, \<open>Merge\<close>, \<open>MergeJoin\<close>, \<open>DelAll\<close>, \<open>Where\<close>, \<open>Diff\<close>,
  \<open>ApplyOps\<close>, \<open>RevertOps\<close>, \<open>FieldPaths\<close> and the document builder. The mutating methods
  return the new text; a failing one returns the error alone.
\<close>

subsection \<open>Parameters: reading and writing JSON text\<close>

record 'r json_lib = cast_lib +
  gjValid :: "'r \<Rightarrow> bool"
  gjIsArray :: "'r \<Rightarrow> bool"
  gjGet :: "'r \<Rightarrow> string \<Rightarrow> any option"
  gjValue :: "'r \<Rightarrow> any"
  gjPath :: "'r \<Rightarrow> string list \<Rightarrow> string"
  gjElements :: "any \<Rightarrow> any list"
  emptyJSON :: 'r
  sjSet :: "'r \<Rightarrow> string \<Rightarrow> any \<Rightarrow> gerr + 'r"
  sjSetRaw :: "'r \<Rightarrow> string \<Rightarrow> bytes \<Rightarrow> gerr + 'r"
  sjDelete :: "'r \<Rightarrow> string \<Rightarrow> gerr + 'r"
  ToStringMap :: "any \<Rightarrow> any kvs"
  Flatten :: "any kvs \<Rightarrow> gerr + any kvs"
  MarshalMap :: "any kvs \<Rightarrow> gerr + 'r"
  RegexpMatch :: "string \<Rightarrow> string \<Rightarrow> bool"
  BytesOf :: "string \<Rightarrow> 'r"

text \<open>
  On a set \<open>P\<close> of plain paths none of which leads into another, and on the documents \<open>R\<close>
  whose inner nodes along these paths are objects: setting a path succeeds, makes it read
  as the value and leaves the other paths alone; deleting a path removes it only.
\<close>

definition json_laws :: "('r, 'z) json_lib_scheme \<Rightarrow> ('r \<Rightarrow> bool) \<Rightarrow> string set \<Rightarrow> bool" where
  "json_laws L R P \<longleftrightarrow>
     (\<forall>r p v. R r \<longrightarrow> p \<in> P \<longrightarrow> json_value v \<longrightarrow>
        (\<exists>r'. sjSet L r p v = Inr r' \<and> R r' \<and> (\<forall>q\<in>P. gjGet L r' q = (if q = p then Some v else gjGet L r q)))) \<and>
     (\<forall>r p. R r \<longrightarrow> p \<in> P \<longrightarrow>
        (\<exists>r'. sjDelete L r p = Inr r' \<and> R r' \<and> (\<forall>q\<in>P. gjGet L r' q = (if q = p then None else gjGet L r q))))"

lemma json_laws_set:
  assumes "json_laws L R P" "R r" "p \<in> P" "json_value v"
  obtains r' where "sjSet L r p v = Inr r'" "R r'"
    "\<And>q. q \<in> P \<Longrightarrow> gjGet L r' q = (if q = p then Some v else gjGet L r q)"
  using assms unfolding json_laws_def by metis

lemma json_laws_delete:
  assumes "json_laws L R P" "R r" "p \<in> P"
  obtains r' where "sjDelete L r p = Inr r'" "R r'"
    "\<And>q. q \<in> P \<Longrightarrow> gjGet L r' q = (if q = p then None else gjGet L r q)"
  using assms unfolding json_laws_def by metis

subsection \<open>Reading\<close>

definition doc_valid :: "('r, 'z) json_lib_scheme \<Rightarrow> 'r \<Rightarrow> bool" where
  "doc_valid L d \<longleftrightarrow> gjValid L d \<and> \<not> gjIsArray L d"

definition NewDocumentFromBytes :: "('r, 'z) json_lib_scheme \<Rightarrow> 'r \<Rightarrow> 'r res" where
  "NewDocumentFromBytes L json =
     (if \<not> gjValid L json then fail Validation ''invalid json''
      else if \<not> doc_valid L json then fail Validation ''invalid document''
      else Inr json)"

definition NewDocumentFrom :: "('r, 'z) json_lib_scheme \<Rightarrow> any kvs \<Rightarrow> 'r res" where
  "NewDocumentFrom L value = (case MarshalMap L value of
     Inl e \<Rightarrow> fail Validation ''failed to json encode value''
   | Inr bits \<Rightarrow> NewDocumentFromBytes L bits)"

definition doc_exists :: "('r, 'z) json_lib_scheme \<Rightarrow> 'r \<Rightarrow> string \<Rightarrow> bool" where
  "doc_exists L d field = (gjGet L d field \<noteq> None)"

definition doc_get :: "('r, 'z) json_lib_scheme \<Rightarrow> 'r \<Rightarrow> string \<Rightarrow> any" where
  "doc_get L d field = (case gjGet L d field of Some v \<Rightarrow> v | None \<Rightarrow> ANil)"

definition GetString :: "('r, 'z) json_lib_scheme \<Rightarrow> 'r \<Rightarrow> string \<Rightarrow> string" where
  "GetString L d field = ToString L (doc_get L d field)"

definition GetFloat :: "('r, 'z) json_lib_scheme \<Rightarrow> 'r \<Rightarrow> string \<Rightarrow> float64" where
  "GetFloat L d field = ToFloat64 L (doc_get L d field)"

definition GetBool :: "('r, 'z) json_lib_scheme \<Rightarrow> 'r \<Rightarrow> string \<Rightarrow> bool" where
  "GetBool L d field = ToBool L (doc_get L d field)"

definition GetTime :: "('r, 'z) json_lib_scheme \<Rightarrow> 'r \<Rightarrow> string \<Rightarrow> int" where
  "GetTime L d field = ToTime L (AStr (GetString L d field))"

definition doc_value :: "('r, 'z) json_lib_scheme \<Rightarrow> 'r \<Rightarrow> any kvs" where
  "doc_value L d = ToStringMap L (gjValue L d)"

subsection \<open>Writing\<close>

definition doc_set1 :: "('r, 'z) json_lib_scheme \<Rightarrow> string \<Rightarrow> any \<Rightarrow> 'r \<Rightarrow> 'r res" where
  "doc_set1 L field val d = lift_err (case val of
     AResult v \<Rightarrow> sjSet L d field v
   | ABytes b \<Rightarrow> sjSetRaw L d field b
   | v \<Rightarrow> sjSet L d field v)"

definition SetAll :: "('r, 'z) json_lib_scheme \<Rightarrow> any kvs \<Rightarrow> 'r \<Rightarrow> 'r res" where
  "SetAll L values d = rfold (\<lambda>(k, v). doc_set1 L k v) values d"

definition doc_set :: "('r, 'z) json_lib_scheme \<Rightarrow> string \<Rightarrow> any \<Rightarrow> 'r \<Rightarrow> 'r res" where
  "doc_set L field val d = SetAll L [(field, val)] d"

definition Overwrite :: "('r, 'z) json_lib_scheme \<Rightarrow> any kvs \<Rightarrow> 'r \<Rightarrow> 'r res" where
  "Overwrite L values d = rfold (\<lambda>(k, v). doc_set L k v) values (emptyJSON L)"

definition Merge :: "('r, 'z) json_lib_scheme \<Rightarrow> 'r \<Rightarrow> 'r \<Rightarrow> 'r res" where
  "Merge L wth d =
     (if \<not> doc_valid L wth then fail Validation ''invalid document''
      else rbind (lift_err (Flatten L (doc_value L wth))) (\<lambda>flattened. SetAll L flattened d))"

definition MergeJoin :: "('r, 'z) json_lib_scheme \<Rightarrow> 'r \<Rightarrow> string \<Rightarrow> 'r \<Rightarrow> 'r res" where
  "MergeJoin L wth alias d =
     (if \<not> doc_valid L wth then fail Validation ''invalid document''
      else rbind (lift_err (Flatten L (doc_value L wth))) (\<lambda>flattened.
        rfold (\<lambda>(k, v). doc_set L (alias @ ''.'' @ k) v) flattened d))"

definition DelAll :: "('r, 'z) json_lib_scheme \<Rightarrow> string list \<Rightarrow> 'r \<Rightarrow> 'r res" where
  "DelAll L fs d = rfold (\<lambda>field d. lift_err (sjDelete L d field)) fs d"

definition Del :: "('r, 'z) json_lib_scheme \<Rightarrow> string \<Rightarrow> 'r \<Rightarrow> 'r res" where
  "Del L field d = DelAll L [field] d"

definition doc_UnmarshalJSON :: "('r, 'z) json_lib_scheme \<Rightarrow> 'r \<Rightarrow> 'r \<Rightarrow> 'r res" where
  "doc_UnmarshalJSON L bytes d = rbind (NewDocumentFromBytes L bytes) (\<lambda>doc. Inr doc)"

lemma doc_set_eq: "doc_set L f v d = doc_set1 L f v d"
  by (simp add: doc_set_def SetAll_def rbind_def split: sum.splits)

lemma doc_set_json_value: "json_value v \<Longrightarrow> doc_set L f v d = lift_err (sjSet L d f v)"
  by (cases v) (simp_all add: doc_set_eq doc_set1_def)

subsection \<open>The document builder\<close>

record 'r doc_builder =
  dbDoc :: 'r
  dbErr :: "failure option"

definition builder_D :: "('r, 'z) json_lib_scheme \<Rightarrow> 'r doc_builder" where
  "builder_D L = \<lparr>dbDoc = emptyJSON L, dbErr = None\<rparr>"

definition builder_step :: "('r \<Rightarrow> 'r res) \<Rightarrow> 'r doc_builder \<Rightarrow> 'r doc_builder" where
  "builder_step f b = (if dbErr b \<noteq> None then b else
     case f (dbDoc b) of Inl e \<Rightarrow> b\<lparr>dbErr := Some e\<rparr> | Inr d \<Rightarrow> b\<lparr>dbDoc := d\<rparr>)"

definition builder_From :: "('r, 'z) json_lib_scheme \<Rightarrow> 'r \<Rightarrow> 'r doc_builder \<Rightarrow> 'r doc_builder" where
  "builder_From L d = builder_step (Overwrite L (doc_value L d))"

definition builder_Set :: "('r, 'z) json_lib_scheme \<Rightarrow> any kvs \<Rightarrow> 'r doc_builder \<Rightarrow> 'r doc_builder" where
  "builder_Set L values = builder_step (SetAll L values)"

definition builder_Doc :: "'r doc_builder \<Rightarrow> 'r" where
  "builder_Doc b = dbDoc b"

definition builder_Err :: "'r doc_builder \<Rightarrow> failure option" where
  "builder_Err b = dbErr b"

subsection \<open>Where\<close>

definition selfRefPrefix :: string where
  "selfRefPrefix = ''$''"

definition null_text :: any where
  "null_text = AStr ''null''"

definition or_else :: "bool res \<Rightarrow> bool res \<Rightarrow> bool res" where
  "or_else a b = rbind a (\<lambda>x. if x then Inr True else b)"

text \<open>What one clause does to the loop: reject the document, go on, or accept it at once.\<close>

datatype where_step = Reject | Continue | Accept

definition reject_if :: "bool res \<Rightarrow> where_step res" where
  "reject_if c = rbind c (\<lambda>b. Inr (if b then Reject else Continue))"

fun any_equal :: "any list \<Rightarrow> any \<Rightarrow> bool \<Rightarrow> bool res" where
  "any_equal [] value matched = Inr matched"
| "any_equal (e # es) value matched =
     rbind (iface_eq e value) (\<lambda>b. any_equal es value (b \<or> matched))"

definition eq_rejects :: "('r, 'z) json_lib_scheme \<Rightarrow> 'r \<Rightarrow> where_c \<Rightarrow> bool res" where
  "eq_rejects L d w =
     (if HasPrefix (ToString L (wValue w)) selfRefPrefix
      then (let other = doc_get L d (TrimPrefix (ToString L (wValue w)) selfRefPrefix)
            in or_else (iface_neq (doc_get L d (wField w)) other)
                 (rbind (iface_eq (wValue w) null_text) (\<lambda>n. Inr (n \<and> other \<noteq> ANil))))
      else or_else (iface_neq (wValue w) (doc_get L d (wField w)))
             (rbind (iface_eq (wValue w) null_text) (\<lambda>n. Inr (n \<and> doc_get L d (wField w) \<noteq> ANil))))"

definition neq_rejects :: "('r, 'z) json_lib_scheme \<Rightarrow> 'r \<Rightarrow> where_c \<Rightarrow> bool res" where
  "neq_rejects L d w =
     (if HasPrefix (ToString L (wValue w)) selfRefPrefix
      then (let other = doc_get L d (TrimPrefix (ToString L (wValue w)) selfRefPrefix)
            in or_else (iface_eq (doc_get L d (wField w)) other)
                 (rbind (iface_eq (wValue w) null_text) (\<lambda>n. Inr (n \<and> other = ANil))))
      else or_else (iface_eq (wValue w) (doc_get L d (wField w)))
             (rbind (iface_eq (wValue w) null_text) (\<lambda>n. Inr (n \<and> doc_get L d (wField w) = ANil))))"

definition where_clause :: "('r, 'z) json_lib_scheme \<Rightarrow> 'r \<Rightarrow> where_c \<Rightarrow> where_step res" where
  "where_clause L d w =
     (let isSelf = HasPrefix (ToString L (wValue w)) selfRefPrefix;
          selfField = TrimPrefix (ToString L (wValue w)) selfRefPrefix;
          fieldVal = doc_get L d (wField w);
          lhs = GetFloat L d (wField w);
          rhs = (if isSelf then GetFloat L d selfField else ToFloat64 L (wValue w))
      in case wOp w of
        WEq \<Rightarrow> reject_if (eq_rejects L d w)
      | WNeq \<Rightarrow> reject_if (neq_rejects L d w)
      | WLt \<Rightarrow> reject_if (Inr (lhs \<ge> rhs))
      | WLte \<Rightarrow> reject_if (Inr (lhs > rhs))
      | WGt \<Rightarrow> reject_if (Inr (lhs \<le> rhs))
      | WGte \<Rightarrow> reject_if (Inr (lhs < rhs))
      | WIn \<Rightarrow> reject_if (rbind (any_equal (gjElements L (wValue w)) fieldVal False) (\<lambda>m. Inr (\<not> m)))
      | WContains \<Rightarrow> reject_if (Inr (case fieldVal of
          AStr s \<Rightarrow> \<not> ContainsStr s (ToString L (wValue w))
        | _ \<Rightarrow> \<not> ContainsStr (JSONString L fieldVal) (JSONString L (wValue w))))
      | WContainsAll \<Rightarrow> reject_if (Inr
          (\<not> list_all (\<lambda>v. v \<in> set (ToStringSlice L fieldVal)) (ToStringSlice L (wValue w))))
      | WContainsAny \<Rightarrow> Inr
          (if list_ex (\<lambda>v. v \<in> set (ToStringSlice L fieldVal)) (ToStringSlice L (wValue w))
           then Accept else Continue)
      | WHasPrefix \<Rightarrow> reject_if (Inr (\<not> HasPrefix (GetString L d (wField w)) (ToString L (wValue w))))
      | WHasSuffix \<Rightarrow> reject_if (Inr (\<not> HasSuffix (GetString L d (wField w)) (ToString L (wValue w))))
      | WRegex \<Rightarrow> reject_if (Inr (\<not> RegexpMatch L (ToString L (wValue w)) (ToString L fieldVal)))
      | WOther s \<Rightarrow> fail Validation (''unsupported operator: '' @ s))"

fun doc_where :: "('r, 'z) json_lib_scheme \<Rightarrow> 'r \<Rightarrow> where_c list \<Rightarrow> bool res" where
  "doc_where L d [] = Inr True"
| "doc_where L d (w # ws) = rbind (where_clause L d w) (\<lambda>r. case r of
     Reject \<Rightarrow> Inr False | Accept \<Rightarrow> Inr True | Continue \<Rightarrow> doc_where L d ws)"

subsection \<open>Field paths\<close>

text \<open>
  \<open>paths\<close> walks the object members in document order and records the path of every value
  that is not an object; \<open>gjPath\<close> spells a path given by its keys.
\<close>

function paths :: "string list \<Rightarrow> any \<Rightarrow> string list list" where
  "paths pre (AMap kvs) = concat (map (\<lambda>kv. case snd kv of
      AMap m \<Rightarrow> paths (pre @ [fst kv]) (snd kv) | _ \<Rightarrow> [pre @ [fst kv]]) kvs)"
| "paths pre (ASlice vs) = concat (map (\<lambda>iv. case snd iv of
      AMap m \<Rightarrow> paths (pre @ [show_nat (fst iv)]) (snd iv) | _ \<Rightarrow> [pre @ [show_nat (fst iv)]])
      (zip [0..<length vs] vs))"
| "paths pre ANil = [pre]"
| "paths pre (ABool b) = [pre]"
| "paths pre (ANum k x) = [pre]"
| "paths pre (AStr s) = [pre]"
| "paths pre (ATime t) = [pre]"
| "paths pre (ADuration t) = [pre]"
| "paths pre (ABytes b) = [pre]"
| "paths pre (AResult v) = [pre]"
  by pat_completeness auto
termination
proof (relation "measure (\<lambda>(pre, v). size v)", goal_cases)
  case (2 pre kvs kv m)
  have "size (snd kv) \<le> size_list (size_prod (\<lambda>x. 0) size) kvs"
    by (rule size_list_estimation' [OF 2(1)]) (simp add: size_prod_simp)
  then show ?case by simp
next
  case (3 pre vs iv m)
  then have "snd iv \<in> set vs" by (metis prod.collapse set_zip_rightD)
  then have "size (snd iv) \<le> size_list size vs" by (rule size_list_estimation') simp
  then show ?case by simp
qed simp

definition FieldPaths :: "('r, 'z) json_lib_scheme \<Rightarrow> 'r \<Rightarrow> string list" where
  "FieldPaths L d = map (gjPath L d) (paths [] (gjValue L d))"

subsection \<open>Diff, apply and revert\<close>

text \<open>\<open>reflect.DeepEqual\<close>: maps are compared as maps, whatever the order of their members.\<close>

fun canon :: "any \<Rightarrow> any" where
  "canon (AMap kvs) = AMap (sort_key fst (map (\<lambda>kv. (fst kv, canon (snd kv))) kvs))"
| "canon (ASlice vs) = ASlice (map canon vs)"
| "canon v = v"

definition DeepEqual :: "any \<Rightarrow> any \<Rightarrow> bool" where
  "DeepEqual a b = (canon a = canon b)"

definition before_op :: "('r, 'z) json_lib_scheme \<Rightarrow> 'r \<Rightarrow> 'r \<Rightarrow> string \<Rightarrow> field_op list" where
  "before_op L d before path =
     (if \<not> doc_exists L d path
      then [\<lparr>foPath = path, foOp = JSONOpRemove, foValue = ANil, foBefore = doc_get L before path\<rparr>]
      else if \<not> DeepEqual (doc_get L d path) (doc_get L before path)
      then [\<lparr>foPath = path, foOp = JSONOpReplace, foValue = doc_get L d path, foBefore = doc_get L before path\<rparr>]
      else [])"

definition after_op :: "('r, 'z) json_lib_scheme \<Rightarrow> 'r \<Rightarrow> 'r \<Rightarrow> string \<Rightarrow> field_op list" where
  "after_op L d before path =
     (if \<not> doc_exists L before path
      then [\<lparr>foPath = path, foOp = JSONOpAdd, foValue = doc_get L d path, foBefore = ANil\<rparr>]
      else [])"

definition Diff :: "('r, 'z) json_lib_scheme \<Rightarrow> 'r \<Rightarrow> 'r option \<Rightarrow> field_op list" where
  "Diff L d before =
     (if before = Some d then []
      else (let b = (case before of Some b \<Rightarrow> b | None \<Rightarrow> emptyJSON L)
            in concat (map (before_op L d b) (FieldPaths L b)) @
               concat (map (after_op L d b) (FieldPaths L d))))"

definition apply_op :: "('r, 'z) json_lib_scheme \<Rightarrow> field_op \<Rightarrow> 'r \<Rightarrow> 'r res" where
  "apply_op L op d = (case foOp op of
     JSONOpRemove \<Rightarrow> DelAll L [foPath op] d
   | JSONOpReplace \<Rightarrow> doc_set L (foPath op) (foValue op) d
   | JSONOpAdd \<Rightarrow> doc_set L (foPath op) (foValue op) d
   | JSONOpOther s \<Rightarrow> fail Validation (''unsupported op: '' @ s))"

definition ApplyOps :: "('r, 'z) json_lib_scheme \<Rightarrow> field_op list \<Rightarrow> 'r \<Rightarrow> 'r res" where
  "ApplyOps L ops d = rfold (apply_op L) ops d"

definition revert_op :: "('r, 'z) json_lib_scheme \<Rightarrow> field_op \<Rightarrow> 'r \<Rightarrow> 'r res" where
  "revert_op L op d = (if foBefore op \<noteq> ANil then doc_set L (foPath op) (foBefore op) d else Inr d)"

definition RevertOps :: "('r, 'z) json_lib_scheme \<Rightarrow> field_op list \<Rightarrow> 'r \<Rightarrow> 'r res" where
  "RevertOps L ops d = rfold (revert_op L) ops d"

end
