(* ===== verification/Schema.thy ===== *)
theory Schema
  imports Document
begin

text \<open>
  The state of \<open>collectionSchema\<close> in \<open>schema.go\<close> after a schema has been loaded, with the
  accessors the transactions use, the request context of \<open>metakeys.go\<close>, \<open>metadata.go\<close> and
  \<open>util.go\<close> (internal and indexing marks, metadata, schemas carried along), and
  \<open>getIndexDiff\<close> of \<open>util.go\<close>. Maps are association lists in iteration order; the raw
  JSON text of a schema has the type parameter \<open>'r\<close> of documents.
\<close>

record 'r schema =
  scCollection :: string
  scPrimaryIndex :: index_c
  scImmutable :: bool
  scPreventDeletes :: bool
  scIndexing :: "index_c kvs"
  scProperties :: "property kvs"
  scPropertyPaths :: "property kvs"
  scTriggers :: "trigger list"
  scReadOnly :: bool
  scAuthz :: "authz_rule list"
  scRequireIndex :: bool
  scRaw :: 'r

definition PrimaryKey :: "'r schema \<Rightarrow> string" where
  "PrimaryKey c = (case iFields (scPrimaryIndex c) of [] \<Rightarrow> [] | f # _ \<Rightarrow> f)"

definition GetPrimaryKey :: "('r, 'z) json_lib_scheme \<Rightarrow> 'r schema \<Rightarrow> 'r \<Rightarrow> string" where
  "GetPrimaryKey L c doc = GetString L doc (PrimaryKey c)"

definition SetPrimaryKey :: "('r, 'z) json_lib_scheme \<Rightarrow> 'r schema \<Rightarrow> 'r \<Rightarrow> string \<Rightarrow> 'r res" where
  "SetPrimaryKey L c doc docID = wrapping 0 ''failed to set primary key'' (doc_set L (PrimaryKey c) (AStr docID) doc)"

definition HasPropertyPath :: "'r schema \<Rightarrow> string \<Rightarrow> bool" where
  "HasPropertyPath c p = (case map_of (scPropertyPaths c) p of None \<Rightarrow> False | Some v \<Rightarrow> pName v \<noteq> [])"

definition Indexing_map :: "'r schema \<Rightarrow> index_c list" where
  "Indexing_map c = map snd (scIndexing c)"

text \<open>
  Well-formed schemas, as the loader builds them: the map keys are the index names, names
  and collection carry no zero byte, the primary index is one of the indexes and has the
  primary key as its only field.
\<close>

definition schema_wf :: "'r schema \<Rightarrow> bool" where
  "schema_wf c \<longleftrightarrow>
     distinct (keys (scIndexing c)) \<and> (\<forall>(k, i)\<in>set (scIndexing c). iName i = k) \<and>
     nul \<notin> set (scCollection c) \<and>
     (\<forall>(k, i)\<in>set (scIndexing c). nul \<notin> set k \<and> (\<forall>f\<in>set (iFields i). nul \<notin> set f)) \<and>
     (\<exists>k. (k, scPrimaryIndex c) \<in> set (scIndexing c)) \<and>
     (\<exists>pk. iFields (scPrimaryIndex c) = [pk]) \<and>
     (\<forall>(k, i)\<in>set (scIndexing c). iPrimary i \<longleftrightarrow> i = scPrimaryIndex c)"

subsection \<open>The request context\<close>

record 'r ctx =
  cxMeta :: "'r option"
  cxInternal :: bool
  cxIndexing :: bool
  cxSchemas :: "'r schema kvs"

definition MetadataKeyNamespace :: string where
  "MetadataKeyNamespace = ''namespace''"

definition GetMetadataValue :: "('r, 'z) json_lib_scheme \<Rightarrow> 'r ctx \<Rightarrow> string \<Rightarrow> any" where
  "GetMetadataValue L cx key = (case cxMeta cx of
     Some m \<Rightarrow> (let val = doc_get L m key in
       if val = ANil \<and> key = MetadataKeyNamespace then AStr ''default'' else val)
   | None \<Rightarrow> (if key = MetadataKeyNamespace then AStr ''default'' else ANil))"

definition namespace :: "('r, 'z) json_lib_scheme \<Rightarrow> 'r ctx \<Rightarrow> string" where
  "namespace L cx = ToString L (GetMetadataValue L cx MetadataKeyNamespace)"

definition schemaFromCtx :: "'r ctx \<Rightarrow> string \<Rightarrow> 'r schema option" where
  "schemaFromCtx cx collection = map_of (cxSchemas cx) (collection @ ''.schema'')"

definition schemaToCtx :: "'r ctx \<Rightarrow> 'r schema \<Rightarrow> 'r ctx" where
  "schemaToCtx cx schema = cx\<lparr>cxSchemas := (scCollection schema @ ''.schema'', schema) # cxSchemas cx\<rparr>"

definition SetIsInternal :: "'r ctx \<Rightarrow> 'r ctx" where
  "SetIsInternal cx = cx\<lparr>cxInternal := True\<rparr>"

lemma ctx_simps [simp]:
  "cxMeta (schemaToCtx cx s) = cxMeta cx" "cxInternal (schemaToCtx cx s) = cxInternal cx"
  "cxIndexing (schemaToCtx cx s) = cxIndexing cx"
  "cxMeta (SetIsInternal cx) = cxMeta cx" "cxIndexing (SetIsInternal cx) = cxIndexing cx"
  "cxInternal (SetIsInternal cx)" "cxSchemas (SetIsInternal cx) = cxSchemas cx"
  by (simp_all add: schemaToCtx_def SetIsInternal_def)

lemma namespace_cong: "cxMeta cx = cxMeta cy \<Longrightarrow> namespace L cx = namespace L cy"
  by (simp add: namespace_def GetMetadataValue_def)

lemma namespace_simps [simp]:
  "namespace L (schemaToCtx cx s) = namespace L cx" "namespace L (SetIsInternal cx) = namespace L cx"
  by (rule namespace_cong, simp)+

subsection \<open>Index differences\<close>

record index_diff =
  toRemove :: "index_c list"
  toAdd :: "index_c list"
  toUpdate :: "index_c list"

text \<open>
  As in the source, the update test compares the fields of the existing index with themselves.
\<close>

definition getIndexDiff :: "index_c kvs \<Rightarrow> index_c kvs \<Rightarrow> index_diff" where
  "getIndexDiff after before = \<lparr>
     toRemove = filter (\<lambda>cur. map_of after (iName cur) = None) (map snd before),
     toAdd = filter (\<lambda>idx. map_of before (iName idx) = None) (map snd after),
     toUpdate = filter (\<lambda>cur. map_of after (iName cur) \<noteq> None \<and> iFields cur \<noteq> iFields cur) (map snd before)\<rparr>"

lemma named_index_filter:
  assumes "\<forall>(k, i)\<in>set m. iName i = k"
  shows "set (filter (\<lambda>i. P (iName i)) (map snd m)) = {i. \<exists>k. (k, i) \<in> set m \<and> P k}"
proof
  show "set (filter (\<lambda>i. P (iName i)) (map snd m)) \<subseteq> {i. \<exists>k. (k, i) \<in> set m \<and> P k}"
  proof
    fix i assume "i \<in> set (filter (\<lambda>i. P (iName i)) (map snd m))"
    then obtain k where "(k, i) \<in> set m" "P (iName i)" by auto
    with assms show "i \<in> {i. \<exists>k. (k, i) \<in> set m \<and> P k}" by fastforce
  qed
  show "{i. \<exists>k. (k, i) \<in> set m \<and> P k} \<subseteq> set (filter (\<lambda>i. P (iName i)) (map snd m))"
  proof
    fix i assume "i \<in> {i. \<exists>k. (k, i) \<in> set m \<and> P k}"
    then obtain k where k: "(k, i) \<in> set m" "P k" by blast
    with assms have "iName i = k" by auto
    moreover have "i \<in> set (map snd m)" using k(1) by force
    ultimately show "i \<in> set (filter (\<lambda>i. P (iName i)) (map snd m))" using k(2) by simp
  qed
qed

text \<open>
  For maps keyed by index name the difference adds the indexes whose name is new and
  removes those whose name is gone; an index that keeps its name is never updated, even
  when its fields change.
\<close>

lemma getIndexDiff_names:
  assumes "\<forall>(k, i)\<in>set after. iName i = k" and "\<forall>(k, i)\<in>set before. iName i = k"
  shows "set (toAdd (getIndexDiff after before)) = {i. \<exists>k. (k, i) \<in> set after \<and> k \<notin> set (keys before)}
    \<and> set (toRemove (getIndexDiff after before)) = {i. \<exists>k. (k, i) \<in> set before \<and> k \<notin> set (keys after)}
    \<and> toUpdate (getIndexDiff after before) = []"
proof (intro conjI)
  have none: "map_of m k = None \<longleftrightarrow> k \<notin> set (keys m)" for m :: "index_c kvs" and k
    using map_of_keys by blast
  show "set (toAdd (getIndexDiff after before)) = {i. \<exists>k. (k, i) \<in> set after \<and> k \<notin> set (keys before)}"
    using named_index_filter [OF assms(1), of "\<lambda>n. map_of before n = None"]
    by (simp add: getIndexDiff_def none)
  show "set (toRemove (getIndexDiff after before)) = {i. \<exists>k. (k, i) \<in> set before \<and> k \<notin> set (keys after)}"
    using named_index_filter [OF assms(2), of "\<lambda>n. map_of after n = None"]
    by (simp add: getIndexDiff_def none)
  show "toUpdate (getIndexDiff after before) = []" by (simp add: getIndexDiff_def)
qed

lemma getIndexDiff_names_witness:
  "toUpdate (getIndexDiff [(''i'', no_index\<lparr>iName := ''i'', iFields := [''a'']\<rparr>)]
     [(''i'', no_index\<lparr>iName := ''i'', iFields := [''b'']\<rparr>)]) = []"
  using getIndexDiff_names [of "[(''i'', no_index\<lparr>iName := ''i'', iFields := [''a'']\<rparr>)]"
      "[(''i'', no_index\<lparr>iName := ''i'', iFields := [''b'']\<rparr>)]"]
  by simp

end
