(* ===== verification/Encoding.thy ===== *)
theory Encoding
  imports Values
begin

text \<open>
  \<open>EncodeIndexValue\<close> of \<open>util/util.go\<close>: the bytes under which a value is written into
  an index key, with \<open>binary.BigEndian.PutUint64\<close> for numbers. The locale
  \<open>ordered_encoding\<close> is what an index scan needs of an encoding: fixed width and the same
  order on bytes as on values; the big-endian encoding provides it.
\<close>

definition put_uint64 :: "64 word \<Rightarrow> bytes" where
  "put_uint64 w = map (\<lambda>i. char_of (unat (drop_bit (8 * i) w))) [7, 6, 5, 4, 3, 2, 1, 0]"

definition index_number_kinds :: "nkind list" where
  "index_number_kinds = [KInt, KInt64, KInt32, KFloat64, KFloat32, KUint64, KUint32, KUint16]"

text \<open>
  The type switch. The boolean case recurses on the string of the value, the time and the
  duration case on a number, the default case on the JSON text: each ends after one step.
\<close>

definition EncodeIndexValue :: "'z cast_lib_scheme \<Rightarrow> any \<Rightarrow> bytes" where
  "EncodeIndexValue L value = (case value of
     ANil \<Rightarrow> []
   | ABool b \<Rightarrow> ToString L (ABool b)
   | AStr s \<Rightarrow> s
   | ANum k x \<Rightarrow> (if k \<in> set index_number_kinds then put_uint64 (ToUint64 L (ANum k x))
                 else JSONString L (ANum k x))
   | ATime ns \<Rightarrow> put_uint64 (ToUint64 L (ANum KInt64 (of_int ns)))
   | ADuration ns \<Rightarrow> put_uint64 (ToUint64 L (AInt ns))
   | v \<Rightarrow> JSONString L v)"

subsection \<open>The interface of an order-preserving encoding\<close>

locale ordered_encoding =
  fixes enc :: "'a::linorder \<Rightarrow> bytes"
  assumes enc_less: "x < y \<Longrightarrow> enc x < enc y"
    and enc_width: "length (enc x) = length (enc y)"
begin

lemma enc_le_iff: "enc x \<le> enc y \<longleftrightarrow> x \<le> y"
  using enc_less by (metis leD le_less linorder_less_linear)

lemma enc_inject: "enc x = enc y \<longleftrightarrow> x = y"
  using enc_less by (metis less_irrefl linorder_less_linear)

lemma enc_append_le:
  "x \<noteq> y \<Longrightarrow> q @ enc x @ u \<le> q @ enc y @ v \<longleftrightarrow> x < y"
proof -
  assume ne: "x \<noteq> y"
  have *: "length a = length b \<Longrightarrow> a \<noteq> b \<Longrightarrow> q @ a @ u \<le> q @ b @ v \<longleftrightarrow> a \<le> b" for a b :: string and q u v
  proof (induction q)
    case Nil
    then show ?case
    proof (induction a b rule: list_induct2)
      case Nil
      then show ?case by simp
    next
      case (Cons c a d b)
      then show ?case by auto
    qed
  qed auto
  have "q @ enc x @ u \<le> q @ enc y @ v \<longleftrightarrow> enc x \<le> enc y"
    by (rule *) (use ne enc_width enc_inject in auto)
  then show ?thesis using ne enc_le_iff [of x y] le_less [of x y] by blast
qed

text \<open>
  Seeking: from the key of a bound on, exactly the entries whose value is not below the
  bound follow, whatever stands after the value in their keys.
\<close>

lemma seek_from: "q @ enc x \<le> q @ enc y @ v \<longleftrightarrow> x \<le> y"
proof (cases "x = y")
  case True
  have "prefix (q @ enc y) (q @ enc y @ v)" by simp
  then show ?thesis using prefix_imp_le True by blast
next
  case False
  then show ?thesis using enc_append_le [of x y q "[]" v] by auto
qed

lemma seek_back: "v \<noteq> [] \<Longrightarrow> q @ enc y @ v \<le> q @ enc x \<longleftrightarrow> y < x"
proof (cases "y = x")
  case True
  assume "v \<noteq> []"
  have "\<not> q @ enc x @ v \<le> q @ enc x"
  proof
    assume "q @ enc x @ v \<le> q @ enc x"
    moreover have "q @ enc x \<le> q @ enc x @ v" by (intro prefix_imp_le) simp
    ultimately have "q @ enc x @ v = q @ enc x" by simp
    with \<open>v \<noteq> []\<close> show False by simp
  qed
  then show ?thesis using True by simp
next
  case False
  then show ?thesis using enc_append_le [of y x q v "[]"] by simp
qed

end

subsection \<open>Big-endian numbers\<close>

fun be :: "nat \<Rightarrow> nat \<Rightarrow> bytes" where
  "be 0 n = []"
| "be (Suc k) n = char_of (n div 256 ^ k) # be k n"

lemma length_be [simp]: "length (be k n) = k"
  by (induction k) auto

lemma put_uint64_be: "put_uint64 w = be 8 (unat w)"
proof -
  have map: "be k n = map (\<lambda>i. char_of (n div 256 ^ i)) (rev [0..<k])" for k n
    by (induction k) auto
  have "unat (drop_bit (8 * i) w) = unat w div 256 ^ i" for i
    using unat_drop_bit_eq [of "8 * i" w] by (simp only: drop_bit_eq_div [where 'a=nat] power_mult) simp
  moreover have "rev [0..<8] = [7, 6, 5, 4, 3, 2, 1, 0]" by (simp add: upt_rec)
  ultimately show ?thesis by (simp only: put_uint64_def map)
qed

lemma be_mod: "be k (n mod 256 ^ k) = be k n"
proof -
  have "j \<le> k \<Longrightarrow> be j (n mod 256 ^ k) = be j n" for j
  proof (induction j)
    case 0
    then show ?case by simp
  next
    case (Suc j)
    have "n mod 256 ^ k div 256 ^ j = (n div 256 ^ j) mod 256 ^ (k - j)"
    proof -
      have "(256::nat) ^ k = 256 ^ j * 256 ^ (k - j)"
        using Suc.prems by (simp flip: power_add)
      then show ?thesis by (simp add: mod_mult2_eq)
    qed
    moreover have "(x mod 256 ^ (k - j)) mod 256 = x mod 256" for x :: nat
    proof -
      have "(256::nat) dvd 256 ^ (k - j)" using Suc.prems by (intro dvd_power) auto
      then show ?thesis by (rule mod_mod_cancel)
    qed
    ultimately have "char_of (n mod 256 ^ k div 256 ^ j) = (char_of (n div 256 ^ j) :: char)"
      by (metis char_of_mod_256)
    then show ?case using Suc by simp
  qed
  then show ?thesis by simp
qed

lemma be_less: "m < n \<Longrightarrow> n < 256 ^ k \<Longrightarrow> be k m < be k n"
proof (induction k arbitrary: m n)
  case 0
  then show ?case by simp
next
  case (Suc k)
  let ?q = "(256::nat) ^ k"
  have pos: "0 < ?q" by simp
  have m256: "m div ?q < 256" and n256: "n div ?q < 256"
    using Suc.prems by (auto simp: less_mult_imp_div_less mult.commute)
  have le: "m div ?q \<le> n div ?q" using Suc.prems by (intro div_le_mono) simp
  show ?case
  proof (cases "m div ?q = n div ?q")
    case True
    then have "m mod ?q < n mod ?q"
      using Suc.prems(1) by (metis div_mult_mod_eq nat_add_left_cancel_less)
    then have "be k (m mod ?q) < be k (n mod ?q)" using pos by (intro Suc.IH) auto
    then show ?thesis by (simp add: True be_mod)
  next
    case False
    then have "m div ?q < n div ?q" using le by simp
    then have "(char_of (m div ?q) :: char) < char_of (n div ?q)"
      using m256 n256 by (simp add: less_char_def)
    then show ?thesis by simp
  qed
qed

interpretation uint64_key: ordered_encoding put_uint64
proof
  show "put_uint64 x < put_uint64 y" if "x < y" for x y
  proof -
    have "unat x < unat y" using that by (simp add: word_less_nat_alt)
    moreover have "unat y < 256 ^ 8" using unsigned_less [of y] by simp
    ultimately show ?thesis unfolding put_uint64_be by (rule be_less)
  qed
  show "length (put_uint64 x) = length (put_uint64 y)" for x y
    by (simp add: put_uint64_be)
qed

text \<open>
  Index keys of non-negative numbers sort like the numbers: below a common path the
  entries from the encoded bound on are those of the numbers from the bound on, whatever
  follows the value in their keys. Numbers of every kind that the switch lists are meant.
\<close>

lemma EncodeIndexValue_seek:
  assumes "cast_laws L" and "k \<in> set index_number_kinds" and "l \<in> set index_number_kinds"
    and "m < 2 ^ 64" and "n < 2 ^ 64"
  shows "path @ EncodeIndexValue L (ANum k (of_nat m)) \<le> path @ EncodeIndexValue L (ANum l (of_nat n)) @ rest
    \<longleftrightarrow> m \<le> n"
proof -
  have "(of_nat m :: 64 word) \<le> of_nat n \<longleftrightarrow> m \<le> n"
    using assms(4,5) by (simp add: word_le_nat_alt unsigned_of_nat take_bit_nat_eq_self)
  then show ?thesis
    using assms by (simp add: EncodeIndexValue_def uint64_key.seek_from)
qed

lemma EncodeIndexValue_seek_witness:
  "''p'' @ EncodeIndexValue simple_cast (AInt 3) \<le> ''p'' @ EncodeIndexValue simple_cast (AFloat 200) @ ''x''"
proof -
  have "''p'' @ EncodeIndexValue simple_cast (ANum KInt (of_nat 3))
      \<le> ''p'' @ EncodeIndexValue simple_cast (ANum KFloat64 (of_nat 200)) @ ''x'' \<longleftrightarrow> (3::nat) \<le> 200"
    by (rule EncodeIndexValue_seek [OF simple_cast_laws]) (auto simp: index_number_kinds_def)
  then show ?thesis by simp
qed

end
