(* ===== verification/DocumentLaws.thy ===== *)
theory DocumentLaws
  imports Document
begin

text \<open>
  Properties of the documents of \<open>document.go\<close>: what \<open>Where\<close> decides, and how \<open>Diff\<close>,
  \<open>ApplyOps\<close> and \<open>RevertOps\<close> relate two versions of a document. \<open>flat_json\<close> is the
  instance of the JSON parameters used in witnesses: documents without nesting.
\<close>

subsection \<open>An instance of the parameters\<close>

definition flat_json :: "any kvs json_lib" where
  "flat_json = \<lparr>
     ToString = plain_string,
     ToFloat64 = (\<lambda>v. case v of ANum k x \<Rightarrow> x | _ \<Rightarrow> 0),
     ToBool = (\<lambda>v. case v of ABool b \<Rightarrow> b | _ \<Rightarrow> False),
     ToUint64 = (\<lambda>v. case v of ANum k x \<Rightarrow> (if x < 0 then 0 else word_of_int (floor x)) | _ \<Rightarrow> 0),
     ToStringSlice = (\<lambda>v. case v of ASlice vs \<Rightarrow> map plain_string vs | AStr s \<Rightarrow> [s] | _ \<Rightarrow> []),
     JSONString = plain_json,
     ToTime = (\<lambda>v. case v of ATime t \<Rightarrow> t | _ \<Rightarrow> 0),
     gjValid = (\<lambda>d. True),
     gjIsArray = (\<lambda>d. False),
     gjGet = map_of,
     gjValue = AMap,
     gjPath = (\<lambda>d ks. JoinStr ''.'' ks),
     gjElements = (\<lambda>v. case v of ASlice vs \<Rightarrow> vs | ANil \<Rightarrow> [] | v \<Rightarrow> [v]),
     emptyJSON = [],
     sjSet = (\<lambda>d k v. Inr (AList.update k v d)),
     sjSetRaw = (\<lambda>d k b. Inr (AList.update k (AStr b) d)),
     sjDelete = (\<lambda>d k. Inr (AList.delete k d)),
     ToStringMap = (\<lambda>v. case v of AMap m \<Rightarrow> m | _ \<Rightarrow> []),
     Flatten = Inr,
     MarshalMap = Inr,
     RegexpMatch = (\<lambda>r s. ContainsStr s r),
     BytesOf = (\<lambda>s. [([], AStr s)])\<rparr>"

lemma flat_json_cast: "cast_laws flat_json"
  by (auto simp: cast_laws_def flat_json_def)

lemma flat_json_laws: "json_laws flat_json (\<lambda>_. True) P"
  by (auto simp: json_laws_def flat_json_def update_conv' delete_conv')

subsection \<open>Where\<close>

text \<open>
  The value a clause compares with: the clause's own value, or, when its text starts with
  the self-reference mark, the value of the field of the same document that it names.
\<close>

definition operand :: "('r, 'z) json_lib_scheme \<Rightarrow> 'r \<Rightarrow> where_c \<Rightarrow> any" where
  "operand L d w = (if HasPrefix (ToString L (wValue w)) selfRefPrefix
     then doc_get L d (TrimPrefix (ToString L (wValue w)) selfRefPrefix) else wValue w)"

definition clause_spec :: "('r, 'z) json_lib_scheme \<Rightarrow> 'r \<Rightarrow> where_c \<Rightarrow> bool" where
  "clause_spec L d w =
     (let v = doc_get L d (wField w); x = operand L d w; s = ToString L (wValue w)
      in case wOp w of
        WEq \<Rightarrow> v = x \<and> wValue w \<noteq> null_text
      | WNeq \<Rightarrow> v \<noteq> x \<and> (wValue w = null_text \<longrightarrow> v \<noteq> ANil)
      | WLt \<Rightarrow> ToFloat64 L v < ToFloat64 L x
      | WLte \<Rightarrow> ToFloat64 L v \<le> ToFloat64 L x
      | WGt \<Rightarrow> ToFloat64 L x < ToFloat64 L v
      | WGte \<Rightarrow> ToFloat64 L x \<le> ToFloat64 L v
      | WIn \<Rightarrow> v \<in> set (gjElements L (wValue w))
      | WContains \<Rightarrow> (case v of AStr t \<Rightarrow> ContainsStr t s
                     | _ \<Rightarrow> ContainsStr (JSONString L v) (JSONString L (wValue w)))
      | WContainsAll \<Rightarrow> set (ToStringSlice L (wValue w)) \<subseteq> set (ToStringSlice L v)
      | WHasPrefix \<Rightarrow> prefix s (ToString L v)
      | WHasSuffix \<Rightarrow> suffix s (ToString L v)
      | WRegex \<Rightarrow> RegexpMatch L s (ToString L v)
      | _ \<Rightarrow> False)"

text \<open>
  The clauses whose evaluation neither panics nor fails: the operator is supported, and an
  equality test meets at least one comparable side (a scalar, not an array or an object).
\<close>

definition clause_safe :: "('r, 'z) json_lib_scheme \<Rightarrow> 'r \<Rightarrow> where_c \<Rightarrow> bool" where
  "clause_safe L d w \<longleftrightarrow>
     wOp w \<noteq> WContainsAny \<and> (\<forall>s. wOp w \<noteq> WOther s) \<and>
     (wOp w = WEq \<or> wOp w = WNeq \<longrightarrow> comparable (doc_get L d (wField w)) \<or> comparable (operand L d w)) \<and>
     (wOp w = WIn \<longrightarrow> comparable (doc_get L d (wField w)))"

lemma any_equal_comparable:
  "comparable v \<Longrightarrow> any_equal es v b = Inr (b \<or> v \<in> set es)"
  by (induction es arbitrary: b) (auto simp: iface_eq_comparable)

lemma null_text_not_self: "cast_laws L \<Longrightarrow> wValue w = null_text \<Longrightarrow> operand L d w = null_text"
  by (simp add: operand_def null_text_def HasPrefix_def selfRefPrefix_def)

lemma null_text_comparable: "iface_eq v null_text = Inr (v = null_text)"
  by (simp add: iface_eq_comparable null_text_def)

lemma or_else_Inr: "or_else (Inr a) (Inr b) = Inr (a \<or> b)"
  by (simp add: or_else_def)

lemma eq_rejects_spec:
  assumes "cast_laws L" "comparable (doc_get L d (wField w)) \<or> comparable (operand L d w)"
  shows "eq_rejects L d w = Inr (\<not> (doc_get L d (wField w) = operand L d w \<and> wValue w \<noteq> null_text))"
proof (cases "HasPrefix (ToString L (wValue w)) selfRefPrefix")
  case True
  then have op: "operand L d w = doc_get L d (TrimPrefix (ToString L (wValue w)) selfRefPrefix)"
    by (simp add: operand_def)
  have "wValue w \<noteq> null_text"
    using True assms(1) by (auto simp: null_text_def HasPrefix_def selfRefPrefix_def)
  then show ?thesis
    using True assms(2)
    by (simp add: eq_rejects_def Let_def iface_neq_comparable null_text_comparable or_else_Inr flip: op)
next
  case False
  then have op: "operand L d w = wValue w" by (simp add: operand_def)
  have "wValue w = null_text \<Longrightarrow> doc_get L d (wField w) = wValue w \<Longrightarrow> doc_get L d (wField w) \<noteq> ANil"
    by (simp add: null_text_def)
  then show ?thesis
    using False assms(2)
    by (auto simp: eq_rejects_def iface_neq_comparable null_text_comparable or_else_Inr op)
qed

lemma neq_rejects_spec:
  assumes "cast_laws L" "comparable (doc_get L d (wField w)) \<or> comparable (operand L d w)"
  shows "neq_rejects L d w = Inr (\<not> (doc_get L d (wField w) \<noteq> operand L d w \<and>
           (wValue w = null_text \<longrightarrow> doc_get L d (wField w) \<noteq> ANil)))"
proof (cases "HasPrefix (ToString L (wValue w)) selfRefPrefix")
  case True
  then have op: "operand L d w = doc_get L d (TrimPrefix (ToString L (wValue w)) selfRefPrefix)"
    by (simp add: operand_def)
  have "wValue w \<noteq> null_text"
    using True assms(1) by (auto simp: null_text_def HasPrefix_def selfRefPrefix_def)
  then show ?thesis
    using True assms(2)
    by (simp add: neq_rejects_def Let_def iface_eq_comparable null_text_comparable or_else_Inr flip: op)
next
  case False
  then have op: "operand L d w = wValue w" by (simp add: operand_def)
  show ?thesis
    using False assms(2)
    by (auto simp: neq_rejects_def iface_eq_comparable null_text_comparable or_else_Inr op)
qed

lemma reject_if_Inr [simp]: "reject_if (Inr b) = Inr (if b then Reject else Continue)"
  by (simp add: reject_if_def)

lemma where_clause_WEq: "wOp w = WEq \<Longrightarrow> where_clause L d w = reject_if (eq_rejects L d w)"
  by (simp add: where_clause_def Let_def)

lemma where_clause_WNeq: "wOp w = WNeq \<Longrightarrow> where_clause L d w = reject_if (neq_rejects L d w)"
  by (simp add: where_clause_def Let_def)

lemma where_clause_spec:
  assumes "cast_laws L" "clause_safe L d w"
  shows "where_clause L d w = Inr (if clause_spec L d w then Continue else Reject)"
proof (cases "wOp w")
  case WEq
  with assms show ?thesis
    by (simp add: where_clause_WEq eq_rejects_spec clause_safe_def clause_spec_def)
next
  case WNeq
  with assms show ?thesis
    by (simp add: where_clause_WNeq neq_rejects_spec clause_safe_def clause_spec_def)
next
  case WIn
  with assms(2) have "comparable (doc_get L d (wField w))" by (simp add: clause_safe_def)
  with WIn show ?thesis
    by (simp add: where_clause_def clause_spec_def Let_def reject_if_def any_equal_comparable)
next
  case WContains
  then show ?thesis
    by (simp add: where_clause_def clause_spec_def Let_def reject_if_def split: any.splits)
next
  case WContainsAll
  then show ?thesis
    by (auto simp: where_clause_def clause_spec_def Let_def reject_if_def list_all_iff)
qed (use assms in \<open>auto simp: where_clause_def clause_spec_def clause_safe_def Let_def reject_if_def
      operand_def GetFloat_def GetString_def HasPrefix_def HasSuffix_def\<close>)

text \<open>
  C39: on safe clauses \<open>Where\<close> is the conjunction of the clauses: a document passes exactly if
  every clause holds of it, in whatever order they stand.
\<close>

theorem doc_where_conjunction:
  assumes "cast_laws L" and "\<forall>w\<in>set ws. clause_safe L d w"
  shows "doc_where L d ws = Inr (\<forall>w\<in>set ws. clause_spec L d w)"
  using assms(2) by (induction ws) (auto simp: where_clause_spec [OF assms(1)])

theorem doc_where_conjunction_witness:
  "doc_where flat_json [(''age'', AFloat 3), (''name'', AStr ''bo'')]
     [\<lparr>wField = ''age'', wOp = WGte, wValue = AInt 2\<rparr>, \<lparr>wField = ''name'', wOp = WEq, wValue = AStr ''bo''\<rparr>] = Inr True"
  by (subst doc_where_conjunction [OF flat_json_cast])
    (simp_all add: clause_safe_def clause_spec_def doc_get_def operand_def flat_json_def
      HasPrefix_def selfRefPrefix_def null_text_def)

text \<open>
  A \<open>containsAny\<close> clause never rejects a document, and when it holds it ends the loop: the
  clauses after it are not looked at.
\<close>

lemma containsAny_accepts:
  "doc_where L d (w\<lparr>wOp := WContainsAny\<rparr> # ws) =
     (if set (ToStringSlice L (doc_get L d (wField w))) \<inter> set (ToStringSlice L (wValue w)) \<noteq> {}
      then Inr True else doc_where L d ws)"
  by (auto simp: where_clause_def Let_def list_ex_iff)

text \<open>
  Equality with the text \<open>null\<close> matches no document: not one whose field is absent or
  null (the values differ), and not one whose field is that very text (the second test
  rejects it).
\<close>

lemma eq_null_never_matches:
  assumes "cast_laws L"
  shows "doc_where L d (\<lparr>wField = f, wOp = WEq, wValue = null_text\<rparr> # ws) = Inr False"
proof -
  have "operand L d \<lparr>wField = f, wOp = WEq, wValue = null_text\<rparr> = null_text"
    using assms by (intro null_text_not_self) simp_all
  then have "where_clause L d \<lparr>wField = f, wOp = WEq, wValue = null_text\<rparr> = Inr Reject"
    using assms by (simp add: where_clause_WEq eq_rejects_spec null_text_def)
  then show ?thesis by simp
qed

lemma eq_null_never_matches_witness:
  "doc_where flat_json [(''a'', AStr ''null'')] [\<lparr>wField = ''a'', wOp = WEq, wValue = null_text\<rparr>] = Inr False"
  by (rule eq_null_never_matches [OF flat_json_cast])

subsection \<open>Diff, apply and revert\<close>

text \<open>Two readings of a path agree: both absent, or present with deeply equal values.\<close>

definition same_value :: "any option \<Rightarrow> any option \<Rightarrow> bool" where
  "same_value a b \<longleftrightarrow> map_option canon a = map_option canon b"

text \<open>
  A document to which the laws of the JSON parameters apply: its field paths are different
  paths of \<open>P\<close>, they are the paths of \<open>P\<close> that read as present (so no path of \<open>P\<close> reads as an
  inner object), and what they read are JSON values.
\<close>

definition doc_ok :: "('r, 'z) json_lib_scheme \<Rightarrow> string set \<Rightarrow> 'r \<Rightarrow> bool" where
  "doc_ok L P d \<longleftrightarrow>
     distinct (FieldPaths L d) \<and> set (FieldPaths L d) \<subseteq> P \<and>
     (\<forall>p\<in>P. gjGet L d p \<noteq> None \<longleftrightarrow> p \<in> set (FieldPaths L d)) \<and>
     (\<forall>p\<in>P. \<forall>v. gjGet L d p = Some v \<longrightarrow> json_value v)"

lemma doc_ok_paths: "doc_ok L P d \<Longrightarrow> p \<in> set (FieldPaths L d) \<Longrightarrow> p \<in> P"
  by (auto simp: doc_ok_def)

lemma doc_ok_iff: "doc_ok L P d \<Longrightarrow> p \<in> P \<Longrightarrow> p \<in> set (FieldPaths L d) \<longleftrightarrow> gjGet L d p \<noteq> None"
  by (auto simp: doc_ok_def)

lemma doc_get_json_value: "doc_ok L P d \<Longrightarrow> p \<in> P \<Longrightarrow> json_value (doc_get L d p)"
  by (auto simp: doc_ok_def doc_get_def split: option.splits)

definition op_ok :: "string set \<Rightarrow> field_op \<Rightarrow> bool" where
  "op_ok P op \<longleftrightarrow> foPath op \<in> P \<and> foOp op \<in> {JSONOpRemove, JSONOpAdd, JSONOpReplace} \<and>
     json_value (foValue op) \<and> json_value (foBefore op)"

definition op_at :: "field_op list \<Rightarrow> string \<Rightarrow> field_op option" where
  "op_at ops p = find (\<lambda>op. foPath op = p) ops"

lemma op_at_simps [simp]:
  "op_at [] p = None"
  "op_at (op # ops) p = (if foPath op = p then Some op else op_at ops p)"
  by (simp_all add: op_at_def)

lemma op_at_None: "p \<notin> foPath ` set ops \<Longrightarrow> op_at ops p = None"
  by (induction ops) auto

lemma op_at_append: "op_at (xs @ ys) p = (case op_at xs p of Some op \<Rightarrow> Some op | None \<Rightarrow> op_at ys p)"
  by (induction xs) auto

lemma op_at_keyed:
  assumes "\<And>x op. op \<in> set (f x) \<Longrightarrow> foPath op = x"
  shows "op_at (concat (map f xs)) p = (if p \<in> set xs then op_at (f p) p else None)"
proof (induction xs)
  case Nil
  then show ?case by simp
next
  case (Cons x xs)
  show ?case
  proof (cases "x = p")
    case True
    with Cons show ?thesis by (auto simp: op_at_append split: option.splits)
  next
    case False
    then have "op_at (f x) p = None" using assms by (intro op_at_None) auto
    with Cons False show ?thesis by (simp add: op_at_append)
  qed
qed

text \<open>What a list of operations on different paths does to each path, by induction over the list.\<close>

lemma ApplyOps_at:
  assumes "json_laws L R P" "R d" "list_all (op_ok P) ops" "distinct (map foPath ops)"
  shows "\<exists>d'. ApplyOps L ops d = Inr d' \<and> (\<forall>p\<in>P. gjGet L d' p = (case op_at ops p of
      None \<Rightarrow> gjGet L d p
    | Some op \<Rightarrow> if foOp op = JSONOpRemove then None else Some (foValue op)))"
  using assms(2-)
proof (induction ops arbitrary: d)
  case Nil
  then show ?case by (simp add: ApplyOps_def)
next
  case (Cons op ops)
  have ok: "foPath op \<in> P" "json_value (foValue op)" using Cons.prems by (auto simp: op_ok_def)
  have "\<exists>d1. apply_op L op d = Inr d1 \<and> R d1 \<and> (\<forall>q\<in>P. gjGet L d1 q = (if q = foPath op
      then (if foOp op = JSONOpRemove then None else Some (foValue op)) else gjGet L d q))"
  proof (cases "foOp op = JSONOpRemove")
    case True
    obtain d1 where "sjDelete L d (foPath op) = Inr d1" "R d1"
      "\<And>q. q \<in> P \<Longrightarrow> gjGet L d1 q = (if q = foPath op then None else gjGet L d q)"
      using json_laws_delete [OF assms(1) Cons.prems(1) ok(1)] by blast
    with True show ?thesis by (simp add: apply_op_def DelAll_def)
  next
    case False
    then have "apply_op L op d = lift_err (sjSet L d (foPath op) (foValue op))"
      using Cons.prems(2) ok by (auto simp: apply_op_def op_ok_def doc_set_json_value)
    then show ?thesis
      using False json_laws_set [OF assms(1) Cons.prems(1) ok] by (metis lift_err_Inr)
  qed
  then obtain d1 where d1: "apply_op L op d = Inr d1" "R d1"
    "\<forall>q\<in>P. gjGet L d1 q = (if q = foPath op
      then (if foOp op = JSONOpRemove then None else Some (foValue op)) else gjGet L d q)" by blast
  have "foPath op \<notin> foPath ` set ops" using Cons.prems by simp
  then have "op_at ops (foPath op) = None" by (rule op_at_None)
  with Cons.IH [OF d1(2)] Cons.prems(2,3) d1 show ?case
    by (fastforce simp: ApplyOps_def split: option.splits if_splits)
qed

lemma RevertOps_at:
  assumes "json_laws L R P" "R d" "list_all (op_ok P) ops" "distinct (map foPath ops)"
  shows "\<exists>d'. RevertOps L ops d = Inr d' \<and> R d' \<and> (\<forall>p\<in>P. gjGet L d' p = (case op_at ops p of
      None \<Rightarrow> gjGet L d p
    | Some op \<Rightarrow> if foBefore op = ANil then gjGet L d p else Some (foBefore op)))"
  using assms(2-)
proof (induction ops arbitrary: d)
  case Nil
  then show ?case by (simp add: RevertOps_def)
next
  case (Cons op ops)
  have ok: "foPath op \<in> P" "json_value (foBefore op)" using Cons.prems by (auto simp: op_ok_def)
  have "\<exists>d1. revert_op L op d = Inr d1 \<and> R d1 \<and> (\<forall>q\<in>P. gjGet L d1 q =
      (if q = foPath op \<and> foBefore op \<noteq> ANil then Some (foBefore op) else gjGet L d q))"
  proof (cases "foBefore op = ANil")
    case True
    then show ?thesis using Cons.prems(1) by (simp add: revert_op_def)
  next
    case False
    then have "revert_op L op d = lift_err (sjSet L d (foPath op) (foBefore op))"
      using ok by (simp add: revert_op_def doc_set_json_value)
    then show ?thesis
      using False json_laws_set [OF assms(1) Cons.prems(1) ok] by (metis lift_err_Inr)
  qed
  then obtain d1 where d1: "revert_op L op d = Inr d1" "R d1" "\<forall>q\<in>P. gjGet L d1 q =
      (if q = foPath op \<and> foBefore op \<noteq> ANil then Some (foBefore op) else gjGet L d q)" by blast
  have "foPath op \<notin> foPath ` set ops" using Cons.prems by simp
  then have "op_at ops (foPath op) = None" by (rule op_at_None)
  with Cons.IH [OF d1(2)] Cons.prems(2,3) d1 show ?case
    by (fastforce simp: RevertOps_def split: option.splits if_splits)
qed

text \<open>The operations of a difference: each path once, and which operation stands at a path.\<close>

lemma before_op_path: "op \<in> set (before_op L d b p) \<Longrightarrow> foPath op = p"
  by (auto simp: before_op_def split: if_splits)

lemma after_op_path: "op \<in> set (after_op L d b p) \<Longrightarrow> foPath op = p"
  by (auto simp: after_op_def split: if_splits)

lemma before_op_single: "map foPath (before_op L d b p) = [] \<or> map foPath (before_op L d b p) = [p]"
  by (simp add: before_op_def)

lemma after_op_single: "map foPath (after_op L d b p) = [] \<or> map foPath (after_op L d b p) = [p]"
  by (simp add: after_op_def)

lemma distinct_keyed:
  assumes "distinct xs" "\<And>x. map foPath (f x) = [] \<or> map foPath (f x) = [x]"
  shows "distinct (map foPath (concat (map f xs)))"
proof -
  have *: "set (map foPath (concat (map f ys))) \<subseteq> set ys" for ys
  proof (induction ys)
    case (Cons y ys)
    then show ?case using assms(2) [of y] by auto
  qed simp
  show ?thesis using assms(1)
  proof (induction xs)
    case (Cons x xs)
    have "x \<notin> set (map foPath (concat (map f xs)))" using * [of xs] Cons.prems by auto
    moreover have "distinct (map foPath (f x))" "set (map foPath (f x)) \<subseteq> {x}"
      using assms(2) [of x] by (auto simp del: set_map)
    moreover have "distinct (map foPath (concat (map f xs)))" using Cons by simp
    ultimately show ?case by (auto simp del: map_concat)
  qed simp
qed

lemma before_op_ok:
  "doc_ok L P d \<Longrightarrow> doc_ok L P b \<Longrightarrow> p \<in> P \<Longrightarrow> list_all (op_ok P) (before_op L d b p)"
  by (simp add: before_op_def op_ok_def doc_get_json_value)

lemma after_op_ok:
  "doc_ok L P d \<Longrightarrow> p \<in> P \<Longrightarrow> list_all (op_ok P) (after_op L d b p)"
  by (simp add: after_op_def op_ok_def doc_get_json_value)

lemma before_op_at:
  assumes "gjGet L b p = Some y"
  shows "op_at (before_op L d b p) p = (case gjGet L d p of
      None \<Rightarrow> Some \<lparr>foPath = p, foOp = JSONOpRemove, foValue = ANil, foBefore = y\<rparr>
    | Some x \<Rightarrow> if canon x = canon y then None
        else Some \<lparr>foPath = p, foOp = JSONOpReplace, foValue = x, foBefore = y\<rparr>)"
  using assms
  by (simp add: before_op_def doc_exists_def doc_get_def DeepEqual_def split: option.splits)

lemma after_op_at:
  assumes "gjGet L d p = Some x"
  shows "op_at (after_op L d b p) p = (case gjGet L b p of
      None \<Rightarrow> Some \<lparr>foPath = p, foOp = JSONOpAdd, foValue = x, foBefore = ANil\<rparr>
    | Some y \<Rightarrow> None)"
  using assms
  by (simp add: after_op_def doc_exists_def doc_get_def split: option.splits)

lemma Diff_ops:
  assumes "doc_ok L P d" "doc_ok L P b" "b \<noteq> d"
  shows "list_all (op_ok P) (Diff L d (Some b))" and "distinct (map foPath (Diff L d (Some b)))"
    and "op_at (Diff L d (Some b)) p =
      (if p \<in> set (FieldPaths L b) then op_at (before_op L d b p) p
       else if p \<in> set (FieldPaths L d) then op_at (after_op L d b p) p else None)"
proof -
  let ?B = "concat (map (before_op L d b) (FieldPaths L b))"
  let ?A = "concat (map (after_op L d b) (FieldPaths L d))"
  have D: "Diff L d (Some b) = ?B @ ?A" using assms(3) by (simp add: Diff_def)
  have sub: "set (FieldPaths L b) \<subseteq> P" "set (FieldPaths L d) \<subseteq> P"
    using assms(1,2) by (auto simp: doc_ok_def)
  have "list_all (op_ok P) ?B"
    using before_op_ok [OF assms(1,2)] sub(1) by (fastforce simp: list_all_iff)
  moreover have "list_all (op_ok P) ?A"
    using after_op_ok [OF assms(1)] sub(2) by (fastforce simp: list_all_iff)
  ultimately show "list_all (op_ok P) (Diff L d (Some b))"
    unfolding D by simp
  have A: "set (map foPath ?A) \<inter> set (FieldPaths L b) = {}"
  proof -
    have "doc_exists L b q" if "q \<in> set (FieldPaths L b)" for q
      using doc_ok_paths [OF assms(2) that] doc_ok_iff [OF assms(2)] that by (simp add: doc_exists_def)
    then show ?thesis by (auto simp: after_op_def split: if_splits)
  qed
  have B: "set (map foPath ?B) \<subseteq> set (FieldPaths L b)"
    by (auto dest: before_op_path)
  have "distinct (FieldPaths L b)" "distinct (FieldPaths L d)"
    using assms(1,2) by (simp_all add: doc_ok_def)
  then have "distinct (map foPath ?B)" "distinct (map foPath ?A)"
    by (auto intro!: distinct_keyed before_op_single after_op_single simp del: map_concat map_is_Nil_conv)
  with A B show "distinct (map foPath (Diff L d (Some b)))"
    unfolding D by auto
  have "op_at ?A p = None" if "p \<in> set (FieldPaths L b)"
    using that A by (intro op_at_None) auto
  moreover have "op_at ?B p = (if p \<in> set (FieldPaths L b) then op_at (before_op L d b p) p else None)"
    by (rule op_at_keyed) (rule before_op_path)
  moreover have "op_at ?A p = (if p \<in> set (FieldPaths L d) then op_at (after_op L d b p) p else None)"
    by (rule op_at_keyed) (rule after_op_path)
  ultimately show "op_at (Diff L d (Some b)) p =
      (if p \<in> set (FieldPaths L b) then op_at (before_op L d b p) p
       else if p \<in> set (FieldPaths L d) then op_at (after_op L d b p) p else None)"
    unfolding D op_at_append by (auto split: option.splits)
qed

lemma same_value_refl [simp]: "same_value a a"
  by (simp add: same_value_def)


text \<open>Two flat versions of a document, for the witnesses: one field changed, one removed, one added.\<close>

definition version1 :: "any kvs" where
  "version1 = [(''a'', AFloat 1), (''b'', AStr ''x'')]"

definition version2 :: "any kvs" where
  "version2 = [(''a'', AFloat 2), (''c'', AStr ''y'')]"

lemma versions_ok:
  "doc_ok flat_json {''a'', ''b'', ''c''} version1" "doc_ok flat_json {''a'', ''b'', ''c''} version2"
  by (simp_all add: doc_ok_def FieldPaths_def version1_def version2_def flat_json_def)


text \<open>
  Reverting the difference of two versions on a document that agrees with the newer one where
  that is not null: it then agrees with the older one where that is not null.
\<close>

definition shows_version :: "('r, 'z) json_lib_scheme \<Rightarrow> 'r \<Rightarrow> 'r \<Rightarrow> bool" where
  "shows_version L v d \<longleftrightarrow> (\<forall>p\<in>set (FieldPaths L v). doc_get L v p \<noteq> ANil \<longrightarrow> same_value (gjGet L d p) (gjGet L v p))"

lemma shows_version_refl: "shows_version L v v"
  by (simp add: shows_version_def)

lemma RevertOps_version:
  assumes J: "json_laws L R P" "R d" and ok: "doc_ok L P v" "doc_ok L P b" and d: "shows_version L v d"
  shows "\<exists>d'. RevertOps L (Diff L v (Some b)) d = Inr d' \<and> R d' \<and> shows_version L b d'"
proof (cases "b = v")
  case True
  then show ?thesis using J(2) d by (simp add: Diff_def RevertOps_def)
next
  case False
  note ops = Diff_ops [OF ok False]
  obtain d' where d': "RevertOps L (Diff L v (Some b)) d = Inr d'" "R d'"
    "\<forall>p\<in>P. gjGet L d' p = (case op_at (Diff L v (Some b)) p of None \<Rightarrow> gjGet L d p
      | Some op \<Rightarrow> if foBefore op = ANil then gjGet L d p else Some (foBefore op))"
    using RevertOps_at [OF J ops(1,2)] by blast
  have "same_value (gjGet L d' p) (gjGet L b p)"
    if p: "p \<in> set (FieldPaths L b)" "doc_get L b p \<noteq> ANil" for p
  proof -
    have pP: "p \<in> P" using doc_ok_paths [OF ok(2) p(1)] .
    with p(1) doc_ok_iff [OF ok(2) pP] obtain y where y: "gjGet L b p = Some y" by auto
    with p(2) have "y \<noteq> ANil" by (simp add: doc_get_def)
    have get: "gjGet L d' p = (case op_at (before_op L v b p) p of None \<Rightarrow> gjGet L d p
      | Some op \<Rightarrow> if foBefore op = ANil then gjGet L d p else Some (foBefore op))"
      using d'(3) pP p(1) by (simp add: ops(3))
    show ?thesis
    proof (cases "gjGet L v p")
      case None
      with get y \<open>y \<noteq> ANil\<close> show ?thesis by (simp add: before_op_at [OF y] same_value_def)
    next
      case (Some x)
      have "canon x \<noteq> canon y \<or> same_value (gjGet L d p) (gjGet L v p)"
      proof (cases "x = ANil")
        case True
        then have "canon x \<noteq> canon y" using \<open>y \<noteq> ANil\<close> by (cases y) auto
        then show ?thesis ..
      next
        case False
        then show ?thesis using d Some doc_ok_iff [OF ok(1) pP] by (auto simp: shows_version_def doc_get_def)
      qed
      with get y Some \<open>y \<noteq> ANil\<close> show ?thesis by (auto simp: before_op_at [OF y] same_value_def)
    qed
  qed
  then show ?thesis using d' by (auto simp: shows_version_def)
qed



end
