(* ===== verification/Indexing.thy ===== *)
theory Indexing
  imports Schema Encoding DocumentLaws
begin

text \<open>
  \<open>indexing.go\<close>: the byte paths under which documents and index entries are stored.
  A path is the namespace, the word \<open>index\<close>, the collection and the index name, then
  for every index field with a value the field and its encoded value, then the document id,
  all joined with a zero byte.
\<close>

record index_path =
  ipPrefix :: "bytes list"
  ipSeek :: any
  ipFields :: "bytes list"
  ipFieldMap :: "any kvs"

definition ip_Append :: "'z cast_lib_scheme \<Rightarrow> string \<Rightarrow> any \<Rightarrow> index_path \<Rightarrow> index_path" where
  "ip_Append L field val i = \<lparr>ipPrefix = ipPrefix i, ipSeek = ANil,
     ipFields = ipFields i @ [field, EncodeIndexValue L val],
     ipFieldMap = ipFieldMap i @ [(field, val)]\<rparr>"

definition ip_Seek :: "any \<Rightarrow> index_path \<Rightarrow> index_path" where
  "ip_Seek val i = i\<lparr>ipSeek := val\<rparr>"

definition ip_Path :: "'z cast_lib_scheme \<Rightarrow> index_path \<Rightarrow> bytes" where
  "ip_Path L i = join0 (ipPrefix i @ ipFields i @ (if ipSeek i \<noteq> ANil then [EncodeIndexValue L (ipSeek i)] else []))"

definition flat_fields :: "('r, 'z) json_lib_scheme \<Rightarrow> any kvs \<Rightarrow> any kvs" where
  "flat_fields L fs = (case Flatten L fs of Inr m \<Rightarrow> m | Inl e \<Rightarrow> [])"

fun append_fields :: "'z cast_lib_scheme \<Rightarrow> any kvs \<Rightarrow> string list \<Rightarrow> index_path \<Rightarrow> index_path" where
  "append_fields L fs [] i = i"
| "append_fields L fs (k # ks) i =
     append_fields L fs ks (case map_of fs k of Some v \<Rightarrow> ip_Append L k v i | None \<Rightarrow> i)"

definition seekPrefix :: "('r, 'z) json_lib_scheme \<Rightarrow> string \<Rightarrow> string \<Rightarrow> index_c \<Rightarrow> any kvs \<Rightarrow> index_path" where
  "seekPrefix L ns collection i fs =
     append_fields L (flat_fields L fs) (iFields i)
       \<lparr>ipPrefix = [ns, ''index'', collection, iName i], ipSeek = ANil, ipFields = [], ipFieldMap = []\<rparr>"

definition indexPrefix :: "string \<Rightarrow> string \<Rightarrow> string \<Rightarrow> bytes" where
  "indexPrefix ns collection index = join0 [ns, ''index'', collection, index]"

definition collectionPrefix :: "string \<Rightarrow> string \<Rightarrow> bytes" where
  "collectionPrefix ns collection = join0 [ns, ''index'', collection]"

text \<open>
  The two paths the program writes: where an entry of document \<open>docID\<close> is stored, and the
  prefix that a scan for given field values starts from.
\<close>

definition entry_key :: "('r, 'z) json_lib_scheme \<Rightarrow> string \<Rightarrow> string \<Rightarrow> index_c \<Rightarrow> any kvs \<Rightarrow> string \<Rightarrow> bytes" where
  "entry_key L ns collection i fs docID = ip_Path L (ip_Seek (AStr docID) (seekPrefix L ns collection i fs))"

definition scan_key :: "('r, 'z) json_lib_scheme \<Rightarrow> string \<Rightarrow> string \<Rightarrow> index_c \<Rightarrow> any kvs \<Rightarrow> bytes" where
  "scan_key L ns collection i fs = ip_Path L (seekPrefix L ns collection i fs)"

text \<open>The id is read back as the last segment of a key (\<open>bytes.Split\<close> at the zero byte).\<close>

definition key_docID :: "bytes \<Rightarrow> string" where
  "key_docID k = last (split0 k)"

subsection \<open>Paths in closed form\<close>

definition field_segments :: "'z cast_lib_scheme \<Rightarrow> any kvs \<Rightarrow> string list \<Rightarrow> bytes list" where
  "field_segments L fs ks = concat (map (\<lambda>k. case map_of fs k of
     Some v \<Rightarrow> [k, EncodeIndexValue L v] | None \<Rightarrow> []) ks)"

lemma field_segments_simps [simp]:
  "field_segments L fs [] = []"
  "field_segments L fs (k # ks) =
     (case map_of fs k of Some v \<Rightarrow> [k, EncodeIndexValue L v] | None \<Rightarrow> []) @ field_segments L fs ks"
  by (simp_all add: field_segments_def)

lemma field_segments_append: "field_segments L fs (ks @ ls) = field_segments L fs ks @ field_segments L fs ls"
  by (simp add: field_segments_def)

lemma append_fields_eq:
  "ipSeek i = ANil \<Longrightarrow> ipFields (append_fields L fs ks i) = ipFields i @ field_segments L fs ks
    \<and> ipPrefix (append_fields L fs ks i) = ipPrefix i \<and> ipSeek (append_fields L fs ks i) = ANil"
  by (induction ks arbitrary: i) (auto simp: ip_Append_def split: option.splits)

lemma seekPrefix_eq:
  "ipPrefix (seekPrefix L ns c i fs) = [ns, ''index'', c, iName i]"
  "ipFields (seekPrefix L ns c i fs) = field_segments L (flat_fields L fs) (iFields i)"
  "ipSeek (seekPrefix L ns c i fs) = ANil"
  by (simp_all add: seekPrefix_def append_fields_eq)

lemma scan_key_eq [path_simps]:
  "scan_key L ns c i fs = join0 ([ns, ''index'', c, iName i] @ field_segments L (flat_fields L fs) (iFields i))"
  by (simp add: scan_key_def ip_Path_def seekPrefix_eq)

lemma entry_key_eq [path_simps]:
  "entry_key L ns c i fs docID =
     join0 (([ns, ''index'', c, iName i] @ field_segments L (flat_fields L fs) (iFields i)) @ [docID])"
  by (simp add: entry_key_def ip_Path_def ip_Seek_def seekPrefix_eq EncodeIndexValue_def)

lemma entry_key_scan_key: "entry_key L ns c i fs docID = scan_key L ns c i fs @ nul # docID"
  unfolding entry_key_eq scan_key_eq by (subst join0_append) simp_all

lemma prefix_entry_key_indexPrefix: "prefix (indexPrefix ns c (iName i) @ [nul]) (entry_key L ns c i fs docID)"
proof (cases "field_segments L (flat_fields L fs) (iFields i) = []")
  case True
  then show ?thesis by (simp add: entry_key_scan_key scan_key_eq indexPrefix_def)
next
  case False
  then have "scan_key L ns c i fs = indexPrefix ns c (iName i) @ nul # join0 (field_segments L (flat_fields L fs) (iFields i))"
    unfolding scan_key_eq indexPrefix_def by (subst join0_append) simp_all
  then show ?thesis by (simp add: entry_key_scan_key)
qed

text \<open>
  Whatever bytes the encoded values hold (numbers contain zero bytes), splitting an
  entry's key gives back its document id, so the entries of different documents never share
  a key, in whatever index they stand.
\<close>

lemma entry_key_docID:
  assumes "nul \<notin> set docID"
  shows "key_docID (entry_key L ns c i fs docID) = docID"
  unfolding key_docID_def entry_key_eq by (rule last_split0_join0 [OF assms])

lemma entry_key_docID_witness:
  "key_docID (entry_key flat_json ''default'' ''user'' (no_index\<lparr>iName := ''age_idx'', iFields := [''age'']\<rparr>)
     [(''age'', AFloat 7)] ''u1'') = ''u1''"
  by (rule entry_key_docID) simp

subsection \<open>Separation of keys\<close>

lemma header_eq:
  assumes "join0 ([a1, a2, a3, a4] @ us) = join0 ([b1, b2, b3, b4] @ vs)" "us \<noteq> []" "vs \<noteq> []"
    and "\<forall>s\<in>{a1, a2, a3, a4, b1, b2, b3, b4}. nul \<notin> set s"
  shows "a1 = b1 \<and> a2 = b2 \<and> a3 = b3 \<and> a4 = b4 \<and> join0 us = join0 vs"
proof -
  have a: "join0 ([x1, x2, x3, x4] @ ws) = x1 @ nul # x2 @ nul # x3 @ nul # x4 @ nul # join0 ws"
    if "ws \<noteq> []" for x1 x2 x3 x4 ws
    using that by (simp add: join0_Cons)
  from assms(1) have e: "a1 @ nul # a2 @ nul # a3 @ nul # a4 @ nul # join0 us
      = b1 @ nul # b2 @ nul # b3 @ nul # b4 @ nul # join0 vs"
    unfolding a [OF assms(2)] a [OF assms(3)] .
  show ?thesis
    using plain_segment_eq [OF e] assms(4)
      plain_segment_eq [of a2 "a3 @ nul # a4 @ nul # join0 us" b2 "b3 @ nul # b4 @ nul # join0 vs"]
      plain_segment_eq [of a3 "a4 @ nul # join0 us" b3 "b4 @ nul # join0 vs"]
      plain_segment_eq [of a4 "join0 us" b4 "join0 vs"]
    by simp
qed

text \<open>
  With names and ids free of zero bytes, an entry's key determines its namespace, its
  collection, its index and its document: no two of them share storage.
\<close>

lemma entry_key_separates:
  assumes "entry_key L ns c i fs d = entry_key L ns' c' i' fs' d'"
    and "\<forall>s\<in>{ns, c, iName i, d, ns', c', iName i', d'}. nul \<notin> set s"
  shows "ns = ns' \<and> c = c' \<and> iName i = iName i' \<and> d = d'"
proof -
  let ?us = "field_segments L (flat_fields L fs) (iFields i) @ [d]"
  let ?vs = "field_segments L (flat_fields L fs') (iFields i') @ [d']"
  have e: "join0 ([ns, ''index'', c, iName i] @ ?us) = join0 ([ns', ''index'', c', iName i'] @ ?vs)"
    using assms(1) by (simp add: entry_key_eq)
  have "ns = ns' \<and> c = c' \<and> iName i = iName i' \<and> join0 ?us = join0 ?vs"
    using header_eq [OF e] assms(2) by simp
  moreover have "d = d'"
    using calculation join0_plain_inject assms(2) by blast
  ultimately show ?thesis by blast
qed

lemma entry_key_separates_witness:
  "entry_key flat_json ''default'' ''user'' (no_index\<lparr>iName := ''p''\<rparr>) [] ''u1''
     = entry_key flat_json ''default'' ''user'' (no_index\<lparr>iName := ''p''\<rparr>) [] ''u1'' \<and> ''user'' = ''user''"
  using entry_key_separates [of flat_json "''default''" "''user''" "no_index\<lparr>iName := ''p''\<rparr>" "[]" "''u1''"
      "''default''" "''user''" "no_index\<lparr>iName := ''p''\<rparr>" "[]" "''u1''"]
  by simp

text \<open>
  The prefix that \<open>dropCollection\<close> deletes ends with the collection's name and no separator,
  so it covers every entry of every collection whose name extends that name.
\<close>

lemma prefix_collection_entry:
  "prefix (collectionPrefix ns c) (entry_key L ns (c @ ext) i fs docID)"
proof -
  have "entry_key L ns (c @ ext) i fs docID
      = ns @ nul # ''index'' @ nul # (c @ ext) @ nul # join0 ([iName i] @ field_segments L (flat_fields L fs) (iFields i) @ [docID])"
    unfolding entry_key_eq by (simp add: join0_Cons)
  then show ?thesis by (simp add: collectionPrefix_def)
qed

subsection \<open>Which entries a scan covers\<close>

lemma field_segments_cong:
  "(\<And>k. k \<in> set ks \<Longrightarrow> map_of m k = map_of m' k) \<Longrightarrow> field_segments L m ks = field_segments L m' ks"
  by (induction ks) auto

lemma field_segments_none:
  "(\<And>k. k \<in> set ks \<Longrightarrow> map_of m k = None) \<Longrightarrow> field_segments L m ks = []"
  by (induction ks) auto

text \<open>
  A scan whose values are those of an entry on the first \<open>n\<close> index fields, and absent on the
  others, meets the entry.
\<close>

lemma scan_key_covers:
  assumes "\<And>k. k \<in> set (take n (iFields i)) \<Longrightarrow> map_of (flat_fields L fs) k = map_of (flat_fields L gs) k"
    and "\<And>k. k \<in> set (drop n (iFields i)) \<Longrightarrow> map_of (flat_fields L fs) k = None"
  shows "prefix (scan_key L ns c i fs) (entry_key L ns c i gs docID)"
proof -
  have ks: "iFields i = take n (iFields i) @ drop n (iFields i)" by simp
  have fs: "field_segments L (flat_fields L fs) (iFields i) = field_segments L (flat_fields L gs) (take n (iFields i))"
    using assms by (subst ks, subst field_segments_append) (simp add: field_segments_none cong: field_segments_cong)
  have gs: "field_segments L (flat_fields L gs) (iFields i)
      = field_segments L (flat_fields L gs) (take n (iFields i)) @ field_segments L (flat_fields L gs) (drop n (iFields i))"
    using field_segments_append [of L "flat_fields L gs" "take n (iFields i)" "drop n (iFields i)"] by simp
  let ?h = "[ns, ''index'', c, iName i] @ field_segments L (flat_fields L gs) (take n (iFields i))"
  have "entry_key L ns c i gs docID
      = join0 ?h @ nul # join0 (field_segments L (flat_fields L gs) (drop n (iFields i)) @ [docID])"
    unfolding entry_key_eq gs by (subst join0_append [symmetric]) simp_all
  then show ?thesis unfolding scan_key_eq fs by simp
qed

text \<open>
  A scan that skips an index field which the entry has, and gives a value for a later one,
  misses the entry.
\<close>

lemma scan_key_misses:
  assumes "iFields i = k # ks" "map_of (flat_fields L fs) k = None" "map_of (flat_fields L gs) k = Some v"
    and "l \<in> set ks" "map_of (flat_fields L fs) l = Some w" "k \<notin> set ks"
    and "\<forall>f\<in>set (iFields i). nul \<notin> set f"
  shows "\<not> prefix (scan_key L ns c i fs) (entry_key L ns c i gs docID)"
proof
  assume "prefix (scan_key L ns c i fs) (entry_key L ns c i gs docID)"
  moreover obtain m u ss where m: "field_segments L (flat_fields L fs) ks = m # u # ss" "m \<in> set ks"
  proof -
    have "\<exists>m u ss. field_segments L (flat_fields L fs) ks = m # u # ss \<and> m \<in> set ks"
      using assms(4,5)
    proof (induction ks)
      case (Cons a ks)
      then show ?case by (cases "map_of (flat_fields L fs) a") auto
    qed simp
    then show thesis using that by blast
  qed
  moreover have "join0 ([ns, ''index'', c, iName i] @ x # xs) = join0 [ns, ''index'', c, iName i] @ nul # join0 (x # xs)" for x xs
    by (rule join0_append) simp_all
  ultimately have "prefix (join0 (m # u # ss)) (join0 (k # EncodeIndexValue L v # field_segments L (flat_fields L gs) ks @ [docID]))"
    using assms(1-3) by (simp add: scan_key_eq entry_key_eq)
  then obtain z where e: "m @ nul # (join0 (u # ss) @ z)
      = k @ nul # join0 (EncodeIndexValue L v # field_segments L (flat_fields L gs) ks @ [docID])"
    by (auto simp: prefix_def)
  have "nul \<notin> set m" "nul \<notin> set k" using m(2) assms(1,7) by simp_all
  then have "m = k" using plain_segment_eq [OF e] by blast
  with m(2) assms(6) show False by simp
qed

end
