(* ===== verification/Kv.thy ===== *)
theory Kv
  imports Errors
begin

text \<open>
  \<open>kv/kv.go\<close>: the key-value interface that both storage back ends implement. The options
  records and the change record are the source's; the locale \<open>kv_tx\<close> is the contract that
  the comments of \<open>Tx\<close>, \<open>Getter\<close>, \<open>Setter\<close>, \<open>Deleter\<close> and \<open>Iterator\<close> state,
  over the items of a transaction sorted by key; \<open>kv_scan\<close> is the loop
  \<open>for it.Valid() { ...; it.Next() }\<close> with the validity test of the back ends'
  iterators. \<open>mem_get\<close>, \<open>mem_set\<close>, \<open>mem_delete\<close> and \<open>mem_iter\<close> are the reference
  implementation of the contract, an association list with the read-only check of
  \<open>kv/tikv/tx.go\<close>.
\<close>

record txopts =
  IsReadOnly :: bool
  IsBatch :: bool

record iteropts =
  Prefix :: "bytes option"
  UpperBound :: "bytes option"
  Seek :: "bytes option"
  Reverse :: bool

datatype txop = SETOP | DELOP

record 'v kvcdc =
  Operation :: txop
  Key :: bytes
  Val :: "'v option"

subsection \<open>Iteration\<close>

definition iter_valid :: "iteropts \<Rightarrow> bytes \<Rightarrow> bool" where
  "iter_valid opts k \<longleftrightarrow>
     (case Prefix opts of None \<Rightarrow> True | Some p \<Rightarrow> prefix p k) \<and>
     (case UpperBound opts of None \<Rightarrow> True | Some u \<Rightarrow> \<not> u < k)"

definition iter_start :: "iteropts \<Rightarrow> bytes option" where
  "iter_start opts = (case Seek opts of
     Some s \<Rightarrow> Some s
   | None \<Rightarrow> (if Reverse opts then UpperBound opts else Prefix opts))"

definition iter_from :: "iteropts \<Rightarrow> 'v kvs \<Rightarrow> 'v kvs" where
  "iter_from opts kvs = (case iter_start opts of
     None \<Rightarrow> (if Reverse opts then rev kvs else kvs)
   | Some s \<Rightarrow> (if Reverse opts then dropWhile (\<lambda>kv. s < fst kv) (rev kvs)
              else dropWhile (\<lambda>kv. fst kv < s) kvs))"

definition kv_scan :: "iteropts \<Rightarrow> 'v kvs \<Rightarrow> 'v kvs" where
  "kv_scan opts kvs = takeWhile (\<lambda>kv. iter_valid opts (fst kv)) (iter_from opts kvs)"

lemma kv_scan_subset: "set (kv_scan opts kvs) \<subseteq> set kvs"
  unfolding kv_scan_def iter_from_def
  by (auto split: option.splits dest!: set_takeWhileD set_dropWhileD)

lemma kv_scan_prefix:
  assumes "sorted (map fst kvs)"
  shows "kv_scan \<lparr>Prefix = Some p, UpperBound = None, Seek = Some p, Reverse = False\<rparr> kvs
    = filter (\<lambda>kv. prefix p (fst kv)) kvs"
  using scan_prefix [OF assms, of p]
  by (simp add: kv_scan_def iter_from_def iter_start_def iter_valid_def)

lemma dropWhile_sorted_filter:
  "sorted (map fst kvs) \<Longrightarrow> dropWhile (\<lambda>kv. fst kv < (s :: string)) kvs = filter (\<lambda>kv. s \<le> fst kv) kvs"
proof (induction kvs)
  case Nil
  then show ?case by simp
next
  case (Cons kv kvs)
  show ?case
  proof (cases "fst kv < s")
    case True
    with Cons show ?thesis by auto
  next
    case False
    then have "\<forall>x\<in>set (kv # kvs). s \<le> fst x" using Cons.prems by auto
    then show ?thesis using False by (simp add: filter_id_conv)
  qed
qed

lemma kv_scan_seek:
  assumes "sorted (map fst kvs)" and "prefix p q"
  shows "kv_scan \<lparr>Prefix = Some p, UpperBound = None, Seek = Some q, Reverse = False\<rparr> kvs
    = filter (\<lambda>kv. prefix p (fst kv) \<and> q \<le> fst kv) kvs"
proof -
  have le: "p \<le> q" using assms(2) by (rule prefix_imp_le)
  have "takeWhile (\<lambda>kv. prefix p (fst kv)) (filter (\<lambda>kv. q \<le> fst kv) kvs)
      = filter (\<lambda>kv. prefix p (fst kv)) (filter (\<lambda>kv. q \<le> fst kv) kvs)"
    by (rule takeWhile_convex) (use assms(1) le in \<open>auto intro: sorted_filter\<close>)
  then show ?thesis
    by (simp add: kv_scan_def iter_from_def iter_start_def iter_valid_def
        dropWhile_sorted_filter [OF assms(1)] conj_commute)
qed

lemma dropWhile_rev_filter:
  "sorted (map fst kvs) \<Longrightarrow>
   dropWhile (\<lambda>kv. (s :: string) < fst kv) (rev kvs) = rev (filter (\<lambda>kv. fst kv \<le> s) kvs)"
proof (induction kvs rule: rev_induct)
  case Nil
  then show ?case by simp
next
  case (snoc kv kvs)
  show ?case
  proof (cases "s < fst kv")
    case True
    with snoc show ?thesis by (auto simp: sorted_append)
  next
    case False
    then have "\<forall>x\<in>set (kvs @ [kv]). fst x \<le> s" using snoc.prems by (fastforce simp: sorted_append)
    then show ?thesis using False by (simp add: filter_id_conv)
  qed
qed

lemma takeWhile_rev_convex:
  assumes "sorted (map fst kvs)" "\<forall>kv\<in>set kvs. fst kv \<le> q" "prefix p (q :: string)"
  shows "takeWhile (\<lambda>kv. prefix p (fst kv)) (rev kvs) = rev (filter (\<lambda>kv. prefix p (fst kv)) kvs)"
  using assms(1,2)
proof (induction kvs rule: rev_induct)
  case Nil
  then show ?case by simp
next
  case (snoc kv kvs)
  show ?case
  proof (cases "prefix p (fst kv)")
    case True
    with snoc show ?thesis by (simp add: sorted_append)
  next
    case False
    have "\<not> prefix p (fst x)" if x: "x \<in> set kvs" for x
    proof
      assume px: "prefix p (fst x)"
      have "p \<le> fst x" using px by (rule prefix_imp_le)
      moreover have "fst x \<le> fst kv" "fst kv \<le> q" using snoc.prems x by (auto simp: sorted_append)
      ultimately show False using prefix_convex [OF assms(3), of "fst kv"] False
        by (meson order_trans)
    qed
    with False show ?thesis by (simp add: filter_empty_conv)
  qed
qed

lemma kv_scan_reverse:
  assumes "sorted (map fst kvs)" and "prefix p q"
  shows "kv_scan \<lparr>Prefix = Some p, UpperBound = None, Seek = Some q, Reverse = True\<rparr> kvs
    = rev (filter (\<lambda>kv. prefix p (fst kv) \<and> fst kv \<le> q) kvs)"
proof -
  have "takeWhile (\<lambda>kv. prefix p (fst kv)) (rev (filter (\<lambda>kv. fst kv \<le> q) kvs))
      = rev (filter (\<lambda>kv. prefix p (fst kv)) (filter (\<lambda>kv. fst kv \<le> q) kvs))"
    by (rule takeWhile_rev_convex [OF _ _ assms(2)]) (use assms(1) in \<open>auto intro: sorted_filter\<close>)
  then show ?thesis
    by (simp add: kv_scan_def iter_from_def iter_start_def iter_valid_def
        dropWhile_rev_filter [OF assms(1)] conj_commute)
qed

subsection \<open>The contract of a transaction\<close>

locale kv_tx =
  fixes kget :: "bytes \<Rightarrow> 's \<Rightarrow> 'v option res"
    and kset :: "bytes \<Rightarrow> 'v \<Rightarrow> 's \<Rightarrow> 's res"
    and kdel :: "bytes \<Rightarrow> 's \<Rightarrow> 's res"
    and kiter :: "iteropts \<Rightarrow> 's \<Rightarrow> 'v kvs res"
    and items :: "'s \<Rightarrow> 'v kvs"
    and writable :: "'s \<Rightarrow> bool"
  assumes items_sorted: "sorted (map fst (items s))"
    and items_distinct: "distinct (map fst (items s))"
    and kget_items: "kget k s = Inr (map_of (items s) k)"
    and kset_items: "kset k v s = Inr s' \<Longrightarrow> map_of (items s') = (map_of (items s))(k \<mapsto> v)"
    and kdel_items: "kdel k s = Inr s' \<Longrightarrow> map_of (items s') = (map_of (items s))(k := None)"
    and kset_writable: "writable s \<Longrightarrow> \<exists>s'. kset k v s = Inr s' \<and> writable s'"
    and kdel_writable: "writable s \<Longrightarrow> \<exists>s'. kdel k s = Inr s' \<and> writable s'"
    and kiter_items: "kiter opts s = Inr (kv_scan opts (items s))"
begin

definition view :: "'s \<Rightarrow> bytes \<Rightarrow> 'v option" where
  "view s = map_of (items s)"

lemma in_items_iff: "(k, v) \<in> set (items s) \<longleftrightarrow> view s k = Some v"
  using items_distinct [of s] by (simp add: view_def)

lemma read_own_write: "kset k v s = Inr s' \<Longrightarrow> kget k s' = Inr (Some v)"
  by (simp add: kget_items kset_items)

lemma read_own_delete: "kdel k s = Inr s' \<Longrightarrow> kget k s' = Inr None"
  by (simp add: kget_items kdel_items)

lemma write_frame: "kset k v s = Inr s' \<Longrightarrow> l \<noteq> k \<Longrightarrow> kget l s' = kget l s"
  by (simp add: kget_items kset_items)

lemma delete_frame: "kdel k s = Inr s' \<Longrightarrow> l \<noteq> k \<Longrightarrow> kget l s' = kget l s"
  by (simp add: kget_items kdel_items)

lemma view_set: "kset k v s = Inr s' \<Longrightarrow> view s' = (view s)(k \<mapsto> v)"
  by (simp add: view_def kset_items)

lemma view_del: "kdel k s = Inr s' \<Longrightarrow> view s' = (view s)(k := None)"
  by (simp add: view_def kdel_items)

text \<open>
  A scan over a prefix visits exactly the present keys with the prefix, each once, in
  ascending order.
\<close>

lemma scan_complete:
  assumes "kiter \<lparr>Prefix = Some p, UpperBound = None, Seek = Some p, Reverse = False\<rparr> s = Inr kvs"
  shows "set kvs = {(k, v). view s k = Some v \<and> prefix p k}" "sorted (map fst kvs)" "distinct (map fst kvs)"
proof -
  have kvs: "kvs = filter (\<lambda>kv. prefix p (fst kv)) (items s)"
    using assms by (simp add: kiter_items kv_scan_prefix [OF items_sorted])
  show "set kvs = {(k, v). view s k = Some v \<and> prefix p k}"
    unfolding kvs by (auto simp: in_items_iff)
  show "sorted (map fst kvs)" unfolding kvs by (rule sorted_filter [OF items_sorted])
  show "distinct (map fst kvs)" unfolding kvs by (rule distinct_map_filter [OF items_distinct])
qed

end

subsection \<open>The reference implementation\<close>

record 'v memtx =
  mt_opts :: txopts
  mt_data :: "'v kvs"

definition mem_get :: "bytes \<Rightarrow> 'v memtx \<Rightarrow> 'v option res" where
  "mem_get k s = Inr (map_of (mt_data s) k)"

definition read_only_error :: gerr where
  "read_only_error = Plain ''writes forbidden in read-only transaction''"

definition mem_set :: "bytes \<Rightarrow> 'v \<Rightarrow> 'v memtx \<Rightarrow> 'v memtx res" where
  "mem_set k v s = (if IsReadOnly (mt_opts s) then Inl (Fail read_only_error)
     else Inr (s\<lparr>mt_data := AList.update k v (AList.clearjunk (mt_data s))\<rparr>))"

definition mem_delete :: "bytes \<Rightarrow> 'v memtx \<Rightarrow> 'v memtx res" where
  "mem_delete k s = (if IsReadOnly (mt_opts s) then Inl (Fail read_only_error)
     else Inr (s\<lparr>mt_data := AList.delete k (mt_data s)\<rparr>))"

definition mem_iter :: "iteropts \<Rightarrow> 'v memtx \<Rightarrow> 'v kvs res" where
  "mem_iter opts s = Inr (kv_scan opts (sort_key fst (AList.clearjunk (mt_data s))))"

lemma distinct_sort_key [simp]: "distinct (map fst (sort_key fst m)) \<longleftrightarrow> distinct (map fst m)"
  by (rule mset_eq_imp_distinct_iff) simp

lemma map_of_sort_clearjunk: "map_of (sort_key fst (AList.clearjunk m)) = map_of m"
proof -
  have "map_of (sort_key fst (AList.clearjunk m)) = map_of (AList.clearjunk m)"
    by (rule map_of_inject_set [THEN iffD2]) (simp_all add: distinct_clearjunk)
  then show ?thesis by (simp add: map_of_clearjunk)
qed

interpretation mem: kv_tx mem_get mem_set mem_delete mem_iter
  "\<lambda>s. sort_key fst (AList.clearjunk (mt_data s))" "\<lambda>s. \<not> IsReadOnly (mt_opts s)"
  by unfold_locales
    (auto simp: mem_get_def mem_set_def mem_delete_def mem_iter_def map_of_sort_clearjunk
      distinct_clearjunk update_conv' delete_conv' map_of_clearjunk split: if_splits)

text \<open>The operations of an implementation, as one value.\<close>

record ('s, 'r) kv_ops =
  opGet :: "bytes \<Rightarrow> 's \<Rightarrow> 'r option res"
  opSet :: "bytes \<Rightarrow> 'r \<Rightarrow> 's \<Rightarrow> 's res"
  opDel :: "bytes \<Rightarrow> 's \<Rightarrow> 's res"
  opIter :: "iteropts \<Rightarrow> 's \<Rightarrow> 'r kvs res"

definition mem_ops :: "('r memtx, 'r) kv_ops" where
  "mem_ops = \<lparr>opGet = mem_get, opSet = mem_set, opDel = mem_delete, opIter = mem_iter\<rparr>"

definition empty_mem :: "'r memtx" where
  "empty_mem = \<lparr>mt_opts = \<lparr>IsReadOnly = False, IsBatch = False\<rparr>, mt_data = []\<rparr>"

end
