(* ===== verification/Optimizer.thy ===== *)
theory Optimizer
  imports Indexing Kv
begin

text \<open>
  \<open>optimizer.go\<close>: the choice of an index for the where clauses of a query. The clauses are
  matched with the index fields position by position; the loop over the index map keeps the
  last index with the highest number of matches. The locale \<open>index_optimizer\<close> is the
  interface \<open>Optimizer\<close> of \<open>api.go\<close> with what the scan relies on; the default optimizer
  provides it.
\<close>

definition defaultExplain :: "'r schema \<Rightarrow> explain" where
  "defaultExplain c = \<lparr>eCollection = scCollection c, eIndex = scPrimaryIndex c, eMatchedFields = [],
     eMatchedValues = [], eSeekFields = [], eSeekValues = [], eReverse = False\<rparr>"

definition getMatchedFieldValues :: "string list \<Rightarrow> where_c list \<Rightarrow> any kvs" where
  "getMatchedFieldValues fs ws =
     fold (\<lambda>f m. fold (\<lambda>w m. if wField w \<noteq> f then m else AList.update (wField w) (wValue w) m) ws m) fs []"

text \<open>
  One index: matched fields, seek fields, and whether the scan runs backwards. A range
  operator only counts on the last field of the index.
\<close>

fun match_fields :: "string list \<Rightarrow> where_c list \<Rightarrow> string list \<times> string list \<times> bool" where
  "match_fields [] ws = ([], [], False)"
| "match_fields (f # fs) [] = ([], [], False)"
| "match_fields (f # fs) (w # ws) =
     (case match_fields fs ws of (matched, seek, reverse) \<Rightarrow>
        if f = wField w \<and> wOp w = WEq then (f # matched, seek, reverse)
        else if f = wField w \<and> fs = [] then
          (case wOp w of
             WGt \<Rightarrow> (matched, f # seek, reverse)
           | WGte \<Rightarrow> (matched, f # seek, reverse)
           | WLt \<Rightarrow> (matched, f # seek, True)
           | WLte \<Rightarrow> (matched, f # seek, True)
           | _ \<Rightarrow> (matched, seek, reverse))
        else (matched, seek, reverse))"

fun Uniq :: "string list \<Rightarrow> string list" where
  "Uniq [] = []"
| "Uniq (x # xs) = x # filter (\<lambda>y. y \<noteq> x) (Uniq xs)"

definition index_matches :: "where_c list \<Rightarrow> index_c \<Rightarrow> string list \<times> string list \<times> bool" where
  "index_matches ws index = (case match_fields (iFields index) ws of (m, s, r) \<Rightarrow> (Uniq m, s, r))"

definition consider_index :: "where_c list \<Rightarrow> index_c \<Rightarrow> explain \<Rightarrow> explain" where
  "consider_index ws index opt =
     (if iFields index = [] then opt
      else case index_matches ws index of (matched, seek, reverse) \<Rightarrow>
        if length matched + length seek \<ge> length (eMatchedFields opt) + length (eSeekFields opt)
        then opt\<lparr>eIndex := index, eMatchedFields := matched, eReverse := reverse, eSeekFields := seek\<rparr>
        else opt)"

definition Optimize :: "'r schema \<Rightarrow> where_c list \<Rightarrow> explain res" where
  "Optimize c ws =
     (if iFields (scPrimaryIndex c) = [] then fail Internal ''zero configured indexes''
      else if scIndexing c = [] then fail Internal ''zero configured indexes''
      else case ws of
        [] \<Rightarrow> Inr (defaultExplain c)
      | w # _ \<Rightarrow>
        if hd (iFields (scPrimaryIndex c)) = wField w \<and> wOp w = WEq
        then Inr \<lparr>eCollection = [], eIndex = scPrimaryIndex c, eMatchedFields = [PrimaryKey c],
               eMatchedValues = getMatchedFieldValues [PrimaryKey c] ws,
               eSeekFields = [], eSeekValues = [], eReverse = False\<rparr>
        else (let opt = fold (consider_index ws) (Indexing_map c)
                 \<lparr>eCollection = scCollection c, eIndex = no_index, eMatchedFields = [],
                  eMatchedValues = [], eSeekFields = [], eSeekValues = [], eReverse = False\<rparr>
              in if length (eMatchedFields opt) + length (eSeekFields opt) > 0
                 then Inr (opt\<lparr>eMatchedValues := getMatchedFieldValues (eMatchedFields opt) ws,
                        eSeekValues := getMatchedFieldValues (eSeekFields opt) ws\<rparr>)
                 else if scRequireIndex c
                 then fail Forbidden (''index is required for query in collection: '' @ scCollection c)
                 else Inr (defaultExplain c)))"

subsection \<open>The values of matched fields\<close>

text \<open>The map takes the value of the last clause on the field, whatever its operator.\<close>

fun last_value :: "where_c list \<Rightarrow> string \<Rightarrow> any option" where
  "last_value [] f = None"
| "last_value (w # ws) f = (case last_value ws f of
     Some v \<Rightarrow> Some v | None \<Rightarrow> if wField w = f then Some (wValue w) else None)"

lemma last_value_None: "last_value ws f = None \<longleftrightarrow> f \<notin> wField ` set ws"
  by (induction ws) (auto split: option.splits)

lemma last_value_distinct:
  "distinct (map wField ws) \<Longrightarrow> w \<in> set ws \<Longrightarrow> last_value ws (wField w) = Some (wValue w)"
proof (induction ws)
  case Nil
  then show ?case by simp
next
  case (Cons x ws)
  show ?case
  proof (cases "x = w")
    case True
    then have "last_value ws (wField w) = None" using Cons.prems by (auto simp: last_value_None)
    with True show ?thesis by simp
  next
    case False
    with Cons show ?thesis by simp
  qed
qed

lemma map_of_clauses:
  "map_of (fold (\<lambda>w m. if wField w \<noteq> f then m else AList.update (wField w) (wValue w) m) ws m) g
   = (if g = f then (case last_value ws f of Some v \<Rightarrow> Some v | None \<Rightarrow> map_of m g) else map_of m g)"
  by (induction ws arbitrary: m) (auto simp: update_conv' split: option.splits)

lemma map_of_matched_aux:
  "map_of (fold (\<lambda>f m. fold (\<lambda>w m. if wField w \<noteq> f then m else AList.update (wField w) (wValue w) m) ws m) fs m) g
   = (if g \<in> set fs then (case last_value ws g of Some v \<Rightarrow> Some v | None \<Rightarrow> map_of m g) else map_of m g)"
  by (induction fs arbitrary: m) (auto simp: map_of_clauses split: option.splits)

lemma map_of_matched:
  "map_of (getMatchedFieldValues fs ws) f = (if f \<in> set fs then last_value ws f else None)"
  by (simp add: getMatchedFieldValues_def map_of_matched_aux split: option.splits)

subsection \<open>What the matching collects\<close>

lemma set_Uniq [simp]: "set (Uniq xs) = set xs"
  by (induction xs) auto

lemma match_fields_matched:
  "f \<in> set (fst (match_fields fs ws)) \<Longrightarrow> f \<in> set fs \<and> (\<exists>w\<in>set ws. wField w = f \<and> wOp w = WEq)"
proof (induction fs ws rule: match_fields.induct)
  case (3 g fs w ws)
  obtain m s r where m: "match_fields fs ws = (m, s, r)" by (cases "match_fields fs ws")
  have "f \<in> set m \<or> (f = g \<and> g = wField w \<and> wOp w = WEq)"
    using 3(2) by (auto simp: m split: if_splits where_op.splits)
  with 3(1) m show ?case by auto
qed auto

lemma fold_consider_in:
  "eIndex (fold (consider_index ws) is opt) \<in> insert (eIndex opt) (set is)"
proof (induction "is" arbitrary: opt)
  case Nil
  then show ?case by simp
next
  case (Cons i "is")
  have "eIndex (consider_index ws i opt) \<in> {eIndex opt, i}"
    by (auto simp: consider_index_def split: prod.splits)
  with Cons [of "consider_index ws i opt"] show ?case by auto
qed

definition explain_score :: "explain \<Rightarrow> nat" where
  "explain_score ex = length (eMatchedFields ex) + length (eSeekFields ex)"

definition index_score :: "where_c list \<Rightarrow> index_c \<Rightarrow> nat" where
  "index_score ws i = (case index_matches ws i of (m, s, r) \<Rightarrow> length m + length s)"

lemma index_score_Nil [simp]: "iFields i = [] \<Longrightarrow> index_score ws i = 0"
  by (simp add: index_score_def index_matches_def)

lemma score_consider: "explain_score (consider_index ws i opt) = max (index_score ws i) (explain_score opt)"
  by (auto simp: consider_index_def explain_score_def index_score_def max_def index_matches_def split: prod.splits)

lemma score_fold_consider:
  "explain_score (fold (consider_index ws) is opt) \<ge> explain_score opt \<and>
   (\<forall>i\<in>set is. explain_score (fold (consider_index ws) is opt) \<ge> index_score ws i)"
proof (induction "is" arbitrary: opt)
  case Nil
  then show ?case by simp
next
  case (Cons i "is")
  from Cons [of "consider_index ws i opt"] show ?case by (auto simp: score_consider)
qed

text \<open>What the loop holds is the match of the index it holds, or nothing yet.\<close>

definition explain_of :: "where_c list \<Rightarrow> explain \<Rightarrow> bool" where
  "explain_of ws ex \<longleftrightarrow> explain_score ex = 0 \<or>
     (eMatchedFields ex, eSeekFields ex, eReverse ex) = index_matches ws (eIndex ex)"

lemma explain_of_consider: "explain_of ws opt \<Longrightarrow> explain_of ws (consider_index ws i opt)"
  by (auto simp: consider_index_def explain_of_def explain_score_def split: prod.splits)

lemma explain_of_fold: "explain_of ws opt \<Longrightarrow> explain_of ws (fold (consider_index ws) is opt)"
  by (induction "is" arbitrary: opt) (auto intro: explain_of_consider)

subsection \<open>The result of the optimizer\<close>

lemma Optimize_cases:
  assumes "Optimize c ws = Inr ex"
  obtains (default) "ex = defaultExplain c" "\<forall>i\<in>set (Indexing_map c). index_score ws i = 0 \<or> ws = []"
  | (primary) w ws' where "ws = w # ws'" "wField w = PrimaryKey c" "wOp w = WEq"
      "iFields (scPrimaryIndex c) \<noteq> []"
      "ex = \<lparr>eCollection = [], eIndex = scPrimaryIndex c, eMatchedFields = [PrimaryKey c],
         eMatchedValues = getMatchedFieldValues [PrimaryKey c] ws, eSeekFields = [], eSeekValues = [], eReverse = False\<rparr>"
  | (index) "explain_score ex > 0" "eIndex ex \<in> set (Indexing_map c)"
      "\<forall>i\<in>set (Indexing_map c). index_score ws i \<le> explain_score ex"
      "(eMatchedFields ex, eSeekFields ex, eReverse ex) = index_matches ws (eIndex ex)"
      "eMatchedValues ex = getMatchedFieldValues (eMatchedFields ex) ws"
      "eSeekValues ex = getMatchedFieldValues (eSeekFields ex) ws"
proof (cases ws)
  case Nil
  then show thesis using assms default by (auto simp: Optimize_def split: if_splits)
next
  case (Cons w ws')
  show thesis
  proof (cases "hd (iFields (scPrimaryIndex c)) = wField w \<and> wOp w = WEq")
    case True
    with assms have "iFields (scPrimaryIndex c) \<noteq> []" by (auto simp: Optimize_def)
    moreover from this True have "wField w = PrimaryKey c"
      by (auto simp: PrimaryKey_def neq_Nil_conv)
    ultimately show thesis
      using assms True Cons primary by (auto simp: Optimize_def split: if_splits)
  next
    case False
    define start where "start = \<lparr>eCollection = scCollection c, eIndex = no_index, eMatchedFields = [],
      eMatchedValues = [], eSeekFields = [], eSeekValues = [], eReverse = False\<rparr>"
    define opt where "opt = fold (consider_index ws) (Indexing_map c) start"
    have best: "\<forall>i\<in>set (Indexing_map c). index_score ws i \<le> explain_score opt"
      using score_fold_consider unfolding opt_def by blast
    have eo: "explain_of ws opt"
      unfolding opt_def by (rule explain_of_fold) (simp add: explain_of_def start_def explain_score_def)
    show thesis
    proof (cases "explain_score opt > 0")
      case True
      with assms False Cons have ex: "ex = opt\<lparr>eMatchedValues := getMatchedFieldValues (eMatchedFields opt) ws,
          eSeekValues := getMatchedFieldValues (eSeekFields opt) ws\<rparr>"
        by (auto simp: Optimize_def Let_def opt_def start_def explain_score_def split: if_splits)
      have idx: "(eMatchedFields opt, eSeekFields opt, eReverse opt) = index_matches ws (eIndex opt)"
        using eo True by (simp add: explain_of_def)
      have "eIndex opt \<noteq> no_index"
        using idx True by (auto simp: no_index_def index_matches_def explain_score_def)
      then have "eIndex opt \<in> set (Indexing_map c)"
        using fold_consider_in [of ws "Indexing_map c" start] by (auto simp: opt_def start_def)
      with index best idx True show thesis by (simp add: ex explain_score_def)
    next
      case no: False
      with assms False Cons have "ex = defaultExplain c"
        by (auto simp: Optimize_def Let_def opt_def start_def explain_score_def split: if_splits)
      with default best no show thesis by auto
    qed
  qed
qed

text \<open>A schema with a primary and a secondary index, for the witnesses.\<close>

definition two_index :: "any kvs schema" where
  "two_index = \<lparr>scCollection = ''user'', scPrimaryIndex = no_index\<lparr>iName := ''pk'', iFields := [''id''], iPrimary := True\<rparr>,
     scImmutable = False, scPreventDeletes = False,
     scIndexing = [(''pk'', no_index\<lparr>iName := ''pk'', iFields := [''id''], iPrimary := True\<rparr>),
       (''age_idx'', no_index\<lparr>iName := ''age_idx'', iFields := [''age'']\<rparr>)],
     scProperties = [], scPropertyPaths = [], scTriggers = [], scReadOnly = False, scAuthz = [],
     scRequireIndex = False, scRaw = []\<rparr>"



subsection \<open>The interface of an optimizer\<close>

text \<open>
  The scan that \<open>queryScan\<close> derives from an explanation: the prefix of the matched values, and
  below it the seek key of the range values.
\<close>

definition seek_path :: "('r, 'z) json_lib_scheme \<Rightarrow> string \<Rightarrow> string \<Rightarrow> explain \<Rightarrow> index_path" where
  "seek_path L ns collection ex =
     fold (\<lambda>f. ip_Append L f (case map_of (eSeekValues ex) f of Some v \<Rightarrow> v | None \<Rightarrow> ANil)) (eSeekFields ex)
       (seekPrefix L ns collection (eIndex ex) (eMatchedValues ex))"

definition scan_opts :: "('r, 'z) json_lib_scheme \<Rightarrow> string \<Rightarrow> string \<Rightarrow> explain \<Rightarrow> iteropts" where
  "scan_opts L ns collection ex =
     \<lparr>Prefix = Some (ip_Path L (seekPrefix L ns collection (eIndex ex) (eMatchedValues ex))), UpperBound = None,
      Seek = Some (ip_Path L (seek_path L ns collection ex)), Reverse = eReverse ex\<rparr>"

text \<open>\<open>flat.Flatten\<close> leaves a map of scalars as it is.\<close>

fun scalar :: "any \<Rightarrow> bool" where
  "scalar (ASlice _) = False"
| "scalar (AMap _) = False"
| "scalar _ = True"

definition flatten_laws :: "('r, 'z) json_lib_scheme \<Rightarrow> bool" where
  "flatten_laws L \<longleftrightarrow> (\<forall>m. (\<forall>v\<in>snd ` set m. scalar v) \<longrightarrow> (\<exists>m'. Flatten L m = Inr m' \<and> map_of m' = map_of m))"

lemma flat_fields_scalar:
  "flatten_laws L \<Longrightarrow> \<forall>v\<in>snd ` set m. scalar v \<Longrightarrow> map_of (flat_fields L m) = map_of m"
  unfolding flatten_laws_def flat_fields_def by fastforce

lemma flat_json_flatten: "flatten_laws flat_json"
  by (simp add: flatten_laws_def flat_json_def)

text \<open>
  An index entry represents a document on the index fields: its flattened values are what the
  document reads there.
\<close>

definition entry_of :: "('r, 'z) json_lib_scheme \<Rightarrow> index_c \<Rightarrow> any kvs \<Rightarrow> 'r \<Rightarrow> bool" where
  "entry_of L i gs d \<longleftrightarrow> (\<forall>f\<in>set (iFields i). map_of (flat_fields L gs) f = gjGet L d f)"

definition clauses_plain :: "('r, 'z) json_lib_scheme \<Rightarrow> where_c list \<Rightarrow> bool" where
  "clauses_plain L ws \<longleftrightarrow> distinct (map wField ws) \<and> (\<forall>w\<in>set ws. wOp w \<noteq> WContainsAny \<and>
     scalar (wValue w) \<and> (wOp w = WEq \<longrightarrow> wValue w \<noteq> ANil \<and> \<not> HasPrefix (ToString L (wValue w)) selfRefPrefix))"

lemma doc_where_Continue:
  assumes "doc_where L d ws = Inr True" "\<forall>w\<in>set ws. wOp w \<noteq> WContainsAny" "w \<in> set ws"
  shows "where_clause L d w = Inr Continue"
  using assms
proof (induction ws)
  case Nil
  then show ?case by simp
next
  case (Cons x ws)
  have noacc: "where_clause L d x \<noteq> Inr Accept"
    using Cons.prems(2) by (auto simp: where_clause_def Let_def reject_if_def rbind_def fail_def
        split: where_op.splits sum.splits)
  from Cons.prems(1) obtain r where r: "where_clause L d x = Inr r"
    and k: "(case r of Reject \<Rightarrow> Inr False | Accept \<Rightarrow> Inr True | Continue \<Rightarrow> doc_where L d ws) = Inr True"
    by (auto simp: rbind_eq_Inr)
  from r k noacc have rc: "r = Continue" by (cases r) auto
  with k have "doc_where L d ws = Inr True" by simp
  with Cons r rc show ?case by auto
qed

lemma eq_clause_value:
  assumes "where_clause L d w = Inr Continue" "wOp w = WEq"
    and "wValue w \<noteq> ANil" "\<not> HasPrefix (ToString L (wValue w)) selfRefPrefix"
  shows "gjGet L d (wField w) = Some (wValue w)"
proof -
  have "eq_rejects L d w = Inr False"
    using assms(1) by (auto simp: where_clause_WEq [OF assms(2)] reject_if_def rbind_eq_Inr split: if_splits)
  then have "iface_eq (wValue w) (doc_get L d (wField w)) = Inr True"
    using assms(4) by (auto simp: eq_rejects_def or_else_def iface_neq_def rbind_eq_Inr split: if_splits)
  then have "wValue w = doc_get L d (wField w)" by (rule iface_eq_True)
  with assms(3) show ?thesis by (auto simp: doc_get_def split: option.splits)
qed

locale index_optimizer =
  fixes optimize :: "'r schema \<Rightarrow> where_c list \<Rightarrow> explain res"
  assumes opt_matched: "optimize c ws = Inr ex \<Longrightarrow> f \<in> set (eMatchedFields ex) \<Longrightarrow>
      \<exists>w\<in>set ws. wField w = f \<and> wOp w = WEq"
    and opt_values: "optimize c ws = Inr ex \<Longrightarrow>
      map_of (eMatchedValues ex) f = (if f \<in> set (eMatchedFields ex) then last_value ws f else None)"
    and opt_seek_values: "optimize c ws = Inr ex \<Longrightarrow>
      map_of (eSeekValues ex) f = (if f \<in> set (eSeekFields ex) then last_value ws f else None)"
    and opt_values_in: "optimize c ws = Inr ex \<Longrightarrow>
      snd ` set (eMatchedValues ex) \<subseteq> wValue ` set ws"
begin

text \<open>The values the scan's prefix is made of are those of every document that has the equality values.\<close>

lemma matched_value:
  assumes "optimize c ws = Inr ex" "flatten_laws L" "clauses_plain L ws"
    and "\<forall>w\<in>set ws. wOp w = WEq \<longrightarrow> gjGet L d (wField w) = Some (wValue w)"
    and "entry_of L (eIndex ex) gs d" "k \<in> set (iFields (eIndex ex))"
  shows "map_of (flat_fields L (eMatchedValues ex)) k
    = (if k \<in> set (eMatchedFields ex) then map_of (flat_fields L gs) k else None)"
proof -
  have flatv: "map_of (flat_fields L (eMatchedValues ex)) = map_of (eMatchedValues ex)"
    using assms(2,3) opt_values_in [OF assms(1)]
    by (intro flat_fields_scalar) (auto simp: clauses_plain_def)
  show ?thesis
  proof (cases "k \<in> set (eMatchedFields ex)")
    case True
    obtain w where w: "w \<in> set ws" "wField w = k" "wOp w = WEq"
      using opt_matched [OF assms(1) True] by blast
    have "last_value ws k = Some (wValue w)"
      using last_value_distinct [of ws w] w assms(3) by (simp add: clauses_plain_def)
    moreover have "gjGet L d k = Some (wValue w)" using assms(4) w by blast
    ultimately show ?thesis
      using assms(5,6) True by (simp add: flatv opt_values [OF assms(1)] entry_of_def)
  qed (simp add: flatv opt_values [OF assms(1)])
qed

text \<open>
  When the matched fields are the first fields of the index, the scan's prefix covers the
  entry of every document that has the values of the equality clauses.
\<close>

lemma covers:
  assumes opt: "optimize c ws = Inr ex" and flat: "flatten_laws L" and plain: "clauses_plain L ws"
    and matched: "set (eMatchedFields ex) = set (take n (iFields (eIndex ex)))" "distinct (iFields (eIndex ex))"
    and pass: "\<forall>w\<in>set ws. wOp w = WEq \<longrightarrow> gjGet L d (wField w) = Some (wValue w)"
    and entry: "entry_of L (eIndex ex) gs d"
  shows "prefix (scan_key L ns coll (eIndex ex) (eMatchedValues ex)) (entry_key L ns coll (eIndex ex) gs docID)"
proof (rule scan_key_covers)
  show "map_of (flat_fields L (eMatchedValues ex)) k = map_of (flat_fields L gs) k"
    if k: "k \<in> set (take n (iFields (eIndex ex)))" for k
    using matched_value [OF opt flat plain pass entry, of k] matched(1) k in_set_takeD [OF k] by simp
  show "map_of (flat_fields L (eMatchedValues ex)) k = None" if k: "k \<in> set (drop n (iFields (eIndex ex)))" for k
  proof -
    have "k \<notin> set (take n (iFields (eIndex ex)))"
      using k set_take_disj_set_drop_if_distinct [OF matched(2), of n n] by blast
    then show ?thesis
      using matched_value [OF opt flat plain pass entry, of k] matched(1) in_set_dropD [OF k] by simp
  qed
qed

text \<open>An equality scan therefore meets that entry.\<close>

lemma scan_meets:
  assumes "optimize c ws = Inr ex" "flatten_laws L" "clauses_plain L ws"
    and "set (eMatchedFields ex) = set (take n (iFields (eIndex ex)))" "distinct (iFields (eIndex ex))"
    and pass: "doc_where L d ws = Inr True" and entry: "entry_of L (eIndex ex) gs d"
    and "eSeekFields ex = []" "\<not> eReverse ex"
    and "sorted (map fst kvs)" "(entry_key L ns coll (eIndex ex) gs docID, v) \<in> set kvs"
  shows "(entry_key L ns coll (eIndex ex) gs docID, v) \<in> set (kv_scan (scan_opts L ns coll ex) kvs)"
proof -
  have "scan_opts L ns coll ex = \<lparr>Prefix = Some (scan_key L ns coll (eIndex ex) (eMatchedValues ex)),
      UpperBound = None, Seek = Some (scan_key L ns coll (eIndex ex) (eMatchedValues ex)), Reverse = False\<rparr>"
    using assms(8,9) by (simp add: scan_opts_def seek_path_def scan_key_def)
  moreover have "\<forall>w\<in>set ws. wOp w = WEq \<longrightarrow> gjGet L d (wField w) = Some (wValue w)"
    using eq_clause_value [of L d] doc_where_Continue [OF pass] assms(3) by (simp add: clauses_plain_def)
  ultimately show ?thesis
    using covers [OF assms(1-5) _ entry] assms(11) by (simp add: kv_scan_prefix [OF assms(10)])
qed

text \<open>
  A range scan on the last index field, when all the fields before it are matched: which of
  the entries with these values the scan meets depends on the two numbers alone.
\<close>

lemma range_scan:
  assumes opt: "optimize c ws = Inr ex" and laws: "cast_laws L" "flatten_laws L" and plain: "clauses_plain L ws"
    and idx: "iFields (eIndex ex) = fs @ [f]" "distinct (fs @ [f])" "set (eMatchedFields ex) = set fs"
      "eSeekFields ex = [f]"
    and bound: "last_value ws f = Some (ANum k (of_nat m))" "k \<in> set index_number_kinds" "m < 2 ^ 64"
    and eqs: "\<forall>w\<in>set ws. wOp w = WEq \<longrightarrow> gjGet L d (wField w) = Some (wValue w)"
    and entry: "entry_of L (eIndex ex) gs d"
    and val: "gjGet L d f = Some (ANum l (of_nat n))" "l \<in> set index_number_kinds" "n < 2 ^ 64"
    and kvs: "sorted (map fst kvs)" "(entry_key L ns coll (eIndex ex) gs docID, v) \<in> set kvs"
  shows "(entry_key L ns coll (eIndex ex) gs docID, v) \<in> set (kv_scan (scan_opts L ns coll ex) kvs)
    \<longleftrightarrow> (if eReverse ex then n < m else m \<le> n)"
proof -
  let ?i = "eIndex ex"
  let ?H = "[ns, ''index'', coll, iName ?i] @ field_segments L (flat_fields L gs) fs"
  let ?p = "join0 ?H" and ?em = "put_uint64 (of_nat m)" and ?en = "put_uint64 (of_nat n)"
  note mv = matched_value [OF opt laws(2) plain eqs entry]
  have "field_segments L (flat_fields L (eMatchedValues ex)) fs = field_segments L (flat_fields L gs) fs"
    by (rule field_segments_cong) (use mv idx in simp)
  then have ipf: "field_segments L (flat_fields L (eMatchedValues ex)) (iFields ?i) = field_segments L (flat_fields L gs) fs"
    using mv [of f] idx by (simp add: field_segments_append)
  then have scan: "ip_Path L (seekPrefix L ns coll ?i (eMatchedValues ex)) = ?p"
    by (simp add: ip_Path_def seekPrefix_eq)
  have encm: "EncodeIndexValue L (ANum k (of_nat m)) = ?em" and encn: "EncodeIndexValue L (ANum l (of_nat n)) = ?en"
    using bound val laws(1) by (simp_all add: EncodeIndexValue_def)
  have seekv: "map_of (eSeekValues ex) f = Some (ANum k (of_nat m))"
    using idx bound by (simp add: opt_seek_values [OF opt])
  have "ip_Path L (seek_path L ns coll ex) = join0 (?H @ [f, ?em])"
    by (simp add: seek_path_def idx(4) seekv ip_Append_def ip_Path_def seekPrefix_eq ipf encm)
  also have "\<dots> = ?p @ nul # f @ nul # ?em" by (subst join0_append) simp_all
  finally have sk: "ip_Path L (seek_path L ns coll ex) = (?p @ nul # f @ [nul]) @ ?em" by simp
  have "entry_key L ns coll ?i gs docID = join0 (?H @ [f, ?en, docID])"
    using entry val(1) by (simp add: entry_key_eq idx(1) field_segments_append entry_of_def encn)
  also have "\<dots> = ?p @ nul # f @ nul # ?en @ nul # docID" by (subst join0_append) simp_all
  finally have ek: "entry_key L ns coll ?i gs docID = (?p @ nul # f @ [nul]) @ ?en @ (nul # docID)" by simp
  have less: "(of_nat m :: 64 word) \<le> of_nat n \<longleftrightarrow> m \<le> n" "(of_nat n :: 64 word) < of_nat m \<longleftrightarrow> n < m"
    using bound(3) val(3) by (simp_all add: word_le_nat_alt word_less_nat_alt unsigned_of_nat take_bit_nat_eq_self)
  show ?thesis
  proof (cases "eReverse ex")
    case True
    then show ?thesis
      using kvs(2) uint64_key.seek_back [of "nul # docID" "?p @ nul # f @ [nul]" "of_nat n" "of_nat m"]
      unfolding scan_opts_def scan sk ek by (simp add: kv_scan_reverse [OF kvs(1)] less)
  next
    case False
    then show ?thesis
      using kvs(2) uint64_key.seek_from [of "?p @ nul # f @ [nul]" "of_nat m" "of_nat n" "nul # docID"]
      unfolding scan_opts_def scan sk ek by (simp add: kv_scan_seek [OF kvs(1)] less)
  qed
qed

end

lemma AList_update_values: "snd ` set (AList.update k v m) \<subseteq> insert v (snd ` set m)"
  by (induction m) auto

lemma getMatchedFieldValues_in: "snd ` set (getMatchedFieldValues fs ws) \<subseteq> wValue ` set ws"
proof -
  have one: "snd ` set (fold (\<lambda>w m. if wField w \<noteq> f then m else AList.update (wField w) (wValue w) m) vs m)
      \<subseteq> snd ` set m \<union> wValue ` set vs" for f vs and m :: "any kvs"
  proof (induction vs arbitrary: m)
    case (Cons w vs)
    have "snd ` set (if wField w \<noteq> f then m else AList.update (wField w) (wValue w) m) \<subseteq> insert (wValue w) (snd ` set m)"
      using AList_update_values [of "wField w" "wValue w" m] by auto
    with Cons [of "if wField w \<noteq> f then m else AList.update (wField w) (wValue w) m"] show ?case
      by (simp only: fold_simps list.set image_insert) blast
  qed simp
  have "snd ` set (fold (\<lambda>f m. fold (\<lambda>w m. if wField w \<noteq> f then m else AList.update (wField w) (wValue w) m) ws m) fs m)
      \<subseteq> snd ` set m \<union> wValue ` set ws" for m :: "any kvs"
  proof (induction fs arbitrary: m)
    case (Cons f fs)
    then show ?case using one [of f ws m] by force
  qed simp
  from this [of "[]"] show ?thesis by (simp add: getMatchedFieldValues_def)
qed

interpretation default_optimizer: index_optimizer Optimize
proof
  fix c :: "'r schema" and ws ex f
  assume opt: "Optimize c ws = Inr ex"
  from opt show "map_of (eMatchedValues ex) f = (if f \<in> set (eMatchedFields ex) then last_value ws f else None)"
    by (cases rule: Optimize_cases) (auto simp: defaultExplain_def map_of_matched)
  from opt show "map_of (eSeekValues ex) f = (if f \<in> set (eSeekFields ex) then last_value ws f else None)"
    by (cases rule: Optimize_cases) (auto simp: defaultExplain_def map_of_matched)
  from opt show "snd ` set (eMatchedValues ex) \<subseteq> wValue ` set ws"
  proof (cases rule: Optimize_cases)
    case default
    then show ?thesis by (simp add: defaultExplain_def)
  next
    case (primary w ws')
    then show ?thesis using getMatchedFieldValues_in [of "[PrimaryKey c]" ws] by simp
  next
    case index
    show ?thesis unfolding index(5) by (rule getMatchedFieldValues_in)
  qed
  assume f: "f \<in> set (eMatchedFields ex)"
  from opt show "\<exists>w\<in>set ws. wField w = f \<and> wOp w = WEq"
  proof (cases rule: Optimize_cases)
    case default
    with f show ?thesis by (simp add: defaultExplain_def)
  next
    case (primary w ws')
    with f show ?thesis by simp
  next
    case index
    obtain m s r where m: "match_fields (iFields (eIndex ex)) ws = (m, s, r)"
      by (cases "match_fields (iFields (eIndex ex)) ws")
    with index(4) have "eMatchedFields ex = Uniq m" by (simp add: index_matches_def)
    with f m match_fields_matched [of f "iFields (eIndex ex)" ws] show ?thesis by simp
  qed
qed


lemma entry_of_flat [simp]: "entry_of flat_json i d d"
  by (simp add: entry_of_def flat_fields_def flat_json_def)

subsection \<open>What the scans of the default optimizer visit\<close>

text \<open>
  C11: when the fields matched by the default optimizer are the leading fields of the index it
  chose, the scan of the key-value store visits the entry of every stored document that
  passes the where clauses: no result is lost by using the index.
\<close>

theorem index_scan_complete:
  assumes "Optimize c ws = Inr ex" and "flatten_laws L" and "clauses_plain L ws"
    and "set (eMatchedFields ex) = set (take n (iFields (eIndex ex)))" and "distinct (iFields (eIndex ex))"
    and "eSeekFields ex = []" and "\<not> eReverse ex"
    and "doc_where L d ws = Inr True" and "entry_of L (eIndex ex) gs d"
    and "sorted (map fst kvs)" and "(entry_key L ns coll (eIndex ex) gs docID, v) \<in> set kvs"
  shows "(entry_key L ns coll (eIndex ex) gs docID, v) \<in> set (kv_scan (scan_opts L ns coll ex) kvs)"
  using assms by (intro default_optimizer.scan_meets)

definition age_index :: index_c where
  "age_index = no_index\<lparr>iName := ''age_idx'', iFields := [''age'']\<rparr>"

definition age_eq :: "where_c list" where
  "age_eq = [\<lparr>wField = ''age'', wOp = WEq, wValue = AStr ''x''\<rparr>]"

definition age_eq_explain :: explain where
  "age_eq_explain = \<lparr>eCollection = ''user'', eIndex = age_index, eMatchedFields = [''age''],
     eMatchedValues = [(''age'', AStr ''x'')], eSeekFields = [], eSeekValues = [], eReverse = False\<rparr>"

theorem index_scan_complete_witness:
  "(entry_key flat_json ''default'' ''user'' age_index [(''age'', AStr ''x'')] ''u1'', ())
     \<in> set (kv_scan (scan_opts flat_json ''default'' ''user'' age_eq_explain)
         [(entry_key flat_json ''default'' ''user'' age_index [(''age'', AStr ''x'')] ''u1'', ())])"
proof -
  have opt: "Optimize two_index age_eq = Inr age_eq_explain"
    by (simp add: Optimize_def two_index_def Indexing_map_def consider_index_def index_matches_def
        no_index_def age_eq_def age_index_def age_eq_explain_def getMatchedFieldValues_def)
  have plain: "clauses_plain flat_json age_eq"
    by (simp add: clauses_plain_def age_eq_def flat_json_def HasPrefix_def selfRefPrefix_def)
  have pass: "doc_where flat_json [(''age'', AStr ''x'')] age_eq = Inr True"
    by (simp add: age_eq_def where_clause_def Let_def doc_get_def flat_json_def eq_rejects_def iface_neq_def
        iface_eq_def or_else_def null_text_def HasPrefix_def selfRefPrefix_def)
  have i: "eIndex age_eq_explain = age_index" by (simp add: age_eq_explain_def)
  show ?thesis
    using index_scan_complete [OF opt flat_json_flatten plain, where n = 1 and d = "[(''age'', AStr ''x'')]"
        and gs = "[(''age'', AStr ''x'')]" and docID = "''u1''" and ns = "''default''" and coll = "''user''"
        and v = "()" and kvs = "[(entry_key flat_json ''default'' ''user'' age_index [(''age'', AStr ''x'')] ''u1'', ())]"]
      pass
    by (simp add: i) (simp add: age_eq_explain_def age_index_def)
qed

text \<open>
  A range scan on the last index field below fully matched leading fields: forwards it
  visits exactly the entries whose number is at least the bound, backwards exactly those
  whose number is strictly below it. Backwards scans serve both \<open>lt\<close> and \<open>lte\<close>, so a document
  whose value equals an \<open>lte\<close> bound is not visited although it passes the clause.
\<close>

lemma range_scan_visits:
  assumes "Optimize c ws = Inr ex" and "cast_laws L" and "flatten_laws L" and "clauses_plain L ws"
    and "iFields (eIndex ex) = fs @ [f]" and "distinct (fs @ [f])" and "set (eMatchedFields ex) = set fs"
    and "eSeekFields ex = [f]"
    and "last_value ws f = Some (ANum k (of_nat m))" and "k \<in> set index_number_kinds" and "m < 2 ^ 64"
    and "\<forall>w\<in>set ws. wOp w = WEq \<longrightarrow> gjGet L d (wField w) = Some (wValue w)"
    and "entry_of L (eIndex ex) gs d"
    and "gjGet L d f = Some (ANum l (of_nat n))" and "l \<in> set index_number_kinds" and "n < 2 ^ 64"
    and "sorted (map fst kvs)" and "(entry_key L ns coll (eIndex ex) gs docID, v) \<in> set kvs"
  shows "(entry_key L ns coll (eIndex ex) gs docID, v) \<in> set (kv_scan (scan_opts L ns coll ex) kvs)
    \<longleftrightarrow> (if eReverse ex then n < m else m \<le> n)"
  using assms by (intro default_optimizer.range_scan)

definition age_lte :: "where_c list" where
  "age_lte = [\<lparr>wField = ''age'', wOp = WLte, wValue = AFloat (of_nat 3)\<rparr>]"

definition age_explain :: explain where
  "age_explain = \<lparr>eCollection = ''user'', eIndex = age_index, eMatchedFields = [], eMatchedValues = [],
     eSeekFields = [''age''], eSeekValues = [(''age'', AFloat (of_nat 3))], eReverse = True\<rparr>"

lemma Optimize_age_lte: "Optimize two_index age_lte = Inr age_explain"
  by (simp add: Optimize_def two_index_def Indexing_map_def consider_index_def index_matches_def
      no_index_def age_lte_def age_index_def age_explain_def getMatchedFieldValues_def)

lemma range_scan_visits_witness:
  "doc_where flat_json [(''age'', AFloat 3)] age_lte = Inr True \<and>
   (entry_key flat_json ''default'' ''user'' age_index [(''age'', AFloat 3)] ''u1'', ())
     \<notin> set (kv_scan (scan_opts flat_json ''default'' ''user'' age_explain)
         [(entry_key flat_json ''default'' ''user'' age_index [(''age'', AFloat 3)] ''u1'', ())])"
proof
  have "\<not> prefix ''$'' (show_rat 3)" by code_simp
  then show "doc_where flat_json [(''age'', AFloat 3)] age_lte = Inr True"
    by (simp add: age_lte_def where_clause_def Let_def doc_get_def GetFloat_def flat_json_def
        HasPrefix_def selfRefPrefix_def)
  have i: "eIndex age_explain = age_index" by (simp add: age_explain_def)
  have plain: "clauses_plain flat_json age_lte"
    by (simp add: clauses_plain_def age_lte_def)
  have "(entry_key flat_json ''default'' ''user'' (eIndex age_explain) [(''age'', AFloat (of_nat 3))] ''u1'', ())
     \<in> set (kv_scan (scan_opts flat_json ''default'' ''user'' age_explain)
         [(entry_key flat_json ''default'' ''user'' (eIndex age_explain) [(''age'', AFloat (of_nat 3))] ''u1'', ())])
    \<longleftrightarrow> (if eReverse age_explain then 3 < (3::nat) else 3 \<le> (3::nat))"
    by (rule range_scan_visits [OF Optimize_age_lte flat_json_cast flat_json_flatten plain, where fs = "[]" and f = "''age''"
          and k = KFloat64 and l = KFloat64 and d = "[(''age'', AFloat (of_nat 3))]"])
      (simp_all add: age_explain_def age_index_def age_lte_def index_number_kinds_def, simp_all add: flat_json_def)
  then show "(entry_key flat_json ''default'' ''user'' age_index [(''age'', AFloat 3)] ''u1'', ())
     \<notin> set (kv_scan (scan_opts flat_json ''default'' ''user'' age_explain)
         [(entry_key flat_json ''default'' ''user'' age_index [(''age'', AFloat 3)] ''u1'', ())])"
    by (simp add: i) (simp add: age_explain_def)
qed


text \<open>
  When the chosen index has a matched field but its leading field is not matched, the
  scan's prefix skips the leading field, and the entry of every document that has a value
  there is missed, whether or not the document passes the clauses.
\<close>

lemma gap_scan_misses:
  assumes "Optimize c ws = Inr ex" and "flatten_laws L" and "clauses_plain L ws"
    and "iFields (eIndex ex) = k # ks" and "k \<notin> set (eMatchedFields ex)" and "k \<notin> set ks"
    and "l \<in> set ks" and "l \<in> set (eMatchedFields ex)" and "eSeekFields ex = []" and "\<not> eReverse ex"
    and "\<forall>w\<in>set ws. wOp w = WEq \<longrightarrow> gjGet L d (wField w) = Some (wValue w)"
    and "entry_of L (eIndex ex) gs d" and "gjGet L d k \<noteq> None"
    and "\<forall>f\<in>set (iFields (eIndex ex)). nul \<notin> set f" and "sorted (map fst kvs)"
  shows "(entry_key L ns coll (eIndex ex) gs docID, v) \<notin> set (kv_scan (scan_opts L ns coll ex) kvs)"
proof -
  note mv = default_optimizer.matched_value [OF assms(1-3,11,12)]
  obtain w where w: "w \<in> set ws" "wField w = l" "wOp w = WEq"
    using default_optimizer.opt_matched [OF assms(1,8)] by blast
  have "gjGet L d l = Some (wValue w)" using assms(11) w by blast
  then have l: "map_of (flat_fields L (eMatchedValues ex)) l = Some (wValue w)"
    using mv [of l] assms(4,7,8,12) by (simp add: entry_of_def)
  obtain u where u: "map_of (flat_fields L gs) k = Some u"
    using assms(4,12,13) by (auto simp: entry_of_def)
  have "\<not> prefix (scan_key L ns coll (eIndex ex) (eMatchedValues ex)) (entry_key L ns coll (eIndex ex) gs docID)"
    using scan_key_misses [OF assms(4) _ u assms(7) l assms(6,14)] mv [of k] assms(4,5) by simp
  moreover have "scan_opts L ns coll ex = \<lparr>Prefix = Some (scan_key L ns coll (eIndex ex) (eMatchedValues ex)),
      UpperBound = None, Seek = Some (scan_key L ns coll (eIndex ex) (eMatchedValues ex)), Reverse = False\<rparr>"
    using assms(9,10) by (simp add: scan_opts_def seek_path_def scan_key_def)
  ultimately show ?thesis by (simp add: kv_scan_prefix [OF assms(15)])
qed

definition pair_index :: index_c where
  "pair_index = no_index\<lparr>iName := ''pair_idx'', iFields := [''a'', ''b'']\<rparr>"

definition pair_schema :: "any kvs schema" where
  "pair_schema = two_index\<lparr>scIndexing := [(''pk'', scPrimaryIndex two_index), (''pair_idx'', pair_index)]\<rparr>"

definition gap_query :: "where_c list" where
  "gap_query = [\<lparr>wField = ''c'', wOp = WEq, wValue = AStr ''z''\<rparr>, \<lparr>wField = ''b'', wOp = WEq, wValue = AStr ''y''\<rparr>]"

definition gap_doc :: "any kvs" where
  "gap_doc = [(''a'', AStr ''x''), (''b'', AStr ''y''), (''c'', AStr ''z'')]"

definition gap_explain :: explain where
  "gap_explain = \<lparr>eCollection = ''user'', eIndex = pair_index, eMatchedFields = [''b''],
     eMatchedValues = [(''b'', AStr ''y'')], eSeekFields = [], eSeekValues = [], eReverse = False\<rparr>"

lemma gap_scan_misses_witness:
  "Optimize pair_schema gap_query = Inr gap_explain \<and> doc_where flat_json gap_doc gap_query = Inr True \<and>
   (entry_key flat_json ''default'' ''user'' pair_index gap_doc ''u1'', ())
     \<notin> set (kv_scan (scan_opts flat_json ''default'' ''user'' gap_explain)
         [(entry_key flat_json ''default'' ''user'' pair_index gap_doc ''u1'', ())])"
proof (intro conjI)
  show opt: "Optimize pair_schema gap_query = Inr gap_explain"
    by (simp add: Optimize_def two_index_def Indexing_map_def consider_index_def index_matches_def pair_schema_def
        no_index_def gap_query_def pair_index_def gap_explain_def getMatchedFieldValues_def)
  show "doc_where flat_json gap_doc gap_query = Inr True"
    by (simp add: gap_query_def gap_doc_def where_clause_def Let_def doc_get_def flat_json_def eq_rejects_def
        iface_neq_def iface_eq_def or_else_def null_text_def HasPrefix_def selfRefPrefix_def)
  have plain: "clauses_plain flat_json gap_query"
    by (simp add: clauses_plain_def gap_query_def flat_json_def HasPrefix_def selfRefPrefix_def)
  have i: "eIndex gap_explain = pair_index" by (simp add: gap_explain_def)
  show "(entry_key flat_json ''default'' ''user'' pair_index gap_doc ''u1'', ())
     \<notin> set (kv_scan (scan_opts flat_json ''default'' ''user'' gap_explain)
         [(entry_key flat_json ''default'' ''user'' pair_index gap_doc ''u1'', ())])"
    by (rule gap_scan_misses [OF opt flat_json_flatten plain, where k = "''a''" and l = "''b''" and ks = "[''b'']"
          and d = gap_doc, unfolded i])
      (simp_all add: gap_explain_def pair_index_def, simp_all add: gap_query_def gap_doc_def flat_json_def)
qed

end
