(* ===== verification/KvUtil.thy ===== *)
theory KvUtil
  imports Prelude
begin

text \<open>
  \<open>kv/kvutil/util.go\<close>: \<open>NextPrefix\<close>, the exclusive upper bound that the TiKV iterator
  derives from a key. The loop walks the buffer from its last byte, increments with
  wrap-around at 256 and stops at the first byte that did not wrap.
\<close>

definition inc_byte :: "char \<Rightarrow> char" where
  "inc_byte c = char_of ((of_char c + 1 :: nat) mod 256)"

text \<open>
  \<open>np_loop n buf\<close> is the loop entered with \<open>i = n - 1\<close>; \<^term>\<open>None\<close> is the exit with
  \<open>i = -1\<close>, after which the code returns an empty buffer.
\<close>

fun np_loop :: "nat \<Rightarrow> bytes \<Rightarrow> bytes option" where
  "np_loop 0 buf = None"
| "np_loop (Suc i) buf =
     (let b = inc_byte (buf ! i); buf' = buf[i := b]
      in if b \<noteq> nul then Some buf' else np_loop i buf')"

definition NextPrefix :: "bytes \<Rightarrow> bytes" where
  "NextPrefix pre = (case np_loop (length pre) pre of Some buf \<Rightarrow> buf | None \<Rightarrow> [])"

definition max_byte :: char where
  "max_byte = CHR 0xFF"

lemma of_char_inc: "c \<noteq> max_byte \<Longrightarrow> (of_char (inc_byte c) :: nat) = of_char c + 1"
proof -
  assume "c \<noteq> max_byte"
  then have "(of_char c :: nat) \<noteq> of_char max_byte" by simp
  moreover have "(of_char max_byte :: nat) = 255" by (simp add: max_byte_def)
  moreover have "(of_char c :: nat) < 256" by (rule nat_of_char_less_256)
  ultimately have "(of_char c :: nat) + 1 < 256" by linarith
  then show ?thesis by (simp add: inc_byte_def)
qed

lemma inc_byte_max [simp]: "inc_byte max_byte = nul"
proof -
  have "(of_char (inc_byte max_byte) :: nat) = of_char nul"
    by (simp add: inc_byte_def max_byte_def)
  then show ?thesis by (simp only: of_char_eq_iff)
qed

lemma inc_byte_nul_iff: "inc_byte c = nul \<longleftrightarrow> c = max_byte"
proof
  assume "inc_byte c = nul"
  then have "(of_char (inc_byte c) :: nat) = 0" by simp
  then show "c = max_byte" using of_char_inc [of c] by fastforce
qed simp

lemma less_inc_byte: "c \<noteq> max_byte \<Longrightarrow> c < inc_byte c"
  using of_char_inc by (simp add: less_char_def)

lemma inc_byte_least: "c < d \<Longrightarrow> inc_byte c \<le> d"
proof -
  assume a: "c < d"
  have "c \<noteq> max_byte"
  proof
    assume "c = max_byte"
    then have "(255::nat) < of_char d" using a by (simp add: less_char_def max_byte_def)
    then show False using nat_of_char_less_256 [of d] by linarith
  qed
  then show ?thesis using a of_char_inc [of c] by (simp add: less_char_def less_eq_char_def)
qed

text \<open>The loop in closed form: a maximal tail of bytes 255 becomes zeros, the byte before it is incremented.\<close>

lemma np_loop_tail:
  "np_loop (length q + n) (q @ replicate n max_byte @ zs) = np_loop (length q) (q @ replicate n nul @ zs)"
proof (induction n arbitrary: zs)
  case 0
  show ?case by simp
next
  case (Suc n)
  have tail: "replicate (Suc n) b @ zs = replicate n b @ b # zs" for b
    using replicate_append_same [of n b] by simp
  have "np_loop (length q + Suc n) (q @ replicate n max_byte @ max_byte # zs)
      = np_loop (length q + n) (q @ replicate n max_byte @ nul # zs)"
    by (simp add: nth_append list_update_append Let_def)
  also have "\<dots> = np_loop (length q) (q @ replicate n nul @ nul # zs)"
    by (rule Suc)
  finally show ?case unfolding tail .
qed

lemma np_loop_step:
  "c \<noteq> max_byte \<Longrightarrow>
   np_loop (length q + Suc n) (q @ c # replicate n max_byte) = Some (q @ inc_byte c # replicate n nul)"
  using np_loop_tail [of "q @ [c]" n "[]"]
  by (simp add: Let_def nth_append list_update_append inc_byte_nul_iff)

lemma np_loop_all_max: "np_loop n (replicate n max_byte) = None"
  using np_loop_tail [of "[]" n "[]"] by simp

lemma max_tail: "\<exists>q n. p = q @ replicate n max_byte \<and> (q = [] \<or> last q \<noteq> max_byte)"
proof (induction p rule: rev_induct)
  case Nil
  show ?case by simp
next
  case (snoc c p)
  show ?case
  proof (cases "c = max_byte")
    case True
    from snoc obtain q n where "p = q @ replicate n max_byte" "q = [] \<or> last q \<noteq> max_byte"
      by blast
    then have "p @ [c] = q @ replicate (Suc n) max_byte"
      by (simp add: True replicate_append_same)
    with \<open>q = [] \<or> last q \<noteq> max_byte\<close> show ?thesis by blast
  next
    case False
    then have "p @ [c] = (p @ [c]) @ replicate 0 max_byte \<and> last (p @ [c]) \<noteq> max_byte" by simp
    then show ?thesis by blast
  qed
qed

lemma NextPrefix_cases:
  obtains (all_max) "pre = replicate (length pre) max_byte" "NextPrefix pre = []"
  | (incr) q c n where "pre = q @ c # replicate n max_byte" "c \<noteq> max_byte"
      "NextPrefix pre = q @ inc_byte c # replicate n nul"
proof -
  obtain q n where p: "pre = q @ replicate n max_byte" "q = [] \<or> last q \<noteq> max_byte"
    using max_tail by blast
  show ?thesis
  proof (cases q rule: rev_cases)
    case Nil
    then show ?thesis
      using p all_max np_loop_all_max [of n] by (simp add: NextPrefix_def)
  next
    case (snoc r c)
    then have "np_loop (length pre) pre = Some (r @ inc_byte c # replicate n nul)"
      using p np_loop_step [of c r n] by auto
    then show ?thesis using incr [of r c n] p snoc by (simp add: NextPrefix_def)
  qed
qed

lemma le_append_common: "(q @ x :: string) \<le> q @ y \<longleftrightarrow> x \<le> y"
  by (induction q) auto

lemma less_append_common: "(q @ x :: string) < q @ y \<longleftrightarrow> x < y"
  by (induction q) auto

lemma max_tail_le: "replicate n max_byte \<le> (k :: string) \<Longrightarrow> n \<le> length k \<Longrightarrow> prefix (replicate n max_byte) k"
proof (induction n arbitrary: k)
  case 0
  then show ?case by simp
next
  case (Suc n)
  then obtain d u where k: "k = d # u" by (cases k) auto
  have "\<not> max_byte < d"
  proof -
    have "(of_char d :: nat) \<le> 255" using nat_of_char_less_256 [of d] by linarith
    then show ?thesis by (simp add: less_char_def max_byte_def)
  qed
  with Suc show ?case by (auto simp: k)
qed

lemma le_nul_tail: "(k :: string) < replicate n nul \<Longrightarrow> length k < n"
proof (induction n arbitrary: k)
  case 0
  then show ?case by simp
next
  case (Suc n)
  have "\<not> c < nul" for c by (simp add: less_char_def)
  with Suc show ?case by (cases k) auto
qed



text \<open>
  The function's comment promises a larger value; for a key whose bytes are all 255
  (the empty key among them) the result is empty, which is the smallest key of all.
\<close>

lemma NextPrefix_all_max: "NextPrefix (replicate n max_byte) = []"
  using np_loop_all_max [of n] by (simp add: NextPrefix_def)

end
