(* ===== verification/QueryOps.thy ===== *)
theory QueryOps
  imports DocumentLaws
begin

text \<open>
  The operations on result lists: \<open>compareField\<close>, \<open>orderByDocs\<close>, \<open>groupByDocs\<close>,
  \<open>aggregateDocs\<close>, \<open>selectDocument\<close> of \<open>util.go\<close>, \<open>docsHaving\<close> and the paging of
  \<open>tx.go\<close>, \<open>RemoveElement\<close> of \<open>util/util.go\<close>. \<open>sort.Slice\<close> is the insertion sort that
  package \<open>sort\<close> runs on up to twelve elements, with a comparison that may panic.
\<close>

subsection \<open>Ordering\<close>

definition compareField :: "('r, 'z) json_lib_scheme \<Rightarrow> string \<Rightarrow> 'r \<Rightarrow> 'r \<Rightarrow> bool" where
  "compareField L field i j = (case doc_get L i field of
     ATime t \<Rightarrow> ToTime L (doc_get L j field) < t
   | ABool b \<Rightarrow> b \<and> \<not> ToBool L (doc_get L j field)
   | ANum k x \<Rightarrow> (if k = KFloat64 then ToFloat64 L (doc_get L j field) < x
       else JSONString L (doc_get L j field) < JSONString L (doc_get L i field))
   | AStr s \<Rightarrow> ToString L (doc_get L j field) < s
   | v \<Rightarrow> JSONString L (doc_get L j field) < JSONString L v)"

fun order_less :: "('r, 'z) json_lib_scheme \<Rightarrow> order_by list \<Rightarrow> 'r \<Rightarrow> 'r \<Rightarrow> bool res" where
  "order_less L [] i j = Inr False"
| "order_less L (orderBy # orderBys) i j =
     rbind (iface_neq (doc_get L i (obField orderBy)) (doc_get L j (obField orderBy))) (\<lambda>ne.
       if ne then Inr (if obDirection orderBy = Desc then compareField L (obField orderBy) i j
                       else \<not> compareField L (obField orderBy) i j)
       else order_less L orderBys i j)"

text \<open>The sorted part is held in reverse: the new element moves left while it is less.\<close>

fun sort_insert :: "('a \<Rightarrow> 'a \<Rightarrow> bool res) \<Rightarrow> 'a \<Rightarrow> 'a list \<Rightarrow> 'a list res" where
  "sort_insert lt x [] = Inr [x]"
| "sort_insert lt x (y # ys) = rbind (lt x y) (\<lambda>b.
     if b then rbind (sort_insert lt x ys) (\<lambda>zs. Inr (y # zs)) else Inr (x # y # ys))"

definition sort_Slice :: "('a \<Rightarrow> 'a \<Rightarrow> bool res) \<Rightarrow> 'a list \<Rightarrow> 'a list res" where
  "sort_Slice lt xs = rbind (rfold (sort_insert lt) xs []) (\<lambda>ys. Inr (rev ys))"

definition orderByDocs :: "('r, 'z) json_lib_scheme \<Rightarrow> order_by list \<Rightarrow> 'r list \<Rightarrow> 'r list res" where
  "orderByDocs L orderBys d = (if orderBys = [] then Inr d else sort_Slice (order_less L orderBys) d)"

subsection \<open>Grouping and aggregates\<close>

definition group_key :: "('r, 'z) json_lib_scheme \<Rightarrow> string list \<Rightarrow> 'r \<Rightarrow> string" where
  "group_key L fs d = JoinStr ''.'' (map (\<lambda>g. ToString L (doc_get L d g)) fs)"

definition groupByDocs :: "('r, 'z) json_lib_scheme \<Rightarrow> string list \<Rightarrow> 'r list \<Rightarrow> ('r list) kvs" where
  "groupByDocs L fs documents = fold (\<lambda>d grouped.
     AList.update (group_key L fs d)
       ((case map_of grouped (group_key L fs d) of Some ds \<Rightarrow> ds | None \<Rightarrow> []) @ [d]) grouped) documents []"

definition applyNonAggregates :: "('r, 'z) json_lib_scheme \<Rightarrow> 'r \<Rightarrow> select_c \<Rightarrow> 'r \<Rightarrow> 'r res" where
  "applyNonAggregates L next selct aggregated =
     (let val = doc_get L next (sField selct)
      in if sAs selct = [] then doc_set L (sField selct) val aggregated else doc_set L (sAs selct) val aggregated)"

definition applyAggregates :: "('r, 'z) json_lib_scheme \<Rightarrow> 'r \<Rightarrow> select_c \<Rightarrow> 'r \<Rightarrow> 'r res" where
  "applyAggregates L next agg aggregated =
     (let current = GetFloat L aggregated (sAs agg); val = GetFloat L next (sField agg);
          store = (\<lambda>x. doc_set L (sAs agg) (AFloat x) aggregated)
      in case sAggregate agg of
        AggCount \<Rightarrow> store (float_add current 1)
      | AggMax \<Rightarrow> store (if val > current then val else current)
      | AggMin \<Rightarrow> store (if val < current then val else current)
      | AggSum \<Rightarrow> store (float_add current val)
      | a \<Rightarrow> fail Validation (''unsupported aggregate function: '' @ sField agg @ ''/'' @ agg_text a))"

definition with_alias :: "select_c \<Rightarrow> select_c" where
  "with_alias agg = (if sAs agg = [] then agg\<lparr>sAs := defaultAs (sAggregate agg) (sField agg)\<rparr> else agg)"

definition aggregate_step :: "('r, 'z) json_lib_scheme \<Rightarrow> select_c list \<Rightarrow> 'r \<Rightarrow> 'r option \<Rightarrow> 'r option res" where
  "aggregate_step L selects next aggregated =
     rbind (case aggregated of
         Some a \<Rightarrow> if doc_valid L a then Inr a
           else rfold (applyNonAggregates L next) (filter (\<lambda>s. sAggregate s = NoAgg) selects) (emptyJSON L)
       | None \<Rightarrow> rfold (applyNonAggregates L next) (filter (\<lambda>s. sAggregate s = NoAgg) selects) (emptyJSON L))
     (\<lambda>a. rbind (rfold (\<lambda>agg. applyAggregates L next (with_alias agg))
            (filter (\<lambda>s. sAggregate s \<noteq> NoAgg) selects) a) (\<lambda>b. Inr (Some b)))"

definition aggregateDocs :: "('r, 'z) json_lib_scheme \<Rightarrow> 'r list \<Rightarrow> select_c list \<Rightarrow> 'r option res" where
  "aggregateDocs L d selects = rfold (aggregate_step L selects) d None"

subsection \<open>Selecting fields\<close>

definition select_key :: "select_c \<Rightarrow> string" where
  "select_key f = (let as = (if sAs f = [] \<and> sAggregate f \<noteq> NoAgg then defaultAs (sAggregate f) (sField f) else sAs f)
     in if as = [] then sField f else as)"

definition selectDocument :: "('r, 'z) json_lib_scheme \<Rightarrow> select_c list \<Rightarrow> 'r \<Rightarrow> 'r res" where
  "selectDocument L fs d = (case fs of
     [] \<Rightarrow> Inr d
   | f # _ \<Rightarrow> if sField f = ''*'' then Inr d
       else Overwrite L (fold (\<lambda>f. AList.update (select_key f) (doc_get L d (sField f))) fs []) d)"

subsection \<open>Having\<close>

text \<open>
  The loop ranges over the slice header it started with while \<open>results\<close> shrinks: state is the
  backing array and the current length. \<open>RemoveElement\<close> moves the elements behind the index
  down in that array and panics when the index is not below the current length.
\<close>

definition RemoveElement :: "nat \<Rightarrow> 'a list \<times> nat \<Rightarrow> ('a list \<times> nat) res" where
  "RemoveElement index r = (case r of (arr, len) \<Rightarrow>
     if len < Suc index then Inl (Panic ''slice bounds out of range'')
     else Inr (take index arr @ drop (Suc index) (take len arr) @ drop (len - 1) arr, len - 1))"

fun having_loop :: "('r \<Rightarrow> bool res) \<Rightarrow> nat list \<Rightarrow> 'r list \<times> nat \<Rightarrow> ('r list \<times> nat) res" where
  "having_loop pass [] r = Inr r"
| "having_loop pass (i # is) r = rbind (pass (fst r ! i)) (\<lambda>b.
     rbind (if b then RemoveElement i r else Inr r) (having_loop pass is))"

definition docsHaving :: "('r, 'z) json_lib_scheme \<Rightarrow> where_c list \<Rightarrow> 'r list \<Rightarrow> 'r list res" where
  "docsHaving L ws results = (if ws = [] then Inr results
     else rbind (having_loop (\<lambda>d. doc_where L d ws) [0..<length results] (results, length results))
       (\<lambda>(arr, len). Inr (take len arr)))"

subsection \<open>Paging\<close>

text \<open>
  \<open>lo.Slice\<close> is a parameter; products of \<open>int\<close> wrap around at 64 bits.
\<close>

definition paginate :: "('r list \<Rightarrow> int \<Rightarrow> int \<Rightarrow> 'r list) \<Rightarrow> bool \<Rightarrow> query \<Rightarrow> 'r list \<Rightarrow> 'r list" where
  "paginate lo_Slice fullScan q results =
     (let start = int64 (qLimit q * qPage q);
          rs = (if fullScan \<and> qLimit q > 0 \<and> qPage q > 0
                then lo_Slice results start (int64 (start + qLimit q)) else results)
      in if qLimit q > 0 \<and> int (length rs) > qLimit q then take (nat (qLimit q)) rs else rs)"

definition slice_law :: "('r list \<Rightarrow> int \<Rightarrow> int \<Rightarrow> 'r list) \<Rightarrow> bool" where
  "slice_law lo_Slice \<longleftrightarrow> (\<forall>xs a b. 0 \<le> a \<longrightarrow> a \<le> b \<longrightarrow> lo_Slice xs a b = take (nat (b - a)) (drop (nat a) xs))"

subsection \<open>The sort sorts\<close>

text \<open>What \<open>sort.Slice\<close> asks of a comparison: on the elements it is total and a strict weak order.\<close>

definition strict_weak :: "'a set \<Rightarrow> ('a \<Rightarrow> 'a \<Rightarrow> bool res) \<Rightarrow> ('a \<Rightarrow> 'a \<Rightarrow> bool) \<Rightarrow> bool" where
  "strict_weak A lt f \<longleftrightarrow>
     (\<forall>a\<in>A. \<forall>b\<in>A. lt a b = Inr (f a b) \<and> (f a b \<longrightarrow> \<not> f b a)) \<and>
     (\<forall>a\<in>A. \<forall>b\<in>A. \<forall>c\<in>A. \<not> f a b \<longrightarrow> \<not> f b c \<longrightarrow> \<not> f a c)"

lemma fueled_sort_insert: "(\<And>a b. fueled (lt a b)) \<Longrightarrow> fueled (sort_insert lt x ys)"
  by (induction ys) auto

lemma strict_weak_total: "strict_weak A lt f \<Longrightarrow> a \<in> A \<Longrightarrow> b \<in> A \<Longrightarrow> lt a b = Inr (f a b)"
  and strict_weak_asym: "strict_weak A lt f \<Longrightarrow> a \<in> A \<Longrightarrow> b \<in> A \<Longrightarrow> f a b \<Longrightarrow> \<not> f b a"
  and strict_weak_trans: "strict_weak A lt f \<Longrightarrow> a \<in> A \<Longrightarrow> b \<in> A \<Longrightarrow> c \<in> A \<Longrightarrow> \<not> f a b \<Longrightarrow> \<not> f b c \<Longrightarrow> \<not> f a c"
  unfolding strict_weak_def by blast+

lemma sort_insert_sorted:
  assumes sw: "strict_weak A lt f"
    and x: "x \<in> A" and "set ys \<subseteq> A" "sorted_wrt (\<lambda>a b. \<not> f a b) ys"
  shows "\<exists>zs. sort_insert lt x ys = Inr zs \<and> mset zs = add_mset x (mset ys) \<and> sorted_wrt (\<lambda>a b. \<not> f a b) zs"
  using assms(3,4)
proof (induction ys)
  case Nil
  then show ?case by simp
next
  case (Cons y ys)
  have y: "y \<in> A" and ys: "set ys \<subseteq> A" "sorted_wrt (\<lambda>a b. \<not> f a b) ys" using Cons.prems by auto
  show ?case
  proof (cases "f x y")
    case True
    obtain zs where zs: "sort_insert lt x ys = Inr zs" "mset zs = add_mset x (mset ys)"
      "sorted_wrt (\<lambda>a b. \<not> f a b) zs" using Cons.IH [OF ys] by blast
    have "set zs = insert x (set ys)" using zs(2) by (metis set_mset_add_mset_insert set_mset_mset)
    then have "sorted_wrt (\<lambda>a b. \<not> f a b) (y # zs)"
      using zs(3) Cons.prems(2) strict_weak_asym [OF sw x y True] by auto
    with True zs(1,2) strict_weak_total [OF sw x y] show ?thesis by simp
  next
    case False
    have "\<not> f x z" if "z \<in> set ys" for z
      using strict_weak_trans [OF sw x y _ False, of z] Cons.prems that by auto
    with False Cons.prems(2) have "sorted_wrt (\<lambda>a b. \<not> f a b) (x # y # ys)" by auto
    with False strict_weak_total [OF sw x y] show ?thesis by simp
  qed
qed

lemma sort_Slice_sorted:
  assumes sw: "strict_weak A lt f"
    and "set xs \<subseteq> A"
  shows "\<exists>ys. sort_Slice lt xs = Inr ys \<and> mset ys = mset xs \<and> sorted_wrt (\<lambda>a b. \<not> f b a) ys"
proof -
  have "\<exists>zs. rfold (sort_insert lt) xs ys = Inr zs \<and> mset zs = mset xs + mset ys \<and> sorted_wrt (\<lambda>a b. \<not> f a b) zs"
    if "set xs \<subseteq> A" "set ys \<subseteq> A" "sorted_wrt (\<lambda>a b. \<not> f a b) ys" for xs ys
    using that
  proof (induction xs arbitrary: ys)
    case Nil
    then show ?case by simp
  next
    case (Cons x xs)
    have x: "x \<in> A" using Cons.prems by simp
    obtain us where us: "sort_insert lt x ys = Inr us" "mset us = add_mset x (mset ys)"
      "sorted_wrt (\<lambda>a b. \<not> f a b) us"
      using sort_insert_sorted [OF sw x Cons.prems(2,3)] by blast
    have "set us \<subseteq> A" using us(2) Cons.prems x by (metis insert_subset set_mset_add_mset_insert set_mset_mset)
    then obtain zs where "rfold (sort_insert lt) xs us = Inr zs" "mset zs = mset xs + mset us"
      "sorted_wrt (\<lambda>a b. \<not> f a b) zs" using Cons.IH [of us] Cons.prems(1) us(3) by auto
    with us show ?case by simp
  qed
  from this [of xs "[]"] assms(2) show ?thesis
    by (auto simp: sort_Slice_def sorted_wrt_rev)
qed

text \<open>
  What an ordering clause means: the values of the field in ascending or descending order, the
  next clause deciding between equal values. Fields are sortable when they hold numbers in
  all documents, or strings in all.
\<close>

fun val_less :: "any \<Rightarrow> any \<Rightarrow> bool" where
  "val_less (ANum k x) (ANum l y) = (x < y)"
| "val_less (AStr s) (AStr t) = (s < t)"
| "val_less _ _ = False"

fun sorts_before :: "('r, 'z) json_lib_scheme \<Rightarrow> order_by list \<Rightarrow> 'r \<Rightarrow> 'r \<Rightarrow> bool" where
  "sorts_before L [] i j = False"
| "sorts_before L (ob # obs) i j =
     (if doc_get L i (obField ob) = doc_get L j (obField ob) then sorts_before L obs i j
      else if obDirection ob = Desc then val_less (doc_get L j (obField ob)) (doc_get L i (obField ob))
      else val_less (doc_get L i (obField ob)) (doc_get L j (obField ob)))"

definition sortable :: "('r, 'z) json_lib_scheme \<Rightarrow> order_by list \<Rightarrow> 'r set \<Rightarrow> bool" where
  "sortable L obs A \<longleftrightarrow> (\<forall>ob\<in>set obs.
     (\<forall>d\<in>A. \<exists>x. doc_get L d (obField ob) = AFloat x) \<or> (\<forall>d\<in>A. \<exists>s. doc_get L d (obField ob) = AStr s))"

lemma sortable_Cons:
  assumes "sortable L (ob # obs) A"
  obtains (num) v where "\<And>d. d \<in> A \<Longrightarrow> doc_get L d (obField ob) = AFloat (v d)"
  | (str) v where "\<And>d. d \<in> A \<Longrightarrow> doc_get L d (obField ob) = AStr (v d)"
  using assms unfolding sortable_def by simp metis

lemma order_less_sorts_before:
  assumes "cast_laws L" "sortable L obs A" "i \<in> A" "j \<in> A"
  shows "order_less L obs i j = Inr (sorts_before L obs i j)"
  using assms(2)
proof (induction obs)
  case Nil
  then show ?case by simp
next
  case (Cons ob obs)
  then have ih: "order_less L obs i j = Inr (sorts_before L obs i j)" by (simp add: sortable_def)
  from Cons.prems show ?case
  proof (cases rule: sortable_Cons)
    case (num v)
    from num [OF assms(3)] num [OF assms(4)] assms(1) show ?thesis
      by (auto simp: ih iface_neq_comparable compareField_def)
  next
    case (str v)
    from str [OF assms(3)] str [OF assms(4)] assms(1) show ?thesis
      by (auto simp: ih iface_neq_comparable compareField_def)
  qed
qed

lemma sorts_before_asym: "sortable L obs A \<Longrightarrow> i \<in> A \<Longrightarrow> j \<in> A \<Longrightarrow> sorts_before L obs i j \<Longrightarrow> \<not> sorts_before L obs j i"
proof (induction obs)
  case (Cons ob obs)
  have s: "sortable L obs A" using Cons.prems by (simp add: sortable_def)
  from Cons.prems(1) show ?case
  proof (cases rule: sortable_Cons)
    case (num v)
    from num [OF Cons.prems(2)] num [OF Cons.prems(3)] Cons.prems(4) Cons.IH [OF s Cons.prems(2,3)]
    show ?thesis by (auto split: if_splits)
  next
    case (str v)
    from str [OF Cons.prems(2)] str [OF Cons.prems(3)] Cons.prems(4) Cons.IH [OF s Cons.prems(2,3)]
    show ?thesis by (auto split: if_splits)
  qed
qed simp

lemma sorts_before_neg_trans:
  "sortable L obs A \<Longrightarrow> i \<in> A \<Longrightarrow> j \<in> A \<Longrightarrow> k \<in> A \<Longrightarrow> \<not> sorts_before L obs i j \<Longrightarrow> \<not> sorts_before L obs j k \<Longrightarrow> \<not> sorts_before L obs i k"
proof (induction obs)
  case (Cons ob obs)
  have s: "sortable L obs A" using Cons.prems by (simp add: sortable_def)
  from Cons.prems(1) show ?case
  proof (cases rule: sortable_Cons)
    case (num v)
    from num [OF Cons.prems(2)] num [OF Cons.prems(3)] num [OF Cons.prems(4)] Cons.prems(5,6)
      Cons.IH [OF s Cons.prems(2-4)]
    show ?thesis by (auto split: if_splits)
  next
    case (str v)
    from str [OF Cons.prems(2)] str [OF Cons.prems(3)] str [OF Cons.prems(4)] Cons.prems(5,6)
      Cons.IH [OF s Cons.prems(2-4)]
    show ?thesis by (auto split: if_splits)
  qed
qed simp

lemma order_less_strict_weak:
  assumes "cast_laws L" and s: "sortable L obs A"
  shows "strict_weak A (order_less L obs) (sorts_before L obs)"
  unfolding strict_weak_def
proof (intro conjI ballI impI)
  fix a b c assume "a \<in> A" "b \<in> A" "c \<in> A" "\<not> sorts_before L obs a b" "\<not> sorts_before L obs b c"
  then show "\<not> sorts_before L obs a c" by (rule sorts_before_neg_trans [OF s])
qed (use order_less_sorts_before [OF assms] sorts_before_asym [OF s] in simp_all)

text \<open>
  When every ordering field holds numbers in all results or strings in all results,
  ordering succeeds, loses and duplicates no document, and no document stands before one
  that the clauses put strictly before it.
\<close>

lemma orderByDocs_sorted:
  assumes "cast_laws L" and "sortable L obs (set ds)"
  shows "\<exists>es. orderByDocs L obs ds = Inr es \<and> mset es = mset ds \<and>
    (obs \<noteq> [] \<longrightarrow> sorted_wrt (\<lambda>d e. \<not> sorts_before L obs e d) es)"
proof (cases "obs = []")
  case False
  have "\<exists>es. sort_Slice (order_less L obs) ds = Inr es \<and> mset es = mset ds \<and>
      sorted_wrt (\<lambda>d e. \<not> sorts_before L obs e d) es"
    by (rule sort_Slice_sorted [OF order_less_strict_weak [OF assms]]) simp
  with False show ?thesis by (simp add: orderByDocs_def)
qed (simp add: orderByDocs_def)

lemma orderByDocs_sorted_witness:
  "\<exists>es. orderByDocs flat_json [\<lparr>obDirection = Desc, obField = ''a''\<rparr>]
      [[(''a'', AFloat 1)], [(''a'', AFloat 2)]] = Inr es
    \<and> mset es = mset [[(''a'', AFloat 1)], [(''a'', AFloat 2)]]"
proof -
  have "sortable flat_json [\<lparr>obDirection = Desc, obField = ''a''\<rparr>]
      (set [[(''a'', AFloat 1)], [(''a'', AFloat 2)]])"
    by (simp add: sortable_def doc_get_def flat_json_def)
  from orderByDocs_sorted [OF flat_json_cast this] show ?thesis by blast
qed

subsection \<open>Groups\<close>

text \<open>
  Grouping puts every document, once and in the order of the results, into the group of
  its key, and makes no other group.
\<close>

lemma groupByDocs_groups:
  "map_of (groupByDocs L fs ds) k =
     (if \<exists>d\<in>set ds. group_key L fs d = k then Some (filter (\<lambda>d. group_key L fs d = k) ds) else None)"
proof (induction ds rule: rev_induct)
  case Nil
  then show ?case by (simp add: groupByDocs_def)
next
  case (snoc d ds)
  have "groupByDocs L fs (ds @ [d]) = AList.update (group_key L fs d)
      ((case map_of (groupByDocs L fs ds) (group_key L fs d) of Some es \<Rightarrow> es | None \<Rightarrow> []) @ [d]) (groupByDocs L fs ds)"
    by (simp add: groupByDocs_def)
  moreover have "filter (\<lambda>e. group_key L fs e = k) ds = []" if "\<not> (\<exists>e\<in>set ds. group_key L fs e = k)" for k
    using that by (simp add: filter_empty_conv)
  ultimately show ?case using snoc by (auto simp: update_conv')
qed

text \<open>
  The key joins the values with dots, so two documents with different values can fall
  into one group.
\<close>

lemma group_key_collision:
  assumes "cast_laws L"
    and "doc_get L d f = AStr (a @ ''.'' @ b)" and "doc_get L d g = AStr c"
    and "doc_get L e f = AStr a" and "doc_get L e g = AStr (b @ ''.'' @ c)"
  shows "group_key L [f, g] d = group_key L [f, g] e"
  using assms by (simp add: group_key_def)

lemma group_key_collision_witness:
  "group_key flat_json [''f'', ''g''] [(''f'', AStr ''1.2''), (''g'', AStr ''3'')]
     = group_key flat_json [''f'', ''g''] [(''f'', AStr ''1''), (''g'', AStr ''2.3'')]"
  by (rule group_key_collision [OF flat_json_cast, where a = "''1''" and b = "''2''" and c = "''3''"])
    (simp_all add: doc_get_def flat_json_def)

subsection \<open>Aggregates\<close>

text \<open>The value of an aggregate over the numbers of a group, as the code accumulates it from zero.\<close>

fun agg_fold :: "agg_fun \<Rightarrow> float64 list \<Rightarrow> float64 \<Rightarrow> float64" where
  "agg_fold a [] x = x"
| "agg_fold a (v # vs) x = agg_fold a vs (case a of
     AggCount \<Rightarrow> float_add x 1 | AggMax \<Rightarrow> max x v | AggMin \<Rightarrow> min x v | _ \<Rightarrow> float_add x v)"

lemma agg_fold_max: "agg_fold AggMax vs x = Max (set (x # vs))"
proof (induction vs arbitrary: x)
  case (Cons v vs)
  have "agg_fold AggMax (v # vs) x = Max (insert (max x v) (set vs))" using Cons by simp
  also have "\<dots> = Max (insert x (insert v (set vs)))"
    by (cases "vs = []") (simp_all add: max.assoc)
  finally show ?case by simp
qed simp

lemma agg_fold_min: "agg_fold AggMin vs x = Min (set (x # vs))"
proof (induction vs arbitrary: x)
  case (Cons v vs)
  have "agg_fold AggMin (v # vs) x = Min (insert (min x v) (set vs))" using Cons by simp
  also have "\<dots> = Min (insert x (insert v (set vs)))"
    by (cases "vs = []") (simp_all add: min.assoc)
  finally show ?case by simp
qed simp

lemma agg_fold_count:
  "int (length vs) + n \<le> 2 ^ 53 \<Longrightarrow> 0 \<le> n \<Longrightarrow> agg_fold AggCount vs (of_int n) = of_int (int (length vs) + n)"
proof (induction vs arbitrary: n)
  case (Cons v vs)
  have "float_add (of_int n) 1 = (of_int (n + 1) :: rat)"
    using round64_int [of "n + 1"] Cons.prems by (simp add: float_add_def)
  then have "agg_fold AggCount (v # vs) (of_int n) = agg_fold AggCount vs (of_int (n + 1))" by simp
  also have "\<dots> = of_int (int (length vs) + (n + 1))" using Cons.prems by (intro Cons.IH) auto
  finally show ?case by (simp add: algebra_simps)
qed simp

lemma agg_fold_sum:
  "\<bar>n\<bar> + (\<Sum>i\<leftarrow>is. \<bar>i\<bar>) \<le> 2 ^ 53 \<Longrightarrow> agg_fold AggSum (map of_int is) (of_int n) = of_int (n + sum_list is)"
proof (induction "is" arbitrary: n)
  case (Cons i "is")
  have s: "0 \<le> (\<Sum>j\<leftarrow>is. \<bar>j\<bar>)" by (induction "is") auto
  then have "\<bar>n + i\<bar> \<le> 2 ^ 53" using Cons.prems by simp
  then have "float_add (of_int n) (of_int i) = (of_int (n + i) :: rat)"
    using round64_int [of "n + i"] by (simp add: float_add_def)
  then have "agg_fold AggSum (map of_int (i # is)) (of_int n) = agg_fold AggSum (map of_int is) (of_int (n + i))"
    by simp
  also have "\<dots> = of_int (n + i + sum_list is)" using Cons.prems s by (intro Cons.IH) auto
  finally show ?case by (simp add: algebra_simps)
qed simp

lemma applyAggregates_eq:
  assumes "sAggregate agg \<in> {AggCount, AggMax, AggMin, AggSum}" "GetFloat L d (sAs agg) = x"
  shows "applyAggregates L next agg d = doc_set L (sAs agg) (AFloat (agg_fold (sAggregate agg) [GetFloat L next (sField agg)] x)) d"
  using assms by (auto simp: applyAggregates_def Let_def max_def min_def)

lemma aggregateDocs_single:
  assumes laws: "cast_laws L" "json_laws L R {al}" and R: "R (emptyJSON L)" "gjGet L (emptyJSON L) al = None"
    and valid: "\<And>d. R d \<Longrightarrow> doc_valid L d"
    and agg: "agg = \<lparr>sAggregate = a, sAs = al, sField = f\<rparr>" "al \<noteq> []" "a \<in> {AggCount, AggMax, AggMin, AggSum}"
    and ds: "ds \<noteq> []"
  shows "\<exists>d. aggregateDocs L ds [agg] = Inr (Some d) \<and>
    doc_get L d al = AFloat (agg_fold a (map (\<lambda>e. GetFloat L e f) ds) 0)"
proof -
  have sets: "\<exists>d'. doc_set L al (AFloat x) d = Inr d' \<and> R d' \<and> doc_get L d' al = AFloat x" if "R d" for d x
    using json_laws_set [OF laws(2) that, of al "AFloat x"]
    by (metis doc_get_def doc_set_json_value insertI1 json_value.simps(3) lift_err_Inr option.simps(5))
  have step: "aggregate_step L [agg] e (Some d) = rbind (doc_set L al (AFloat (agg_fold a [GetFloat L e f] x)) d) (\<lambda>b. Inr (Some b))"
    if "R d" "GetFloat L d al = x" for d e x
    using that valid [OF that(1)] agg applyAggregates_eq [of agg L d x e]
    by (auto simp: aggregate_step_def with_alias_def rbind_def split: sum.splits)
  have run: "\<exists>d'. rfold (aggregate_step L [agg]) es (Some d) = Inr (Some d') \<and>
      doc_get L d' al = (if es = [] then doc_get L d al else AFloat (agg_fold a (map (\<lambda>e. GetFloat L e f) es) x))"
    if "R d" "GetFloat L d al = x" for es d x
    using that
  proof (induction es arbitrary: d x)
    case Nil
    then show ?case by simp
  next
    case (Cons e es)
    obtain d' where d': "doc_set L al (AFloat (agg_fold a [GetFloat L e f] x)) d = Inr d'" "R d'"
      "doc_get L d' al = AFloat (agg_fold a [GetFloat L e f] x)"
      using sets [OF Cons.prems(1)] by blast
    have g: "GetFloat L d' al = agg_fold a [GetFloat L e f] x" using laws(1) d'(3) by (simp add: GetFloat_def)
    from Cons.IH [OF d'(2) g] step [OF Cons.prems, of e] d' show ?case by auto
  qed
  obtain e es where dse: "ds = e # es" using ds by (cases ds) auto
  have z: "GetFloat L (emptyJSON L) al = 0" using laws(1) R(2) by (simp add: GetFloat_def doc_get_def)
  have fst_step: "aggregate_step L [agg] e None = aggregate_step L [agg] e (Some (emptyJSON L))"
    using agg valid [OF R(1)] by (auto simp: aggregate_step_def)
  from run [OF R(1) z, of ds] fst_step show ?thesis by (simp add: aggregateDocs_def dse)
qed

text \<open>
  Over a group, \<open>count\<close> is the number of documents and \<open>sum\<close> the sum of the (integral)
  values, exactly as long as they stay within \<open>2^53\<close>; but since every aggregate starts from
  zero, \<open>max\<close> is the maximum of the values and 0, and \<open>min\<close> the minimum of the values and 0.
\<close>

lemma aggregateDocs_value:
  assumes "cast_laws L" and "json_laws L R {al}" and "R (emptyJSON L)" and "gjGet L (emptyJSON L) al = None"
    and "\<And>d. R d \<Longrightarrow> doc_valid L d" and "al \<noteq> []" and "ds \<noteq> []"
    and "\<forall>d\<in>set ds. GetFloat L d f = of_int (v d)" and "int (length ds) \<le> 2 ^ 53" and "(\<Sum>d\<leftarrow>ds. \<bar>v d\<bar>) \<le> 2 ^ 53"
    and "a \<in> {AggCount, AggMax, AggMin, AggSum}"
  shows "\<exists>d. aggregateDocs L ds [\<lparr>sAggregate = a, sAs = al, sField = f\<rparr>] = Inr (Some d) \<and>
    doc_get L d al = AFloat (case a of
      AggCount \<Rightarrow> of_nat (length ds)
    | AggSum \<Rightarrow> of_int (\<Sum>d\<leftarrow>ds. v d)
    | AggMax \<Rightarrow> Max (insert 0 (of_int ` v ` set ds))
    | _ \<Rightarrow> Min (insert 0 (of_int ` v ` set ds)))"
proof -
  have vs: "map (\<lambda>e. GetFloat L e f) ds = map of_int (map v ds)" using assms(8) by simp
  have "agg_fold a (map of_int (map v ds)) 0 = (case a of
      AggCount \<Rightarrow> of_nat (length ds) | AggSum \<Rightarrow> of_int (\<Sum>d\<leftarrow>ds. v d)
    | AggMax \<Rightarrow> Max (insert 0 (of_int ` v ` set ds)) | _ \<Rightarrow> Min (insert 0 (of_int ` v ` set ds)))"
    using assms(11) agg_fold_count [of "map of_int (map v ds)" 0] agg_fold_sum [of 0 "map v ds"] assms(9,10)
    by (auto simp: agg_fold_max agg_fold_min image_image comp_def)
  with aggregateDocs_single [OF assms(1-5) refl assms(6,11,7), of f] vs show ?thesis by simp
qed

lemma aggregateDocs_value_witness:
  "\<exists>d. aggregateDocs flat_json [[(''x'', AFloat (- 5))], [(''x'', AFloat (- 7))]]
      [\<lparr>sAggregate = AggMax, sAs = ''m'', sField = ''x''\<rparr>] = Inr (Some d) \<and> doc_get flat_json d ''m'' = AFloat 0"
proof -
  let ?v = "\<lambda>d :: any kvs. if d = [(''x'', AFloat (- 5))] then - 5 else - 7 :: int"
  have "\<exists>d. aggregateDocs flat_json [[(''x'', AFloat (- 5))], [(''x'', AFloat (- 7))]]
      [\<lparr>sAggregate = AggMax, sAs = ''m'', sField = ''x''\<rparr>] = Inr (Some d) \<and> doc_get flat_json d ''m'' = AFloat
       (case AggMax of AggCount \<Rightarrow> of_nat (length [[(''x'', AFloat (- 5))], [(''x'', AFloat (- 7))]])
       | AggSum \<Rightarrow> of_int (\<Sum>d\<leftarrow>[[(''x'', AFloat (- 5))], [(''x'', AFloat (- 7))]]. ?v d)
       | AggMax \<Rightarrow> Max (insert 0 (of_int ` ?v ` set [[(''x'', AFloat (- 5))], [(''x'', AFloat (- 7))]]))
       | _ \<Rightarrow> Min (insert 0 (of_int ` ?v ` set [[(''x'', AFloat (- 5))], [(''x'', AFloat (- 7))]])))"
    by (rule aggregateDocs_value [OF flat_json_cast flat_json_laws])
      (simp_all add: GetFloat_def doc_get_def doc_valid_def flat_json_def)
  then show ?thesis by simp
qed

subsection \<open>Projection\<close>

lemma doc_set_laws:
  assumes "json_laws L R P" "R d" "p \<in> P" "json_value v"
  shows "\<exists>d'. doc_set L p v d = Inr d' \<and> R d' \<and> (\<forall>q\<in>P. gjGet L d' q = (if q = p then Some v else gjGet L d q))"
  using json_laws_set [OF assms] assms(4) by (metis doc_set_json_value lift_err_Inr)

lemma sets_at:
  assumes "json_laws L R P" "R d" "distinct (keys m)" "set (keys m) \<subseteq> P" "\<forall>v\<in>snd ` set m. json_value v"
  shows "\<exists>d'. rfold (\<lambda>(k, v). doc_set L k v) m d = Inr d' \<and> R d' \<and>
    (\<forall>q\<in>P. gjGet L d' q = (case map_of m q of Some v \<Rightarrow> Some v | None \<Rightarrow> gjGet L d q))"
  using assms(2-)
proof (induction m arbitrary: d)
  case Nil
  then show ?case by simp
next
  case (Cons kv m)
  obtain k v where kv: "kv = (k, v)" by fastforce
  have kP: "k \<in> P" "json_value v" using Cons.prems by (auto simp: kv)
  obtain d1 where d1: "doc_set L k v d = Inr d1" "R d1"
    "\<forall>q\<in>P. gjGet L d1 q = (if q = k then Some v else gjGet L d q)"
    using doc_set_laws [OF assms(1) Cons.prems(1) kP] by blast
  have "map_of m k = None" using Cons.prems(2) by (auto simp: kv keys_def map_of_eq_None_iff)
  with Cons.IH [OF d1(2)] Cons.prems(2-) d1 show ?case by (fastforce simp: kv split: option.splits)
qed

lemma find_in: "find P xs = Some x \<Longrightarrow> x \<in> set xs \<and> P x"
  by (induction xs) (auto split: if_splits)

lemma map_of_patch:
  "map_of (fold (\<lambda>f. AList.update (select_key f) (g f)) fs m) k
   = (case find (\<lambda>f. select_key f = k) (rev fs) of Some f \<Rightarrow> Some (g f) | None \<Rightarrow> map_of m k)"
  by (induction fs arbitrary: m rule: rev_induct) (auto simp: update_conv' split: option.splits)

lemma set_patch: "set (fold (\<lambda>f. AList.update (select_key f) (g f)) fs m) \<subseteq> set m \<union> (\<lambda>f. (select_key f, g f)) ` set fs"
proof (induction fs arbitrary: m)
  case (Cons f fs)
  have "set (AList.update (select_key f) (g f) m) \<subseteq> insert (select_key f, g f) (set m)"
    by (induction m) auto
  with Cons [of "AList.update (select_key f) (g f) m"] show ?case by auto
qed simp

lemma distinct_patch: "distinct (map fst m) \<Longrightarrow> distinct (map fst (fold (\<lambda>f. AList.update (select_key f) (g f)) fs m))"
  by (induction fs arbitrary: m) (auto simp: distinct_update)

text \<open>
  A projection with different result names leaves the document with exactly the selected
  values under these names (a missing field as null) and nothing of the rest.
\<close>

lemma selectDocument_projects:
  assumes "json_laws L R P" and "R (emptyJSON L)" and "fs \<noteq> []" and "sField (hd fs) \<noteq> ''*''"
    and "distinct (map select_key fs)" and "select_key ` set fs \<subseteq> P"
    and "\<forall>f\<in>set fs. json_value (doc_get L d (sField f))"
  shows "\<exists>d'. selectDocument L fs d = Inr d' \<and> (\<forall>f\<in>set fs. doc_get L d' (select_key f) = doc_get L d (sField f)) \<and>
    (\<forall>q\<in>P. q \<notin> select_key ` set fs \<longrightarrow> gjGet L d' q = gjGet L (emptyJSON L) q)"
proof -
  let ?m = "fold (\<lambda>f. AList.update (select_key f) (doc_get L d (sField f))) fs []"
  have sel: "selectDocument L fs d = rfold (\<lambda>(k, v). doc_set L k v) ?m (emptyJSON L)"
    using assms(3,4) by (cases fs) (simp_all add: selectDocument_def Overwrite_def)
  have sub: "set ?m \<subseteq> (\<lambda>f. (select_key f, doc_get L d (sField f))) ` set fs"
    using set_patch [of "\<lambda>f. doc_get L d (sField f)" fs "[]"] by simp
  have k1: "distinct (keys ?m)" using distinct_patch [of "[]"] by (simp add: keys_def)
  have k2: "set (keys ?m) \<subseteq> P" using sub assms(6) by (fastforce simp: set_keys)
  have k3: "\<forall>v\<in>snd ` set ?m. json_value v" using sub assms(7) by fastforce
  obtain d' where d': "rfold (\<lambda>(k, v). doc_set L k v) ?m (emptyJSON L) = Inr d'"
    "\<forall>q\<in>P. gjGet L d' q = (case map_of ?m q of Some v \<Rightarrow> Some v | None \<Rightarrow> gjGet L (emptyJSON L) q)"
    using sets_at [OF assms(1,2) k1 k2 k3] by blast
  have fnd: "find (\<lambda>g. select_key g = select_key f) (rev fs) = Some f" if "f \<in> set fs" for f
  proof -
    have "find (\<lambda>g. select_key g = select_key f) (rev fs) \<noteq> None"
      using that by (auto simp: find_None_iff)
    then obtain g where g: "find (\<lambda>g. select_key g = select_key f) (rev fs) = Some g" by blast
    then have "g \<in> set fs" "select_key g = select_key f" using find_in [OF g] by simp_all
    then have "g = f" using assms(5) that by (meson distinct_map inj_onD)
    with g show ?thesis by simp
  qed
  have nfnd: "find (\<lambda>g. select_key g = q) (rev fs) = None" if "q \<notin> select_key ` set fs" for q
    using that by (auto simp: find_None_iff)
  show ?thesis
    using sel d' assms(6) by (auto simp: map_of_patch fnd nfnd doc_get_def)
qed

lemma selectDocument_projects_witness:
  "\<exists>d'. selectDocument flat_json [\<lparr>sAggregate = NoAgg, sAs = ''n'', sField = ''name''\<rparr>, select_field ''age'']
      [(''name'', AStr ''bo''), (''age'', AFloat 3), (''x'', ANil)] = Inr d' \<and> doc_get flat_json d' ''n'' = AStr ''bo''"
  using selectDocument_projects [OF flat_json_laws [of UNIV], of "[\<lparr>sAggregate = NoAgg, sAs = ''n'', sField = ''name''\<rparr>, select_field ''age'']"
      "[(''name'', AStr ''bo''), (''age'', AFloat 3), (''x'', ANil)]"]
  by (auto simp: select_field_def select_key_def doc_get_def flat_json_def)

subsection \<open>Having\<close>

lemma having_loop_none:
  "\<forall>i\<in>set is. pass (arr ! i) = Inr False \<Longrightarrow> having_loop pass is (arr, n) = Inr (arr, n)"
  by (induction "is") auto

lemma having_loop_append:
  "having_loop pass (is @ js) r = rbind (having_loop pass is r) (having_loop pass js)"
  by (induction "is" arbitrary: r) (auto simp: rbind_def split: sum.splits)

text \<open>One document passes: what the loop does up to and including it.\<close>

lemma having_loop_hit:
  assumes "\<forall>x\<in>set xs. pass x = Inr False" "pass d = Inr True"
  shows "having_loop pass [0..<Suc (length xs)] (xs @ d # ys, length (xs @ d # ys))
    = Inr (xs @ ys @ [last (d # ys)], length (xs @ ys))"
proof -
  have "having_loop pass [0..<length xs] (xs @ d # ys, length (xs @ d # ys)) = Inr (xs @ d # ys, length (xs @ d # ys))"
    by (rule having_loop_none) (use assms(1) in \<open>auto simp: nth_append\<close>)
  moreover have "drop (length ys) (d # ys) = [last (d # ys)]"
    by (cases ys rule: rev_cases) auto
  ultimately show ?thesis
    using assms(2) by (simp add: having_loop_append RemoveElement_def)
qed

text \<open>
  The filter is inverted: documents that fail the having clauses are kept, and a document
  that passes them (one that follows no other passing one) is removed.
\<close>

lemma docsHaving_removes_passing:
  assumes "ws \<noteq> []" and "\<forall>x\<in>set (xs @ ys). doc_where L x ws = Inr False"
    and "doc_where L d ws = Inr b" and "b \<longrightarrow> ys \<noteq> []"
  shows "docsHaving L ws (xs @ d # ys) = Inr (if b then xs @ ys else xs @ d # ys)"
proof (cases b)
  case True
  let ?pass = "\<lambda>d. doc_where L d ws"
  have split: "[0..<length (xs @ d # ys)] = [0..<Suc (length xs)] @ [Suc (length xs)..<length (xs @ d # ys)]"
    using upt_add_eq_append [of 0 "Suc (length xs)" "length ys"] by (simp add: add.commute)
  have "?pass ((xs @ ys @ [last (d # ys)]) ! i) = Inr False" if "i < length (xs @ d # ys)" for i
  proof -
    have "(xs @ ys @ [last (d # ys)]) ! i \<in> set (xs @ ys @ [last (d # ys)])" using that by (intro nth_mem) simp
    moreover have "last (d # ys) \<in> set ys" using True assms(4) by simp
    ultimately show ?thesis using assms(2) by auto
  qed
  then have "having_loop ?pass [Suc (length xs)..<length (xs @ d # ys)] (xs @ ys @ [last (d # ys)], length (xs @ ys))
      = Inr (xs @ ys @ [last (d # ys)], length (xs @ ys))"
    by (intro having_loop_none ballI) (metis atLeastLessThan_iff set_upt)
  moreover have "having_loop ?pass [0..<Suc (length xs)] (xs @ d # ys, length (xs @ d # ys))
      = Inr (xs @ ys @ [last (d # ys)], length (xs @ ys))"
    by (rule having_loop_hit) (use assms(2,3) True in auto)
  ultimately have "having_loop ?pass [0..<length (xs @ d # ys)] (xs @ d # ys, length (xs @ d # ys))
      = Inr (xs @ ys @ [last (d # ys)], length (xs @ ys))"
    unfolding split having_loop_append by simp
  then show ?thesis using True assms(1) by (simp add: docsHaving_def)
next
  case False
  have "having_loop (\<lambda>d. doc_where L d ws) [0..<length (xs @ d # ys)] (xs @ d # ys, length (xs @ d # ys))
      = Inr (xs @ d # ys, length (xs @ d # ys))"
  proof (rule having_loop_none, rule ballI)
    fix i assume "i \<in> set [0..<length (xs @ d # ys)]"
    then have "(xs @ d # ys) ! i \<in> set (xs @ d # ys)" by (intro nth_mem) auto
    then show "doc_where L ((xs @ d # ys) ! i) ws = Inr False" using assms(2,3) False by auto
  qed
  then show ?thesis using False assms(1) by (simp add: docsHaving_def)
qed

text \<open>
  When the last document passes and an earlier one passes too, the loop panics: it meets
  the stale copy of the last document behind the shortened slice.
\<close>

lemma docsHaving_panics:
  assumes "ws \<noteq> []" and "doc_where L d ws = Inr True" and "doc_where L e ws = Inr True"
    and "\<forall>x\<in>set (xs @ ys). doc_where L x ws = Inr False"
  shows "docsHaving L ws (xs @ d # ys @ [e]) = Inl (Panic ''slice bounds out of range'')"
proof -
  let ?pass = "\<lambda>d. doc_where L d ws" and ?k = "length xs + length ys"
  let ?arr = "xs @ ys @ [e, e]"
  have hit: "having_loop ?pass [0..<Suc (length xs)] (xs @ d # ys @ [e], length (xs @ d # ys @ [e])) = Inr (?arr, Suc ?k)"
    using having_loop_hit [of xs ?pass d "ys @ [e]"] assms(2,4) by simp
  have at: "?arr ! ?k = e" "?arr ! Suc ?k = e" by (simp_all add: nth_append)
  have final: "having_loop ?pass [Suc ?k] (?arr, n) = Inl (Panic ''slice bounds out of range'')" if "n \<le> Suc ?k" for n
    using that at(2) assms(3) by (simp add: RemoveElement_def)
  have n: "length (xs @ d # ys @ [e]) = Suc (Suc ?k)" by simp
  show ?thesis
  proof (cases "ys = []")
    case True
    then have "[0..<Suc (Suc ?k)] = [0..<Suc (length xs)] @ [Suc ?k]" by simp
    then have "having_loop ?pass [0..<Suc (Suc ?k)] (xs @ d # ys @ [e], length (xs @ d # ys @ [e]))
        = Inl (Panic ''slice bounds out of range'')"
      by (simp only: having_loop_append hit rbind_Inr final)
    then show ?thesis using assms(1) n by (simp add: docsHaving_def)
  next
    case False
    then have idx: "[0..<Suc (Suc ?k)] = [0..<Suc (length xs)] @ [Suc (length xs)..<?k] @ [?k] @ [Suc ?k]"
      using upt_add_eq_append [of 0 "Suc (length xs)" "length ys - 1"] by (cases ys) simp_all
    have mid: "having_loop ?pass [Suc (length xs)..<?k] (?arr, Suc ?k) = Inr (?arr, Suc ?k)"
    proof (rule having_loop_none, rule ballI)
      fix i assume "i \<in> set [Suc (length xs)..<?k]"
      then have "?arr ! i = ys ! (i - length xs)" "i - length xs < length ys" by (auto simp: nth_append)
      then show "?pass (?arr ! i) = Inr False" using assms(4) by (metis UnCI nth_mem set_append)
    qed
    have rem: "having_loop ?pass [?k] (?arr, Suc ?k) = Inr (?arr, ?k)"
      using at(1) assms(3) by (simp add: RemoveElement_def)
    have "having_loop ?pass [0..<Suc (Suc ?k)] (xs @ d # ys @ [e], length (xs @ d # ys @ [e]))
        = Inl (Panic ''slice bounds out of range'')"
      unfolding idx by (simp only: having_loop_append hit rbind_Inr mid rem final)
    then show ?thesis using assms(1) n by (simp add: docsHaving_def)
  qed
qed

lemma flat_where_eq:
  "doc_where flat_json d [\<lparr>wField = ''n'', wOp = WEq, wValue = AStr ''x''\<rparr>] = Inr (doc_get flat_json d ''n'' = AStr ''x'')"
proof -
  have o: "operand flat_json d \<lparr>wField = ''n'', wOp = WEq, wValue = AStr ''x''\<rparr> = AStr ''x''"
    by (simp add: operand_def flat_json_def HasPrefix_def selfRefPrefix_def)
  then have "clause_safe flat_json d \<lparr>wField = ''n'', wOp = WEq, wValue = AStr ''x''\<rparr>"
    by (simp add: clause_safe_def)
  with o show ?thesis
    by (simp add: where_clause_spec [OF flat_json_cast] clause_spec_def Let_def null_text_def)
qed

lemma docsHaving_removes_passing_witness:
  "docsHaving flat_json [\<lparr>wField = ''n'', wOp = WEq, wValue = AStr ''x''\<rparr>]
     [[(''n'', AStr ''x'')], [(''n'', AStr ''y'')]] = Inr [[(''n'', AStr ''y'')]]"
  using docsHaving_removes_passing [of "[\<lparr>wField = ''n'', wOp = WEq, wValue = AStr ''x''\<rparr>]" "[]"
      "[[(''n'', AStr ''y'')]]" flat_json "[(''n'', AStr ''x'')]" True]
  by (simp add: flat_where_eq del: doc_where.simps) (simp add: doc_get_def flat_json_def)

lemma docsHaving_panics_witness:
  "docsHaving flat_json [\<lparr>wField = ''n'', wOp = WEq, wValue = AStr ''x''\<rparr>]
     [[(''n'', AStr ''x''), (''i'', AFloat 1)], [(''n'', AStr ''x''), (''i'', AFloat 2)]]
   = Inl (Panic ''slice bounds out of range'')"
  using docsHaving_panics [of "[\<lparr>wField = ''n'', wOp = WEq, wValue = AStr ''x''\<rparr>]" flat_json
      "[(''n'', AStr ''x''), (''i'', AFloat 1)]" "[(''n'', AStr ''x''), (''i'', AFloat 2)]" "[]" "[]"]
  by (simp add: flat_where_eq del: doc_where.simps) (simp add: doc_get_def flat_json_def)

subsection \<open>Pages\<close>

lemma paginate_page:
  assumes "slice_law sl" "qLimit q = int l" "0 < l" "qPage q = int p" "int (l * p) + int l < 2 ^ 63"
  shows "paginate sl True q rs = take l (drop (l * p) rs)"
proof -
  have nn: "0 \<le> int (l * p)" by (rule of_nat_0_le_iff)
  then have "int64 (int (l * p)) = int (l * p)" using assms(5) by (intro int64_id) linarith+
  then have m: "int64 (int l * int p) = int (l * p)" by simp
  have e: "int64 (int (l * p) + int l) = int (l * p) + int l" using assms(5) nn by (intro int64_id) linarith+
  have s: "sl rs (int (l * p)) (int (l * p) + int l) = take l (drop (l * p) rs)"
    using assms(1) by (simp add: slice_law_def flip: of_nat_mult)
  show ?thesis
  proof (cases "p = 0")
    case True
    then show ?thesis using assms(2-4) by (simp add: paginate_def Let_def)
  next
    case False
    then have "paginate sl True q rs = (if int (length (take l (drop (l * p) rs))) > int l
        then take l (take l (drop (l * p) rs)) else take l (drop (l * p) rs))"
      using assms(2-4) by (simp add: paginate_def Let_def m [simplified] e [simplified] s [simplified])
    then show ?thesis by simp
  qed
qed

text \<open>
  The pages of a result list follow each other without gap or overlap: the first \<open>n\<close> pages
  of length \<open>l\<close> together are the first \<open>n * l\<close> results (page numbers whose end fits into 64 bits).
\<close>

lemma paginate_pages:
  assumes "slice_law lo_Slice" and "0 < l" and "int (l * n) < 2 ^ 63"
  shows "concat (map (\<lambda>p. paginate lo_Slice True (q\<lparr>qLimit := int l, qPage := int p\<rparr>) rs) [0..<n]) = take (n * l) rs"
  using assms(3)
proof (induction n)
  case 0
  then show ?case by simp
next
  case (Suc n)
  then have le: "int (l * n) + int l < 2 ^ 63" by simp
  have "paginate lo_Slice True (q\<lparr>qLimit := int l, qPage := int n\<rparr>) rs = take l (drop (l * n) rs)"
    by (rule paginate_page [OF assms(1) _ assms(2) _ le]) simp_all
  moreover have "take (Suc n * l) rs = take (n * l) rs @ take l (drop (n * l) rs)"
    by (simp only: mult_Suc add.commute [of l] take_add)
  ultimately show ?case using Suc by (simp add: mult.commute)
qed

lemma paginate_pages_witness:
  "concat (map (\<lambda>p. paginate (\<lambda>xs a b. take (nat (b - a)) (drop (nat a) xs)) True
     (empty_query\<lparr>qLimit := int 2, qPage := int p\<rparr>) [1, 2, 3 :: nat]) [0..<2]) = [1, 2, 3]"
  using paginate_pages [of "\<lambda>xs a b. take (nat (b - a)) (drop (nat a) xs)" 2 2 empty_query "[1, 2, 3 :: nat]"]
  by (simp add: slice_law_def)

end
