(* ===== verification/Authz.thy ===== *)
theory Authz
  imports Schema DocumentLaws
begin

text \<open>
  \<open>authorization.go\<close>: the rules of a collection's \<open>x-authorization\<close> section. Match scripts run
  on a JavaScript machine (\<open>github.com/dop251/goja\<close>), a parameter: \<open>jsRun\<close> takes the global
  variables the program has set and a script, and gives the result and the globals
  afterwards (a script can change the document it is given); scripts that call back into the
  database are outside the model. The globals are state: what one call sets, a later script
  of the same machine sees.
\<close>

record 'r globals =
  gvCtx :: "'r ctx option"
  gvSchema :: "'r schema option"
  gvMeta :: "'r option"
  gvDoc :: "'r option"
  gvQuery :: "query option"
  gvFilter :: "where_c list"

record 'r js_lib =
  jsRun :: "'r globals \<Rightarrow> string \<Rightarrow> gerr + any \<times> 'r globals"
  jsToBoolean :: "any \<Rightarrow> bool"

text \<open>
  A rule is picked for an action when its first action is the wildcard or one of its actions
  is the action; a rule without actions makes the index expression panic.
\<close>

definition rule_picked :: "action \<Rightarrow> authz_effect \<Rightarrow> authz_rule \<Rightarrow> bool res" where
  "rule_picked act eff a = (case arAction a of
     [] \<Rightarrow> Inl (Panic ''index out of range'')
   | a0 # _ \<Rightarrow> Inr (if a0 = any_action \<and> arEffect a = eff then True else act \<in> set (arAction a) \<and> arEffect a = eff))"

fun pick_rules :: "action \<Rightarrow> authz_effect \<Rightarrow> authz_rule list \<Rightarrow> authz_rule list res" where
  "pick_rules act eff [] = Inr []"
| "pick_rules act eff (a # as) = rbind (rule_picked act eff a) (\<lambda>b.
     rbind (pick_rules act eff as) (\<lambda>rs. Inr (if b then a # rs else rs)))"

fun any_match :: "('r, 'y) js_lib_scheme \<Rightarrow> string \<Rightarrow> authz_rule list \<Rightarrow> 'r globals \<Rightarrow> (bool \<times> 'r globals) res" where
  "any_match J globalScripts [] vm = Inr (False, vm)"
| "any_match J globalScripts (d # ds) vm =
     rbind (wrapping 0 ''failed to run authz match script'' (lift_err (jsRun J vm (globalScripts @ arMatch d))))
       (\<lambda>(result, vm). if jsToBoolean J result then Inr (True, vm) else any_match J globalScripts ds vm)"

text \<open>The part the four authorizers share: deny rules first, then allow rules.\<close>

definition authorize_rules ::
  "('r, 'y) js_lib_scheme \<Rightarrow> string \<Rightarrow> action \<Rightarrow> authz_rule list \<Rightarrow> 'r globals \<Rightarrow> (bool \<times> 'r globals) res" where
  "authorize_rules J globalScripts act rules vm =
     rbind (pick_rules act Deny rules) (\<lambda>deny.
     rbind (any_match J globalScripts deny vm) (\<lambda>(denied, vm).
       if denied then Inr (False, vm)
       else rbind (pick_rules act Allow rules) (\<lambda>allow.
         if allow = [] then Inr (True, vm) else any_match J globalScripts allow vm)))"

definition authorizeCommand ::
  "('r, 'y) js_lib_scheme \<Rightarrow> string \<Rightarrow> 'r ctx \<Rightarrow> 'r schema \<Rightarrow> action \<Rightarrow> 'r globals \<Rightarrow> (bool \<times> 'r globals) res" where
  "authorizeCommand J globalScripts cx schema act vm =
     (if cxInternal cx then Inr (True, vm)
      else if scAuthz schema = [] then Inr (True, vm)
      else authorize_rules J globalScripts act (scAuthz schema) vm)"

definition ExtractMetadata :: "('r, 'z) json_lib_scheme \<Rightarrow> 'r ctx \<Rightarrow> 'r" where
  "ExtractMetadata L cx = (case cxMeta cx of
     Some m \<Rightarrow> m
   | None \<Rightarrow> (case doc_set L MetadataKeyNamespace (AStr ''default'') (emptyJSON L) of
       Inr m \<Rightarrow> m | Inl e \<Rightarrow> emptyJSON L))"

definition authorizeQuery ::
  "('r, 'z) json_lib_scheme \<Rightarrow> ('r, 'y) js_lib_scheme \<Rightarrow> string \<Rightarrow> 'r ctx \<Rightarrow> 'r schema \<Rightarrow> query \<Rightarrow> 'r globals
     \<Rightarrow> (bool \<times> 'r globals) res" where
  "authorizeQuery L J globalScripts cx schema q vm =
     (if cxInternal cx \<or> cxIndexing cx then Inr (True, vm)
      else if scAuthz schema = [] then Inr (True, vm)
      else authorize_rules J globalScripts QueryAction (scAuthz schema)
        (vm\<lparr>gvCtx := Some cx, gvSchema := Some schema, gvQuery := Some q, gvMeta := Some (ExtractMetadata L cx)\<rparr>))"

text \<open>The machine of the next two is one taken from the pool of the database.\<close>

definition authorizeConfigure ::
  "('r, 'z) json_lib_scheme \<Rightarrow> ('r, 'y) js_lib_scheme \<Rightarrow> string \<Rightarrow> 'r ctx \<Rightarrow> 'r schema \<Rightarrow> 'r globals
     \<Rightarrow> (bool \<times> 'r globals) res" where
  "authorizeConfigure L J globalScripts cx schema vm =
     (if cxInternal cx \<or> cxIndexing cx then Inr (True, vm)
      else if scAuthz schema = [] then Inr (True, vm)
      else authorize_rules J globalScripts ConfigureAction (scAuthz schema)
        (vm\<lparr>gvCtx := Some cx, gvSchema := Some schema, gvMeta := Some (ExtractMetadata L cx)\<rparr>))"

definition authorizeChangeStream ::
  "('r, 'z) json_lib_scheme \<Rightarrow> ('r, 'y) js_lib_scheme \<Rightarrow> string \<Rightarrow> 'r ctx \<Rightarrow> 'r schema \<Rightarrow> where_c list \<Rightarrow> 'r globals
     \<Rightarrow> (bool \<times> 'r globals) res" where
  "authorizeChangeStream L J globalScripts cx schema wfilter vm =
     (if cxInternal cx \<or> cxIndexing cx then Inr (True, vm)
      else if scAuthz schema = [] then Inr (True, vm)
      else authorize_rules J globalScripts ChangeStreamAction (scAuthz schema)
        (vm\<lparr>gvCtx := Some cx, gvSchema := Some schema, gvFilter := wfilter, gvMeta := Some (ExtractMetadata L cx)\<rparr>))"

subsection \<open>The decision\<close>

definition rule_applies :: "action \<Rightarrow> authz_rule \<Rightarrow> bool" where
  "rule_applies act a \<longleftrightarrow> hd (arAction a) = any_action \<or> act \<in> set (arAction a)"

lemma pick_rules_eq:
  "\<forall>a\<in>set rules. arAction a \<noteq> [] \<Longrightarrow>
   pick_rules act eff rules = Inr (filter (\<lambda>a. rule_applies act a \<and> arEffect a = eff) rules)"
  by (induction rules) (auto simp: rule_picked_def rule_applies_def split: list.splits)

lemma any_match_pure:
  "\<forall>a\<in>set rules. \<exists>x. jsRun J vm (gs @ arMatch a) = Inr (x, vm) \<and> (jsToBoolean J x \<longleftrightarrow> m a) \<Longrightarrow>
   any_match J gs rules vm = Inr (\<exists>a\<in>set rules. m a, vm)"
  by (induction rules) auto

lemma authorize_rules_decision:
  assumes "\<forall>a\<in>set rules. arAction a \<noteq> []"
    and "\<forall>a\<in>set rules. \<exists>x. jsRun J vm (gs @ arMatch a) = Inr (x, vm) \<and> (jsToBoolean J x \<longleftrightarrow> m a)"
  shows "authorize_rules J gs act rules vm = Inr
    ((\<forall>a\<in>set rules. rule_applies act a \<longrightarrow> arEffect a = Deny \<longrightarrow> \<not> m a) \<and>
     ((\<forall>a\<in>set rules. rule_applies act a \<longrightarrow> arEffect a \<noteq> Allow) \<or>
      (\<exists>a\<in>set rules. rule_applies act a \<and> arEffect a = Allow \<and> m a)), vm)"
proof -
  have sub: "any_match J gs (filter P rules) vm = Inr (\<exists>a\<in>set (filter P rules). m a, vm)" for P
    by (rule any_match_pure) (use assms(2) in simp)
  show ?thesis
    unfolding authorize_rules_def pick_rules_eq [OF assms(1)]
    by (auto simp: sub filter_empty_conv)
qed


definition const_js :: "bool \<Rightarrow> any kvs js_lib" where
  "const_js b = \<lparr>jsRun = (\<lambda>vm script. Inr (ABool b, vm)), jsToBoolean = (\<lambda>v. v = ABool True)\<rparr>"

definition no_globals :: "'r globals" where
  "no_globals = \<lparr>gvCtx = None, gvSchema = None, gvMeta = None, gvDoc = None, gvQuery = None, gvFilter = []\<rparr>"

definition user_ctx :: "'r ctx" where
  "user_ctx = \<lparr>cxMeta = None, cxInternal = False, cxIndexing = False, cxSchemas = []\<rparr>"

definition ruled_schema :: "authz_rule list \<Rightarrow> any kvs schema" where
  "ruled_schema rules = \<lparr>scCollection = ''user'', scPrimaryIndex = no_index, scImmutable = False,
     scPreventDeletes = False, scIndexing = [], scProperties = [], scPropertyPaths = [], scTriggers = [],
     scReadOnly = False, scAuthz = rules, scRequireIndex = False, scRaw = []\<rparr>"


text \<open>
  An action that no rule of the collection mentions is authorized (for commands and
  queries, whoever asks), where the comment on \<open>Authz\<close> promises that a request no rule
  matches is denied.
\<close>

lemma unmentioned_action_allowed:
  assumes "\<forall>a\<in>set (scAuthz schema). arAction a \<noteq> [] \<and> \<not> rule_applies act a"
  shows "authorizeCommand J gs cx schema act vm = Inr (True, vm) \<and>
    (act = QueryAction \<longrightarrow> (\<exists>vm'. authorizeQuery L J gs cx schema q vm = Inr (True, vm')))"
proof -
  have "filter (\<lambda>a. rule_applies act a \<and> arEffect a = eff) (scAuthz schema) = []" for eff
    using assms(1) by (simp add: filter_empty_conv)
  then have "authorize_rules J gs act (scAuthz schema) vm = Inr (True, vm)" for vm
    using assms(1) by (simp add: authorize_rules_def pick_rules_eq)
  then show ?thesis by (auto simp: authorizeCommand_def authorizeQuery_def)
qed

lemma unmentioned_action_allowed_witness:
  "authorizeCommand (const_js False) [] user_ctx (ruled_schema
      [\<lparr>arEffect = Allow, arAction = [QueryAction], arMatch = ''isAdmin''\<rparr>]) DeleteAction no_globals = Inr (True, no_globals)"
  using unmentioned_action_allowed [of "ruled_schema [\<lparr>arEffect = Allow, arAction = [QueryAction], arMatch = ''isAdmin''\<rparr>]"
      DeleteAction "const_js False" "[]" user_ctx no_globals]
  by (simp add: ruled_schema_def rule_applies_def)

end
