(* ===== verification/Metadata.thy ===== *)
theory Metadata
  imports Authz
begin

text \<open>
  The setters of \<open>metadata.go\<close>. A context holds a pointer to its metadata document, so the
  documents are cells of a heap (a list, the address is the position) and a context is the
  pointer it holds, if any. Deriving a context does not copy the document it points to.
\<close>

type_synonym address = nat

text \<open>Errors of the setters are dropped; what was set before the failing value stays.\<close>

fun set_all_ignoring :: "('r, 'z) json_lib_scheme \<Rightarrow> any kvs \<Rightarrow> 'r \<Rightarrow> 'r" where
  "set_all_ignoring L [] d = d"
| "set_all_ignoring L ((k, v) # m) d = (case doc_set1 L k v d of
     Inr d' \<Rightarrow> set_all_ignoring L m d' | Inl e \<Rightarrow> d)"

definition extract_metadata :: "('r, 'z) json_lib_scheme \<Rightarrow> address option \<Rightarrow> 'r list \<Rightarrow> address \<times> 'r list" where
  "extract_metadata L cx heap = (case cx of
     Some a \<Rightarrow> (a, heap)
   | None \<Rightarrow> (length heap,
       heap @ [set_all_ignoring L [(MetadataKeyNamespace, AStr ''default'')] (emptyJSON L)]))"

definition SetMetadataValues ::
  "('r, 'z) json_lib_scheme \<Rightarrow> address option \<Rightarrow> any kvs \<Rightarrow> 'r list \<Rightarrow> address option \<times> 'r list" where
  "SetMetadataValues L cx data heap =
     (case extract_metadata L cx heap of (a, h) \<Rightarrow> (Some a, h[a := set_all_ignoring L data (h ! a)]))"

definition SetMetadataNamespace ::
  "('r, 'z) json_lib_scheme \<Rightarrow> address option \<Rightarrow> string \<Rightarrow> 'r list \<Rightarrow> address option \<times> 'r list" where
  "SetMetadataNamespace L cx ns = SetMetadataValues L cx [(MetadataKeyNamespace, AStr ns)]"

definition SetMetadataUserID ::
  "('r, 'z) json_lib_scheme \<Rightarrow> address option \<Rightarrow> string \<Rightarrow> 'r list \<Rightarrow> address option \<times> 'r list" where
  "SetMetadataUserID L cx userID = SetMetadataValues L cx [(''userId'', AStr userID)]"

definition SetMetadataRoles ::
  "('r, 'z) json_lib_scheme \<Rightarrow> address option \<Rightarrow> string list \<Rightarrow> 'r list \<Rightarrow> address option \<times> 'r list" where
  "SetMetadataRoles L cx roles = SetMetadataValues L cx [(''roles'', ASlice (map AStr roles))]"

definition SetMetadataGroups ::
  "('r, 'z) json_lib_scheme \<Rightarrow> address option \<Rightarrow> string list \<Rightarrow> 'r list \<Rightarrow> address option \<times> 'r list" where
  "SetMetadataGroups L cx groups = SetMetadataValues L cx [(''groups'', ASlice (map AStr groups))]"

text \<open>The request context that a pointer stands for, to read metadata with \<open>GetMetadataValue\<close>.\<close>

definition deref :: "address option \<Rightarrow> 'r list \<Rightarrow> 'r ctx" where
  "deref cx heap = \<lparr>cxMeta = map_option (\<lambda>a. heap ! a) cx, cxInternal = False, cxIndexing = False, cxSchemas = []\<rparr>"

lemma set_all_ignoring_one:
  assumes "json_laws L R P" "R d" "k \<in> P" "json_value v"
  shows "R (set_all_ignoring L [(k, v)] d) \<and>
    (\<forall>q\<in>P. gjGet L (set_all_ignoring L [(k, v)] d) q = (if q = k then Some v else gjGet L d q))"
proof -
  obtain d' where "sjSet L d k v = Inr d'" "R d'" "\<And>q. q \<in> P \<Longrightarrow> gjGet L d' q = (if q = k then Some v else gjGet L d q)"
    using json_laws_set [OF assms] by blast
  moreover have "doc_set1 L k v d = lift_err (sjSet L d k v)"
    using doc_set_json_value [OF assms(4)] by (simp add: doc_set_eq)
  ultimately show ?thesis by simp
qed

text \<open>
  Setting the namespace is seen by the derived context; it is seen by the context it was
  derived from as well when that one carries metadata already, because both hold the same
  document, and only otherwise is the original context left alone.
\<close>

lemma SetMetadataNamespace_aliases:
  assumes "json_laws L R P" and "MetadataKeyNamespace \<in> P" and "\<forall>d\<in>set heap. R d" and "R (emptyJSON L)"
    and "\<forall>a. cx = Some a \<longrightarrow> a < length heap"
    and "SetMetadataNamespace L cx ns heap = (cx', heap')"
  shows "GetMetadataValue L (deref cx' heap') MetadataKeyNamespace = AStr ns \<and>
    GetMetadataValue L (deref cx heap') MetadataKeyNamespace = (case cx of Some a \<Rightarrow> AStr ns | None \<Rightarrow> AStr ''default'')"
proof -
  have one: "gjGet L (set_all_ignoring L [(MetadataKeyNamespace, AStr ns)] d) MetadataKeyNamespace = Some (AStr ns)" if "R d" for d
    using set_all_ignoring_one [OF assms(1) that assms(2), of "AStr ns"] assms(2) by simp
  show ?thesis
  proof (cases cx)
    case None
    have "R (set_all_ignoring L [(MetadataKeyNamespace, AStr ''default'')] (emptyJSON L))"
      using set_all_ignoring_one [OF assms(1,4,2), of "AStr ''default''"] by simp
    from one [OF this] show ?thesis
      using assms(6) unfolding None SetMetadataNamespace_def SetMetadataValues_def extract_metadata_def
      by (auto simp: deref_def GetMetadataValue_def doc_get_def Let_def simp del: set_all_ignoring.simps)
  next
    case (Some a)
    then have "a < length heap" using assms(5) by simp
    with one [of "heap ! a"] assms(3,6) Some show ?thesis
      unfolding SetMetadataNamespace_def SetMetadataValues_def extract_metadata_def
      by (auto simp: deref_def GetMetadataValue_def doc_get_def Let_def simp del: set_all_ignoring.simps)
  qed
qed

lemma SetMetadataNamespace_aliases_witness:
  "GetMetadataValue flat_json (deref (Some 0)
     (snd (SetMetadataNamespace flat_json (Some 0) ''b'' [[(''namespace'', AStr ''a'')]]))) ''namespace'' = AStr ''b''"
proof -
  obtain cx' heap' where e: "SetMetadataNamespace flat_json (Some 0) ''b'' [[(''namespace'', AStr ''a'')]] = (cx', heap')"
    by fastforce
  show ?thesis
    using SetMetadataNamespace_aliases [OF flat_json_laws [of UNIV] _ _ _ _ e]
    by (simp add: e MetadataKeyNamespace_def)
qed

end
