(* ===== verification/Effects.thy ===== *)
theory Effects
  imports Errors
begin

text \<open>
  Computations on the state of a transaction. A Go function that returns an error has often
  changed state before, so a computation gives a result that can fail and, in every case, the
  state it leaves. \<open>attempt\<close> is a call whose error the caller drops (\<open>x, _ := f()\<close>); a panic
  and exhausted fuel cannot be dropped.
\<close>

type_synonym ('s, 'a) eff = "'s \<Rightarrow> 'a res \<times> 's"

named_theorems eff_simps "evaluation of computations"

definition ret :: "'a \<Rightarrow> ('s, 'a) eff" where
  "ret a s = (Inr a, s)"

definition ebind :: "('s, 'a) eff \<Rightarrow> ('a \<Rightarrow> ('s, 'b) eff) \<Rightarrow> ('s, 'b) eff" where
  "ebind m f s = (case m s of (Inl e, t) \<Rightarrow> (Inl e, t) | (Inr a, t) \<Rightarrow> f a t)"

definition lift_res :: "'a res \<Rightarrow> ('s, 'a) eff" where
  "lift_res r s = (r, s)"

definition throw :: "code \<Rightarrow> string \<Rightarrow> ('s, 'a) eff" where
  "throw c msg = lift_res (fail c msg)"

definition wrap_eff :: "code \<Rightarrow> string \<Rightarrow> ('s, 'a) eff \<Rightarrow> ('s, 'a) eff" where
  "wrap_eff c msg m s = (case m s of (r, t) \<Rightarrow> (wrapping c msg r, t))"

definition attempt :: "('s, 'a) eff \<Rightarrow> ('s, 'a option) eff" where
  "attempt m s = (case m s of
     (Inl (Fail e), t) \<Rightarrow> (Inr None, t) | (Inl e, t) \<Rightarrow> (Inl e, t) | (Inr a, t) \<Rightarrow> (Inr (Some a), t))"

fun efold :: "('x \<Rightarrow> 'a \<Rightarrow> ('s, 'a) eff) \<Rightarrow> 'x list \<Rightarrow> 'a \<Rightarrow> ('s, 'a) eff" where
  "efold f [] a = ret a"
| "efold f (x # xs) a = ebind (f x a) (efold f xs)"

lemma ebind_cong [fundef_cong]:
  "m = m' \<Longrightarrow> s = s' \<Longrightarrow> (\<And>a t. m' s' = (Inr a, t) \<Longrightarrow> f a t = f' a t) \<Longrightarrow> ebind m f s = ebind m' f' s'"
  by (auto simp: ebind_def split: prod.splits sum.splits)

lemma ebind_run [eff_simps]:
  "m s = (Inr a, t) \<Longrightarrow> ebind m f s = f a t"
  "m s = (Inl e, t) \<Longrightarrow> ebind m f s = (Inl e, t)"
  by (simp_all add: ebind_def)

lemma ret_run [simp, eff_simps]: "ret a s = (Inr a, s)"
  by (simp add: ret_def)

lemma lift_res_run [simp, eff_simps]: "lift_res r s = (r, s)"
  by (simp add: lift_res_def)

lemma throw_run [simp, eff_simps]: "throw c msg s = (fail c msg, s)"
  by (simp add: throw_def)

lemma ebind_ret [simp, eff_simps]: "ebind (ret a) f = f a"
  by (rule ext) (simp add: ebind_def)

lemma ebind_lift_Inr [simp, eff_simps]: "ebind (lift_res (Inr a)) f = f a"
  by (rule ext) (simp add: ebind_def)

lemma ebind_InrE:
  assumes "ebind m f s = (Inr b, u)"
  obtains a t where "m s = (Inr a, t)" "f a t = (Inr b, u)"
  using assms by (auto simp: ebind_def split: prod.splits sum.splits)

lemma ebind_Inr_iff: "ebind m f s = (Inr b, u) \<longleftrightarrow> (\<exists>a t. m s = (Inr a, t) \<and> f a t = (Inr b, u))"
  by (auto simp: ebind_def split: prod.splits sum.splits)

lemma wrap_eff_Inr [simp, eff_simps]: "wrap_eff c msg m s = (Inr a, t) \<longleftrightarrow> m s = (Inr a, t)"
  by (auto simp: wrap_eff_def split: prod.splits)

lemma attempt_Inr_iff:
  "attempt m s = (Inr x, t) \<longleftrightarrow>
     (case x of Some a \<Rightarrow> m s = (Inr a, t) | None \<Rightarrow> \<exists>e. m s = (Inl (Fail e), t))"
  by (auto simp: attempt_def split: prod.splits sum.splits failure.splits option.splits)

text \<open>
  What a computation does to the state whether it fails or not: a relation between the states
  that is reflexive and transitive is kept by sequences, loops and dropped errors.
\<close>

definition keeps :: "('s \<Rightarrow> 's \<Rightarrow> bool) \<Rightarrow> ('s, 'a) eff \<Rightarrow> bool" where
  "keeps R m \<longleftrightarrow> (\<forall>s. R s (snd (m s)))"

locale state_rel =
  fixes R :: "'s \<Rightarrow> 's \<Rightarrow> bool"
  assumes refl: "R s s" and trans: "R s t \<Longrightarrow> R t u \<Longrightarrow> R s u"
begin

lemma keeps_ret [intro]: "keeps R (ret a)"
  by (simp add: keeps_def refl)

lemma keeps_lift [intro]: "keeps R (lift_res r)"
  by (simp add: keeps_def refl)

lemma keeps_throw [intro]: "keeps R (throw c msg)"
  by (simp add: keeps_def refl)

lemma keeps_bind [intro]:
  assumes "keeps R m" "\<And>a. keeps R (f a)"
  shows "keeps R (ebind m f)"
  unfolding keeps_def
proof
  fix s
  have m: "R s (snd (m s))" using assms(1) by (simp add: keeps_def)
  show "R s (snd (ebind m f s))"
  proof (cases "fst (m s)")
    case (Inl e)
    then have "ebind m f s = (Inl e, snd (m s))" by (cases "m s") (simp add: ebind_def)
    with m show ?thesis by simp
  next
    case (Inr a)
    then have "ebind m f s = f a (snd (m s))" by (cases "m s") (simp add: ebind_def)
    moreover have "R (snd (m s)) (snd (f a (snd (m s))))" using assms(2) by (simp add: keeps_def)
    ultimately show ?thesis using m trans by metis
  qed
qed

lemma keeps_wrap [intro]: "keeps R m \<Longrightarrow> keeps R (wrap_eff c msg m)"
  by (simp add: keeps_def wrap_eff_def split_beta)

lemma keeps_attempt [intro]: "keeps R m \<Longrightarrow> keeps R (attempt m)"
  unfolding keeps_def attempt_def by (auto split: prod.splits sum.splits failure.splits) (metis snd_conv)+

lemma keeps_fold: "(\<And>x a. x \<in> set xs \<Longrightarrow> keeps R (f x a)) \<Longrightarrow> keeps R (efold f xs a)"
  by (induction xs arbitrary: a) (auto intro: keeps_bind)

lemma keeps_run: "keeps R m \<Longrightarrow> m s = (r, t) \<Longrightarrow> R s t"
  unfolding keeps_def by (metis snd_conv)

end

end
