(* ===== verification/TxRead.thy ===== *)
theory TxRead
  imports Effects Authz Optimizer QueryOps
begin

text \<open>
  The read side of a transaction (\<open>tx.go\<close>, \<open>tx_util.go\<close>): \<open>Query\<close>, \<open>Get\<close>, \<open>ForEach\<close>,
  \<open>aggregate\<close>, \<open>queryScan\<close>, \<open>hasDocID\<close>. The record \<open>env\<close> holds what does not change while a
  transaction runs: the parameters, the key-value operations (the interface \<open>kv.Tx\<close>), the
  optimizer, the global scripts and the cached schemas. The record \<open>txn\<close> is the struct
  \<open>transaction\<close>: the state of the key-value transaction, the recorded changes, the JavaScript
  machine, the cached document ids, and a counter that the clock and the id generator draw on.

  \<open>Query\<close> and \<open>queryScan\<close> call each other (a secondary index is read with \<open>Get\<close>, a join with
  \<open>Query\<close>); \<open>tx_query\<close> counts the depth of these calls down.
\<close>

record ('s, 'r) env =
  enJ :: "'r json_lib"
  enJS :: "'r js_lib"
  enKV :: "('s, 'r) kv_ops"
  enOpt :: "'r schema \<Rightarrow> where_c list \<Rightarrow> explain res"
  enScripts :: string
  enColl :: "'r schema kvs"
  enCheckQuery :: "query \<Rightarrow> gerr option"
  enCheckSchema :: "'r schema \<Rightarrow> gerr option"
  enCheckDoc :: "'r schema \<Rightarrow> 'r \<Rightarrow> gerr + string list"
  enSlice :: "'r list \<Rightarrow> int \<Rightarrow> int \<Rightarrow> 'r list"
  enKsuid :: "nat \<Rightarrow> string"
  enClock :: "nat \<Rightarrow> int"
  enFromCDC :: "'r cdc \<Rightarrow> 'r res"
  enScanDiff :: "'r \<Rightarrow> field_op list res"

record ('s, 'r) txn =
  tKV :: 's
  tCDC :: "'r cdc list"
  tVM :: "'r globals"
  tDocs :: "string list"
  tTick :: nat

type_synonym ('s, 'r, 'a) tx = "(('s, 'r) txn, 'a) eff"

record 'r page =
  pgDocuments :: "'r list"
  pgNextPage :: int
  pgCount :: nat
  pgExplain :: explain

definition no_explain :: explain where
  "no_explain = \<lparr>eCollection = [], eIndex = no_index, eMatchedFields = [], eMatchedValues = [],
     eSeekFields = [], eSeekValues = [], eReverse = False\<rparr>"

definition getSchema :: "('s, 'r) env \<Rightarrow> 'r ctx \<Rightarrow> string \<Rightarrow> ('r schema \<times> 'r ctx) option" where
  "getSchema E cx collection = (case schemaFromCtx cx collection of
     Some s \<Rightarrow> Some (s, cx)
   | None \<Rightarrow> (case map_of (enColl E) collection of
       None \<Rightarrow> None | Some s \<Rightarrow> Some (s, schemaToCtx cx s)))"

definition unsupported_collection :: "string \<Rightarrow> ('s, 'a) eff" where
  "unsupported_collection collection = throw Validation (''tx: unsupported collection: '' @ collection)"

definition nil_pointer :: "'a res" where
  "nil_pointer = Inl (Panic ''invalid memory address or nil pointer dereference'')"

definition on_vm :: "('r globals \<Rightarrow> ('a \<times> 'r globals) res) \<Rightarrow> ('s, 'r, 'a) tx" where
  "on_vm f t = (case f (tVM t) of Inl e \<Rightarrow> (Inl e, t) | Inr (a, vm) \<Rightarrow> (Inr a, t\<lparr>tVM := vm\<rparr>))"

definition on_vm_run :: "('s, 'r) env \<Rightarrow> string \<Rightarrow> ('s, 'r, any) tx" where
  "on_vm_run E script = on_vm (\<lambda>vm. lift_err (jsRun (enJS E) vm script))"

definition kv_read :: "('s \<Rightarrow> 'a res) \<Rightarrow> ('s, 'r, 'a) tx" where
  "kv_read f t = (f (tKV t), t)"

subsection \<open>Get\<close>

text \<open>Every definition up to \<open>tx_query\<close> has the \<open>Query\<close> it calls as an argument \<open>qry\<close>.\<close>

type_synonym ('s, 'r) query_fn = "'r ctx \<Rightarrow> string \<Rightarrow> query \<Rightarrow> ('s, 'r, 'r page) tx"

definition get_query :: "string \<Rightarrow> string \<Rightarrow> query" where
  "get_query pk docID = empty_query\<lparr>qWhere := [\<lparr>wField = pk, wOp = WEq, wValue = AStr docID\<rparr>], qLimit := 1\<rparr>"

definition get_with :: "('s, 'r) env \<Rightarrow> ('s, 'r) query_fn \<Rightarrow> 'r ctx \<Rightarrow> string \<Rightarrow> string \<Rightarrow> ('s, 'r, 'r) tx" where
  "get_with E qry cx collection docID = (case getSchema E cx collection of
     None \<Rightarrow> unsupported_collection collection
   | Some (c, cx) \<Rightarrow>
       ebind (wrap_eff NotFound (docID @ '' not found'') (qry cx collection (get_query (PrimaryKey c) docID)))
         (\<lambda>results. case pgDocuments results of
             [] \<Rightarrow> if pgCount results = 0 then throw NotFound (docID @ '' not found'')
                 else lift_res (Inl (Panic ''index out of range''))
           | d # _ \<Rightarrow> if pgCount results = 0 then throw NotFound (docID @ '' not found'') else ret d))"

subsection \<open>The scan\<close>

definition computed_reads :: "'r schema \<Rightarrow> (string \<times> computed) list" where
  "computed_reads c = concat (map (\<lambda>(p, v). case pCompute v of
     Some cf \<Rightarrow> if cRead cf then [(p, cf)] else [] | None \<Rightarrow> []) (scPropertyPaths c))"

text \<open>The document of one item: stored in the primary index, looked up by id from a secondary one.\<close>

definition load_document ::
  "('s, 'r) env \<Rightarrow> ('s, 'r) query_fn \<Rightarrow> 'r ctx \<Rightarrow> string \<Rightarrow> explain \<Rightarrow> string \<times> 'r \<Rightarrow> ('s, 'r, 'r) tx" where
  "load_document E qry cx collection ex kv =
     (if iPrimary (eIndex ex) then lift_res (NewDocumentFromBytes (enJ E) (snd kv))
      else get_with E qry cx collection (key_docID (fst kv)))"

definition compute_fields :: "('s, 'r) env \<Rightarrow> (string \<times> computed) list \<Rightarrow> 'r \<Rightarrow> ('s, 'r, 'r) tx" where
  "compute_fields E cs = efold (\<lambda>(p, c) document.
     ebind (wrap_eff Internal (''failed to compute field '' @ p) (on_vm_run E (cExpr c)))
       (\<lambda>val. lift_res (doc_set (enJ E) p val document))) cs"

definition join_clause :: "'r json_lib \<Rightarrow> 'r \<Rightarrow> where_c \<Rightarrow> where_c" where
  "join_clause J document cl =
     (if HasPrefix (ToString J (wValue cl)) selfRefPrefix
      then cl\<lparr>wValue := doc_get J document (TrimPrefix (ToString J (wValue cl)) selfRefPrefix)\<rparr> else cl)"

text \<open>
  A joined document is merged into the document at its position, or into a copy of the first
  document, which is added at the end.
\<close>

definition merge_joined :: "'r json_lib \<Rightarrow> join_c \<Rightarrow> nat \<times> 'r \<Rightarrow> 'r list \<Rightarrow> 'r list res" where
  "merge_joined J j id_d documents = (case id_d of (i, d) \<Rightarrow>
     if i < length documents
     then rbind (MergeJoin J d (jAs j) (documents ! i)) (\<lambda>m. Inr (documents[i := m]))
     else rbind (MergeJoin J d (jAs j) (hd documents)) (\<lambda>m. Inr (documents @ [m])))"

definition join_one ::
  "('s, 'r) env \<Rightarrow> ('s, 'r) query_fn \<Rightarrow> 'r ctx \<Rightarrow> join_c \<Rightarrow> 'r list \<Rightarrow> ('s, 'r, 'r list) tx" where
  "join_one E qry cx j documents =
     ebind (qry cx (jCollection j) (empty_query\<lparr>qSelect := [select_field ''*''],
         qWhere := map (join_clause (enJ E) (hd documents)) (jOn j)\<rparr>))
       (\<lambda>results. lift_res (rfold (merge_joined (enJ E) j)
          (zip [0..<length (pgDocuments results)] (pgDocuments results)) documents))"

text \<open>\<open>emit\<close> hands the documents that pass to the callback, which says whether to go on.\<close>

fun emit :: "'r json_lib \<Rightarrow> where_c list \<Rightarrow> ('r \<Rightarrow> 'a \<Rightarrow> ('s, 'r, bool \<times> 'a) tx) \<Rightarrow> 'r list \<Rightarrow> 'a
    \<Rightarrow> ('s, 'r, bool \<times> 'a) tx" where
  "emit J ws f [] a = ret (True, a)"
| "emit J ws f (d # ds) a =
     ebind (lift_res (doc_where J d ws)) (\<lambda>pass.
       if pass then ebind (f d a) (\<lambda>(continue, a). if continue then emit J ws f ds a else ret (False, a))
       else emit J ws f ds a)"

definition scan_item ::
  "('s, 'r) env \<Rightarrow> ('s, 'r) query_fn \<Rightarrow> 'r ctx \<Rightarrow> 'r schema \<Rightarrow> string \<Rightarrow> explain \<Rightarrow> where_c list \<Rightarrow> join_c list
     \<Rightarrow> ('r \<Rightarrow> 'a \<Rightarrow> ('s, 'r, bool \<times> 'a) tx) \<Rightarrow> string \<times> 'r \<Rightarrow> 'a \<Rightarrow> ('s, 'r, bool \<times> 'a) tx" where
  "scan_item E qry cx c collection ex ws js f kv a =
     ebind (load_document E qry cx collection ex kv) (\<lambda>document.
     ebind (compute_fields E (computed_reads c) document) (\<lambda>document.
     ebind (efold (join_one E qry cx) js [document]) (\<lambda>documents.
       emit (enJ E) ws f documents a)))"

fun scan_items ::
  "(string \<times> 'r \<Rightarrow> 'a \<Rightarrow> ('s, 'r, bool \<times> 'a) tx) \<Rightarrow> 'r kvs \<Rightarrow> 'a \<Rightarrow> ('s, 'r, bool \<times> 'a) tx" where
  "scan_items step [] a = ret (True, a)"
| "scan_items step (kv # kvs) a =
     ebind (step kv a) (\<lambda>(continue, a). if continue then scan_items step kvs a else ret (False, a))"

definition queryScan ::
  "('s, 'r) env \<Rightarrow> ('s, 'r) query_fn \<Rightarrow> 'r ctx \<Rightarrow> string \<Rightarrow> where_c list \<Rightarrow> join_c list
     \<Rightarrow> ('r \<Rightarrow> 'a \<Rightarrow> ('s, 'r, bool \<times> 'a) tx) \<Rightarrow> 'a \<Rightarrow> ('s, 'r, explain \<times> 'a) tx" where
  "queryScan E qry cx collection ws js f a = (case getSchema E cx collection of
     None \<Rightarrow> unsupported_collection collection
   | Some (c, cx) \<Rightarrow>
       ebind (lift_res (enOpt E c ws)) (\<lambda>ex.
       ebind (kv_read (opIter (enKV E) (scan_opts (enJ E) (namespace (enJ E) cx) collection ex))) (\<lambda>items.
       ebind (scan_items (scan_item E qry cx c collection ex ws js f) items a) (\<lambda>(completed, a).
         ret (if completed then ex else no_explain, a)))))"

subsection \<open>Query\<close>

definition aggregate ::
  "('s, 'r) env \<Rightarrow> ('s, 'r) query_fn \<Rightarrow> 'r ctx \<Rightarrow> string \<Rightarrow> query \<Rightarrow> ('s, 'r, 'r page) tx" where
  "aggregate E qry cx collection q = (case getSchema E cx collection of
     None \<Rightarrow> unsupported_collection collection
   | Some (c, cx) \<Rightarrow>
       ebind (queryScan E qry cx collection (qWhere q) (qJoin q) (\<lambda>d results. ret (True, results @ [d])) [])
       (\<lambda>(match, results). lift_res (
         rbind (rfold (\<lambda>(k, ds) reduced. rbind (aggregateDocs (enJ E) ds (qSelect q)) (\<lambda>v.
             case v of Some d \<Rightarrow> Inr (reduced @ [d]) | None \<Rightarrow> nil_pointer))
           (groupByDocs (enJ E) (qGroupBy q) results) []) (\<lambda>reduced.
         rbind (wrapping Internal [] (docsHaving (enJ E) (qHaving q) reduced)) (\<lambda>reduced.
         rbind (orderByDocs (enJ E) (qOrderBy q) reduced) (\<lambda>reduced.
           let ds = paginate (enSlice E) True q reduced
           in Inr \<lparr>pgDocuments = ds, pgNextPage = int64 (qPage q + 1), pgCount = length ds, pgExplain = match\<rparr>))))))"

text \<open>The callback of \<open>Query\<close> collects the results and stops early when the page is full.\<close>

definition collect :: "query \<Rightarrow> 'r \<Rightarrow> bool \<times> 'r list \<Rightarrow> ('s, 'r, bool \<times> (bool \<times> 'r list)) tx" where
  "collect q d acc = (case acc of (fullScan, results) \<Rightarrow>
     let results = results @ [d]
     in if qPage q = 0 \<and> qOrderBy q = [] \<and> qLimit q > 0 \<and> int (length results) \<ge> qLimit q
        then ret (False, (False, results)) else ret (True, (fullScan, results)))"

definition with_select :: "query \<Rightarrow> query" where
  "with_select q = (if qSelect q = [] then q\<lparr>qSelect := [select_field ''*'']\<rparr> else q)"

definition finish_query :: "('s, 'r) env \<Rightarrow> query \<Rightarrow> explain \<Rightarrow> bool \<Rightarrow> 'r list \<Rightarrow> 'r page res" where
  "finish_query E q match fullScan results =
     rbind (orderByDocs (enJ E) (qOrderBy q) results) (\<lambda>results.
     let results = paginate (enSlice E) fullScan q results
     in rbind (if sField (hd (qSelect q)) \<noteq> ''*''
               then rfold (\<lambda>d ds. rbind (selectDocument (enJ E) (qSelect q) d) (\<lambda>d'. Inr (ds @ [d']))) results []
               else Inr results) (\<lambda>results.
          Inr \<lparr>pgDocuments = results, pgNextPage = int64 (qPage q + 1), pgCount = length results, pgExplain = match\<rparr>))"

definition query_with ::
  "('s, 'r) env \<Rightarrow> ('s, 'r) query_fn \<Rightarrow> 'r ctx \<Rightarrow> string \<Rightarrow> query \<Rightarrow> ('s, 'r, 'r page) tx" where
  "query_with E qry cx collection q0 =
     (let q = with_select q0 in
      ebind (lift_res (Validate (enCheckQuery E) q)) (\<lambda>_.
      case getSchema E cx collection of
        None \<Rightarrow> unsupported_collection collection
      | Some (schema, cx) \<Rightarrow>
          ebind (on_vm (authorizeQuery (enJ E) (enJS E) (enScripts E) cx schema q)) (\<lambda>allow.
          if \<not> allow then throw Forbidden (''not authorized: '' @ collection @ ''/query'')
          else if isAggregateQuery q then aggregate E qry cx collection q
          else ebind (queryScan E qry cx collection (qWhere q) (qJoin q) (collect q) (True, []))
            (\<lambda>(match, fullScan, results). lift_res (finish_query E q match fullScan results)))))"

fun tx_query :: "('s, 'r) env \<Rightarrow> nat \<Rightarrow> ('s, 'r) query_fn" where
  "tx_query E 0 cx collection q = lift_res (Inl NoFuel)"
| "tx_query E (Suc n) cx collection q = query_with E (tx_query E n) cx collection q"

definition tx_get :: "('s, 'r) env \<Rightarrow> nat \<Rightarrow> 'r ctx \<Rightarrow> string \<Rightarrow> string \<Rightarrow> ('s, 'r, 'r) tx" where
  "tx_get E n = get_with E (tx_query E n)"

definition ForEach ::
  "('s, 'r) env \<Rightarrow> nat \<Rightarrow> 'r ctx \<Rightarrow> string \<Rightarrow> where_c list \<Rightarrow> join_c list
     \<Rightarrow> ('r \<Rightarrow> 'a \<Rightarrow> ('s, 'r, bool \<times> 'a) tx) \<Rightarrow> 'a \<Rightarrow> ('s, 'r, explain \<times> 'a) tx" where
  "ForEach E n cx collection ws js f a = (case getSchema E cx collection of
     None \<Rightarrow> if cxInternal cx \<or> cxIndexing cx then unsupported_collection collection else lift_res nil_pointer
   | Some (schema, _) \<Rightarrow>
       ebind (on_vm (authorizeQuery (enJ E) (enJS E) (enScripts E) cx schema (empty_query\<lparr>qWhere := ws, qJoin := js\<rparr>)))
       (\<lambda>pass. if \<not> pass then throw Forbidden ''not authorized: query''
          else queryScan E (tx_query E n) cx collection ws js f a))"

definition doc_ref :: "string \<Rightarrow> string \<Rightarrow> string" where
  "doc_ref collection docID = collection @ ''/'' @ docID"

definition remember_doc :: "string \<Rightarrow> ('s, 'r, unit) tx" where
  "remember_doc ref t = (Inr (), t\<lparr>tDocs := List.insert ref (tDocs t)\<rparr>)"

definition forget_doc :: "string \<Rightarrow> ('s, 'r, unit) tx" where
  "forget_doc ref t = (Inr (), t\<lparr>tDocs := removeAll ref (tDocs t)\<rparr>)"

definition hasDocID :: "('s, 'r) env \<Rightarrow> nat \<Rightarrow> 'r ctx \<Rightarrow> 'r schema \<Rightarrow> string \<Rightarrow> ('s, 'r, bool) tx" where
  "hasDocID E n cx schema docID t =
     (if doc_ref (scCollection schema) docID \<in> set (tDocs t) then (Inr True, t)
      else ebind (wrap_eff Internal [] (tx_query E n cx (scCollection schema) (empty_query\<lparr>
             qSelect := [select_field ''*''],
             qWhere := [\<lparr>wField = PrimaryKey schema, wOp = WEq, wValue = AStr docID\<rparr>], qLimit := 1\<rparr>)))
           (\<lambda>results. if pgCount results = 0
              then throw Validation (''foreign key with value '' @ docID @ '' does not exist: '' @
                 scCollection schema @ ''/'' @ PrimaryKey schema)
              else ebind (remember_doc (doc_ref (scCollection schema) docID)) (\<lambda>_. ret True)) t)"

end
