(* ===== verification/TxWrite.thy ===== *)
theory TxWrite
  imports TxRead
begin

text \<open>
  The write side of a transaction (\<open>tx_util.go\<close>, \<open>tx.go\<close>): \<open>persistCommand\<close> with its stages
  \<open>evaluate\<close>, \<open>createDocument\<close>, \<open>setDocument\<close>, \<open>updateDocument\<close>, \<open>deleteDocument\<close>,
  \<open>cascadeDelete\<close>, \<open>updateSecondaryIndex\<close>, the record of changes, and the operations
  \<open>Create\<close>, \<open>Set\<close>, \<open>Update\<close>, \<open>Delete\<close>, \<open>TimeTravel\<close>, \<open>Revert\<close> and \<open>Cmd\<close> of a transaction.

  The command's document is a pointer that the JavaScript machine shares: scripts run with it
  as the global \<open>doc\<close> and what they leave there is the document from then on. The operations
  return it in its final state. \<open>persistCommand\<close> calls itself to store the change record and,
  through \<open>Delete\<close>, to cascade; its first argument counts the depth of these calls down. The
  document that \<open>Delete\<close> builds from a map of one string always encodes. The
  goroutines of \<open>cascadeDelete\<close> run one after the other, in the order of the collections.
\<close>

subsection \<open>State access\<close>

definition kv_write :: "('s \<Rightarrow> 's res) \<Rightarrow> ('s, 'r, unit) tx" where
  "kv_write f t = (case f (tKV t) of Inl e \<Rightarrow> (Inl e, t) | Inr s \<Rightarrow> (Inr (), t\<lparr>tKV := s\<rparr>))"

definition draw :: "(nat \<Rightarrow> 'a) \<Rightarrow> ('s, 'r, 'a) tx" where
  "draw f t = (Inr (f (tTick t)), t\<lparr>tTick := Suc (tTick t)\<rparr>)"

definition set_globals :: "('r globals \<Rightarrow> 'r globals) \<Rightarrow> ('s, 'r, unit) tx" where
  "set_globals f t = (Inr (), t\<lparr>tVM := f (tVM t)\<rparr>)"

definition run_on_doc :: "('s, 'r) env \<Rightarrow> string \<Rightarrow> 'r \<Rightarrow> ('s, 'r, any \<times> 'r) tx" where
  "run_on_doc E script document =
     ebind (set_globals (gvDoc_update (\<lambda>_. Some document))) (\<lambda>_.
     ebind (on_vm_run E script) (\<lambda>val t.
       (Inr (val, case gvDoc (tVM t) of Some d \<Rightarrow> d | None \<Rightarrow> document), t)))"

definition ValidateDocument :: "('s, 'r) env \<Rightarrow> 'r schema \<Rightarrow> 'r \<Rightarrow> unit res" where
  "ValidateDocument E c document = (case enCheckDoc E c document of
     Inl e \<Rightarrow> Inl (Fail (wrap e Validation (scCollection c @ '': failed to validate document'')))
   | Inr msgs \<Rightarrow> (if msgs \<noteq> []
       then fail Validation (scCollection c @ '': document validation error - '' @ JoinStr '', '' msgs)
       else Inr ()))"

text \<open>Where the primary index holds a document.\<close>

definition primary_key_path :: "('s, 'r) env \<Rightarrow> 'r ctx \<Rightarrow> 'r schema \<Rightarrow> string \<Rightarrow> bytes" where
  "primary_key_path E cx c docID = entry_key (enJ E) (namespace (enJ E) cx) (scCollection c) (scPrimaryIndex c)
     [(PrimaryKey c, AStr docID)] docID"

definition index_key_path :: "('s, 'r) env \<Rightarrow> 'r ctx \<Rightarrow> string \<Rightarrow> index_c \<Rightarrow> 'r \<Rightarrow> string \<Rightarrow> bytes" where
  "index_key_path E cx collection idx document docID =
     entry_key (enJ E) (namespace (enJ E) cx) collection idx (doc_value (enJ E) document) docID"

subsection \<open>Writing a document\<close>

definition compute_write :: "('s, 'r) env \<Rightarrow> string \<times> property \<Rightarrow> 'r \<Rightarrow> ('s, 'r, 'r) tx" where
  "compute_write E pv document = (case pCompute (snd pv) of
     Some cf \<Rightarrow> if cWrite cf
       then ebind (wrap_eff Internal ''failed to compute value'' (run_on_doc E (cExpr cf) document))
         (\<lambda>(val, document). lift_res (wrapping Internal (''failed to compute property: '' @ fst pv) (doc_set (enJ E) (fst pv) val document)))
       else ret document
   | None \<Rightarrow> ret document)"

definition apply_default :: "('s, 'r) env \<Rightarrow> string \<times> property \<Rightarrow> 'r \<Rightarrow> 'r res" where
  "apply_default E pv document = (case pDefault (snd pv) of
     Some v \<Rightarrow> if \<not> doc_exists (enJ E) document (fst pv)
       then wrapping Internal (''failed to set default property: '' @ fst pv) (doc_set (enJ E) (fst pv) v document)
       else Inr document
   | None \<Rightarrow> Inr document)"

definition keep_immutable :: "('s, 'r) env \<Rightarrow> 'r \<Rightarrow> string \<times> property \<Rightarrow> 'r \<Rightarrow> 'r res" where
  "keep_immutable E before pv document =
     wrapping Internal ''failed to set immutable property'' (doc_set (enJ E) (fst pv) (doc_get (enJ E) before (fst pv)) document)"

definition createDocument :: "('s, 'r) env \<Rightarrow> 'r ctx \<Rightarrow> 'r schema \<Rightarrow> 'r \<Rightarrow> ('s, 'r, 'r) tx" where
  "createDocument E cx c document =
     (let docID = GetPrimaryKey (enJ E) c document in
      ebind (lift_res (SetPrimaryKey (enJ E) c document docID)) (\<lambda>document.
      ebind (efold (\<lambda>pv document. ebind (compute_write E pv document) (\<lambda>document.
               lift_res (apply_default E pv document))) (scPropertyPaths c) document) (\<lambda>document.
      ebind (lift_res (ValidateDocument E c document)) (\<lambda>_.
      ebind (wrap_eff Internal ''failed to batch set documents to primary index''
               (kv_write (opSet (enKV E) (primary_key_path E cx c docID) document))) (\<lambda>_. ret document)))))"

definition setDocument ::
  "('s, 'r) env \<Rightarrow> 'r ctx \<Rightarrow> 'r schema \<Rightarrow> string \<Rightarrow> 'r option \<Rightarrow> 'r \<Rightarrow> ('s, 'r, 'r) tx" where
  "setDocument E cx c docID before document =
     (if docID = [] then throw Validation ''tx: set command - empty document id''
      else if scImmutable c \<and> before \<noteq> None
      then throw Forbidden (''tx: collection: '' @ scCollection c @ '' is immutable'')
      else ebind (efold (\<lambda>pv document. ebind (compute_write E pv document) (\<lambda>document.
             lift_res (rbind (apply_default E pv document) (\<lambda>document.
               case before of
                 None \<Rightarrow> Inr document
               | Some b \<Rightarrow> if pImmutable (snd pv)
                   then rbind (iface_neq (doc_get (enJ E) document (fst pv)) (doc_get (enJ E) b (fst pv)))
                     (\<lambda>ne. if ne then keep_immutable E b pv document else Inr document)
                   else Inr document)))) (scPropertyPaths c) document) (\<lambda>document.
           ebind (lift_res (ValidateDocument E c document)) (\<lambda>_.
           ebind (wrap_eff Internal ''failed to set documents to primary index''
               (kv_write (opSet (enKV E) (primary_key_path E cx c docID) document))) (\<lambda>_. ret document))))"

text \<open>The stored document is the old one with the fields of the command's document set.\<close>

definition updateDocument ::
  "('s, 'r) env \<Rightarrow> 'r ctx \<Rightarrow> 'r schema \<Rightarrow> string \<Rightarrow> 'r option \<Rightarrow> 'r \<Rightarrow> ('s, 'r, 'r) tx" where
  "updateDocument E cx c docID before document = (case before of
     None \<Rightarrow> throw Internal ''tx: updateDocument - empty before value''
   | Some b \<Rightarrow>
     if scImmutable c then throw Forbidden (''tx: collection: '' @ scCollection c @ '' is immutable'')
     else ebind (efold (\<lambda>pv document. ebind (compute_write E pv document) (\<lambda>document.
             lift_res (rbind (apply_default E pv document) (\<lambda>document.
               if pImmutable (snd pv) then keep_immutable E b pv document else Inr document))))
             (scPropertyPaths c) document) (\<lambda>document.
          ebind (lift_res (rbind (lift_err (Flatten (enJ E) (doc_value (enJ E) document)))
                   (\<lambda>flattened. SetAll (enJ E) flattened b))) (\<lambda>after.
          ebind (lift_res (ValidateDocument E c after)) (\<lambda>_.
          ebind (wrap_eff Internal ''failed to batch set documents to primary index''
               (kv_write (opSet (enKV E) (primary_key_path E cx c docID) after))) (\<lambda>_. ret document)))))"

definition deleteDocument :: "('s, 'r) env \<Rightarrow> 'r ctx \<Rightarrow> 'r schema \<Rightarrow> string \<Rightarrow> ('s, 'r, unit) tx" where
  "deleteDocument E cx c docID =
     (if scImmutable c then throw Forbidden (''tx: collection: '' @ scCollection c @ '' is immutable'')
      else if scPreventDeletes c then throw Forbidden (''tx: collection: '' @ scCollection c @ '' prevents deletes'')
      else if docID = [] then throw Validation ''tx: delete command - empty document id''
      else wrap_eff 0 ''failed to delete documents'' (kv_write (opDel (enKV E) (primary_key_path E cx c docID))))"

subsection \<open>Secondary indexes\<close>

definition drop_entry ::
  "('s, 'r) env \<Rightarrow> 'r ctx \<Rightarrow> string \<Rightarrow> index_c \<Rightarrow> string \<Rightarrow> 'r \<Rightarrow> ('s, 'r, unit) tx" where
  "drop_entry E cx collection idx docID before =
     wrap_eff Internal (''failed to delete document '' @ doc_ref collection docID @ '' index references'')
       (kv_write (opDel (enKV E) (index_key_path E cx collection idx before docID)))"

definition check_foreign ::
  "('s, 'r) env \<Rightarrow> nat \<Rightarrow> 'r ctx \<Rightarrow> index_c \<Rightarrow> 'r \<Rightarrow> ('s, 'r, unit) tx" where
  "check_foreign E n cx idx document = (case iForeignKey idx of
     None \<Rightarrow> ret ()
   | Some fk \<Rightarrow> (case iFields idx of
       [] \<Rightarrow> lift_res (Inl (Panic ''index out of range''))
     | f # _ \<Rightarrow>
       if doc_get (enJ E) document f = ANil then ret ()
       else (case getSchema E cx (fkCollection fk) of
         None \<Rightarrow> throw Validation (''foreign_key collection does not exist: '' @ fkCollection fk)
       | Some (fcollection, cx) \<Rightarrow>
           ebind (wrap_eff Internal [] (hasDocID E n cx fcollection (GetString (enJ E) document f))) (\<lambda>has.
             if has then ret ()
             else throw Validation (''foreign key with value '' @ GetString (enJ E) document f @ '' does not exist: ''
               @ fkCollection fk @ ''/'' @ PrimaryKey fcollection)))))"

text \<open>The uniqueness test walks over every key below the path of the indexed values.\<close>

definition check_unique ::
  "('s, 'r) env \<Rightarrow> 'r ctx \<Rightarrow> string \<Rightarrow> index_c \<Rightarrow> string \<Rightarrow> 'r \<Rightarrow> ('s, 'r, unit) tx" where
  "check_unique E cx collection idx docID document =
     (if iUnique idx \<and> \<not> iPrimary idx
      then ebind (kv_read (opIter (enKV E) \<lparr>Prefix = Some (scan_key (enJ E) (namespace (enJ E) cx) collection idx
               (doc_value (enJ E) document)), UpperBound = None, Seek = None, Reverse = False\<rparr>))
        (\<lambda>items. if list_ex (\<lambda>kv. key_docID (fst kv) \<noteq> docID) items
           then throw Validation (''duplicate value( '' @ docID @ '' ) found for unique index: '' @ iName idx) else ret ())
      else ret ())"

definition updateSecondaryIndex ::
  "('s, 'r) env \<Rightarrow> nat \<Rightarrow> 'r ctx \<Rightarrow> string \<Rightarrow> index_c \<Rightarrow> string \<Rightarrow> 'r option \<Rightarrow> action \<Rightarrow> 'r \<Rightarrow> ('s, 'r, unit) tx" where
  "updateSecondaryIndex E n cx collection idx docID before act document =
     (if iPrimary idx then ret ()
      else if act = DeleteAction
      then (case before of
          None \<Rightarrow> lift_res nil_pointer
        | Some b \<Rightarrow> ebind (drop_entry E cx collection idx docID b) (\<lambda>_. forget_doc (doc_ref collection docID)))
      else if act \<in> {SetAction, UpdateAction, CreateAction}
      then ebind (case before of Some b \<Rightarrow> drop_entry E cx collection idx docID b | None \<Rightarrow> ret ()) (\<lambda>_.
           ebind (check_foreign E n cx idx document) (\<lambda>_.
           ebind (check_unique E cx collection idx docID document) (\<lambda>_.
           ebind (wrap_eff Internal (''failed to set document '' @ doc_ref collection docID @ '' index references'')
             (kv_write (opSet (enKV E) (index_key_path E cx collection idx document docID) (BytesOf (enJ E) docID)))) (\<lambda>_.
             remember_doc (doc_ref collection docID)))))
      else ret ())"

subsection \<open>Triggers and authorization\<close>

definition trigger_fires :: "action \<Rightarrow> trigger \<Rightarrow> bool" where
  "trigger_fires act tr \<longleftrightarrow>
     (act = DeleteAction \<and> OnDelete \<in> set (trEvents tr)) \<or> (act = SetAction \<and> OnSet \<in> set (trEvents tr)) \<or>
     (act = CreateAction \<and> OnCreate \<in> set (trEvents tr)) \<or> (act = UpdateAction \<and> OnUpdate \<in> set (trEvents tr))"

definition evaluate ::
  "('s, 'r) env \<Rightarrow> 'r ctx \<Rightarrow> 'r schema \<Rightarrow> action \<Rightarrow> 'r option \<Rightarrow> 'r \<Rightarrow> ('s, 'r, 'r) tx" where
  "evaluate E cx c act meta document =
     ebind (set_globals (\<lambda>vm. vm\<lparr>gvCtx := Some cx, gvDoc := Some document, gvMeta := meta, gvSchema := Some c\<rparr>)) (\<lambda>_.
     ebind (efold (\<lambda>tr document. if trigger_fires act tr
              then ebind (run_on_doc E (enScripts E @ trScript tr) document) (\<lambda>(_, document). ret document)
              else ret document) (scTriggers c) document) (\<lambda>document.
     if cxInternal cx then ret document
     else ebind (on_vm (authorizeCommand (enJS E) (enScripts E) cx c act)) (\<lambda>pass.
       if pass then (\<lambda>t. (Inr (case gvDoc (tVM t) of Some d \<Rightarrow> d | None \<Rightarrow> document), t))
       else throw Forbidden (''not authorized: '' @ action_text act))))"

subsection \<open>persistCommand\<close>

type_synonym ('s, 'r) persist_fn = "'r ctx \<Rightarrow> 'r persist_command \<Rightarrow> ('s, 'r, 'r) tx"

definition tx_delete_with :: "('s, 'r) env \<Rightarrow> ('s, 'r) persist_fn \<Rightarrow> 'r ctx \<Rightarrow> string \<Rightarrow> string \<Rightarrow> ('s, 'r, unit) tx" where
  "tx_delete_with E per cx collection docID = (case getSchema E cx collection of
     None \<Rightarrow> unsupported_collection collection
   | Some (schema, cx) \<Rightarrow>
     (case NewDocumentFrom (enJ E) [(PrimaryKey schema, AStr docID)] of
       Inl e \<Rightarrow> lift_res nil_pointer
     | Inr d \<Rightarrow> ebind (draw (enClock E)) (\<lambda>now.
         ebind (wrap_eff 0 ''tx: failed to commit delete'' (per cx \<lparr>pcCollection = collection, pcAction = DeleteAction,
           pcDocument = d, pcTimestamp = now, pcMetadata = Some (ExtractMetadata (enJ E) cx)\<rparr>)) (\<lambda>_. ret ()))))"

definition cascadeDelete ::
  "('s, 'r) env \<Rightarrow> nat \<Rightarrow> ('s, 'r) persist_fn \<Rightarrow> 'r ctx \<Rightarrow> 'r schema \<Rightarrow> string \<Rightarrow> 'r \<Rightarrow> ('s, 'r, unit) tx" where
  "cascadeDelete E n per cx schema collection document =
     wrap_eff Internal (scCollection schema @ '' failed to cascade delete reference documents'')
       (efold (\<lambda>(_, c) _. efold (\<lambda>i _.
          if (case iForeignKey i of Some fk \<Rightarrow> fkCollection fk = collection | None \<Rightarrow> False)
          then (case iFields i of
              [] \<Rightarrow> lift_res (Inl (Panic ''index out of range''))
            | f # _ \<Rightarrow> ebind (tx_query E n cx (scCollection c) (empty_query\<lparr>qSelect := [select_field ''*''],
                  qWhere := [\<lparr>wField = f, wOp = WEq, wValue = AStr (GetPrimaryKey (enJ E) schema document)\<rparr>]\<rparr>))
                (\<lambda>results. efold (\<lambda>d _. tx_delete_with E per cx (scCollection c) (GetPrimaryKey (enJ E) c d))
                   (pgDocuments results) ()))
          else ret ()) (Indexing_map c) ()) (enColl E) ())"

definition cdcCollectionName :: string where
  "cdcCollectionName = ''system_cdc''"

definition record_cdc ::
  "('s, 'r) env \<Rightarrow> ('s, 'r) persist_fn \<Rightarrow> 'r ctx \<Rightarrow> 'r schema \<Rightarrow> 'r persist_command \<Rightarrow> int \<Rightarrow> 'r option \<Rightarrow> 'r option
     \<Rightarrow> 'r \<Rightarrow> ('s, 'r, unit) tx" where
  "record_cdc E per cx c command timestamp meta before document =
     (if pcCollection command = cdcCollectionName then ret ()
      else ebind (draw (enKsuid E)) (\<lambda>ksuid.
        let entry = \<lparr>cdcID = ksuid, cdcCollection = pcCollection command, cdcAction = pcAction command,
              cdcDocumentID = GetPrimaryKey (enJ E) c document, cdcDiff = Diff (enJ E) document before,
              cdcTimestamp = timestamp, cdcMetadata = meta\<rparr>
        in ebind (lift_res (wrapping Internal ''failed to persist cdc'' (enFromCDC E entry))) (\<lambda>cdcDoc.
           ebind (wrap_eff Internal ''failed to persist cdc'' (per (SetIsInternal cx) \<lparr>pcCollection = cdcCollectionName,
             pcAction = CreateAction, pcDocument = cdcDoc, pcTimestamp = timestamp, pcMetadata = meta\<rparr>))
             (\<lambda>_ t. (Inr (), t\<lparr>tCDC := tCDC t @ [entry]\<rparr>)))))"

definition apply_action ::
  "('s, 'r) env \<Rightarrow> nat \<Rightarrow> ('s, 'r) persist_fn \<Rightarrow> 'r ctx \<Rightarrow> 'r schema \<Rightarrow> string \<Rightarrow> action \<Rightarrow> string \<Rightarrow> 'r option \<Rightarrow> 'r
     \<Rightarrow> ('s, 'r, 'r) tx" where
  "apply_action E n per cx c collection act docID before document =
     (let remember = (\<lambda>document. ebind (remember_doc (doc_ref collection docID)) (\<lambda>_. ret document)) in
      case act of
        UpdateAction \<Rightarrow>
          if scImmutable c then throw Forbidden (''tx: collection: '' @ collection @ '' is immutable'')
          else ebind (updateDocument E cx c docID before document) remember
      | CreateAction \<Rightarrow> ebind (createDocument E cx c document) remember
      | DeleteAction \<Rightarrow>
          ebind (deleteDocument E cx c docID) (\<lambda>_.
          ebind (cascadeDelete E n per cx c collection document) (\<lambda>_.
          ebind (forget_doc (doc_ref collection docID)) (\<lambda>_. ret document)))
      | SetAction \<Rightarrow> ebind (setDocument E cx c docID before document) remember
      | a \<Rightarrow> lift_res (Inl (Fail (Plain (''tx: unsupported action: '' @ action_text a)))))"

definition persist_with :: "('s, 'r) env \<Rightarrow> nat \<Rightarrow> ('s, 'r) persist_fn \<Rightarrow> ('s, 'r) persist_fn" where
  "persist_with E n per cx command = (case getSchema E cx (pcCollection command) of
     None \<Rightarrow> lift_res (Inl (Fail (Plain (''tx: collection: '' @ pcCollection command @ '' does not exist''))))
   | Some (c, _) \<Rightarrow>
     if scReadOnly c \<and> \<not> cxInternal cx
     then lift_res (Inl (Fail (Plain (''tx: collection: '' @ pcCollection command @ '' is read only''))))
     else (let docID = GetPrimaryKey (enJ E) c (pcDocument command) in
       ebind (if pcTimestamp command = 0 then draw (enClock E) else ret (pcTimestamp command)) (\<lambda>timestamp.
       let meta = (case pcMetadata command of Some m \<Rightarrow> Some m | None \<Rightarrow> Some (ExtractMetadata (enJ E) cx)) in
       ebind (lift_res (case enCheckSchema E c of Some e \<Rightarrow> Inl (Fail (wrap e Validation [])) | None \<Rightarrow> Inr ())) (\<lambda>_.
       ebind (attempt (tx_get E n cx (pcCollection command) docID)) (\<lambda>before.
       if cxIndexing cx
       then ebind (efold (\<lambda>i _. if iPrimary i then ret ()
                else wrap_eff Internal [] (updateSecondaryIndex E n cx (pcCollection command) i docID before
                   (pcAction command) (pcDocument command))) (Indexing_map c) ())
              (\<lambda>_. ret (pcDocument command))
       else ebind (evaluate E cx c (pcAction command) meta (pcDocument command)) (\<lambda>document.
            ebind (apply_action E n per cx c (pcCollection command) (pcAction command) docID before document) (\<lambda>document.
            ebind (efold (\<lambda>i _. wrap_eff 0 ''failed to update secondary index''
                     (updateSecondaryIndex E n cx (pcCollection command) i docID before (pcAction command) document))
                     (Indexing_map c) ()) (\<lambda>_.
            ebind (record_cdc E per cx c command timestamp meta before document) (\<lambda>_. ret document)))))))))"

fun persistCommand :: "('s, 'r) env \<Rightarrow> nat \<Rightarrow> ('s, 'r) persist_fn" where
  "persistCommand E 0 cx command = lift_res (Inl NoFuel)"
| "persistCommand E (Suc n) cx command = persist_with E n (persistCommand E n) cx command"

subsection \<open>The operations of a transaction\<close>

definition commit_command ::
  "('s, 'r) env \<Rightarrow> nat \<Rightarrow> 'r ctx \<Rightarrow> string \<Rightarrow> action \<Rightarrow> 'r \<Rightarrow> string \<Rightarrow> ('s, 'r, 'r) tx" where
  "commit_command E n cx collection act document msg =
     ebind (draw (enClock E)) (\<lambda>now. wrap_eff 0 msg (persistCommand E n cx \<lparr>pcCollection = collection,
       pcAction = act, pcDocument = document, pcTimestamp = now, pcMetadata = Some (ExtractMetadata (enJ E) cx)\<rparr>))"

definition Create :: "('s, 'r) env \<Rightarrow> nat \<Rightarrow> 'r ctx \<Rightarrow> string \<Rightarrow> 'r \<Rightarrow> ('s, 'r, string \<times> 'r) tx" where
  "Create E n cx collection document = (case getSchema E cx collection of
     None \<Rightarrow> unsupported_collection collection
   | Some (c, cx) \<Rightarrow>
       (let docID0 = GetPrimaryKey (enJ E) c document in
        ebind (if docID0 = []
               then ebind (draw (enKsuid E)) (\<lambda>docID.
                 ebind (lift_res (SetPrimaryKey (enJ E) c document docID)) (\<lambda>document. ret (docID, document)))
               else ret (docID0, document)) (\<lambda>(docID, document).
        ebind (commit_command E n cx collection CreateAction document ''tx: failed to commit create'') (\<lambda>document.
          ret (docID, document)))))"

definition tx_Set :: "('s, 'r) env \<Rightarrow> nat \<Rightarrow> 'r ctx \<Rightarrow> string \<Rightarrow> 'r \<Rightarrow> ('s, 'r, 'r) tx" where
  "tx_Set E n cx collection document = (case getSchema E cx collection of
     None \<Rightarrow> unsupported_collection collection
   | Some (schema, cx) \<Rightarrow> commit_command E n cx collection SetAction document ''tx: failed to commit set'')"

definition Update :: "('s, 'r) env \<Rightarrow> nat \<Rightarrow> 'r ctx \<Rightarrow> string \<Rightarrow> string \<Rightarrow> any kvs \<Rightarrow> ('s, 'r, 'r) tx" where
  "Update E n cx collection docID update = (case getSchema E cx collection of
     None \<Rightarrow> unsupported_collection collection
   | Some (schema, cx) \<Rightarrow>
       ebind (lift_res (wrapping 0 ''tx: failed to update'' (NewDocumentFrom (enJ E) update))) (\<lambda>document.
       ebind (lift_res (wrapping 0 ''tx: failed to set primary key'' (SetPrimaryKey (enJ E) schema document docID))) (\<lambda>document.
         commit_command E n cx collection UpdateAction document ''tx: failed to commit update'')))"

definition Delete :: "('s, 'r) env \<Rightarrow> nat \<Rightarrow> 'r ctx \<Rightarrow> string \<Rightarrow> string \<Rightarrow> ('s, 'r, unit) tx" where
  "Delete E n = tx_delete_with E (persistCommand E n)"

text \<open>The change records of a document from a time on, newest first, are reverted one by one.\<close>

definition time_travel_query :: "string \<Rightarrow> string \<Rightarrow> int \<Rightarrow> query" where
  "time_travel_query collection docID ns = empty_query\<lparr>
     qWhere := [\<lparr>wField = ''documentID'', wOp = WEq, wValue = AStr docID\<rparr>,
       \<lparr>wField = ''collection'', wOp = WEq, wValue = AStr collection\<rparr>,
       \<lparr>wField = ''timestamp'', wOp = WGte, wValue = ANum KInt64 (of_int ns)\<rparr>],
     qOrderBy := [\<lparr>obDirection = Desc, obField = ''timestamp''\<rparr>]\<rparr>"

definition TimeTravel :: "('s, 'r) env \<Rightarrow> nat \<Rightarrow> 'r ctx \<Rightarrow> string \<Rightarrow> string \<Rightarrow> int \<Rightarrow> ('s, 'r, 'r) tx" where
  "TimeTravel E n cx collection docID ns =
     ebind (tx_get E n cx collection docID) (\<lambda>current.
     ebind (tx_query E n cx cdcCollectionName (time_travel_query collection docID ns)) (\<lambda>results.
       if pgDocuments results = [] then throw NotFound (''not found: '' @ doc_ref collection docID)
       else lift_res (rfold (\<lambda>doc current. rbind (enScanDiff E doc) (\<lambda>diff. RevertOps (enJ E) diff current))
              (pgDocuments results) current)))"

definition Revert :: "('s, 'r) env \<Rightarrow> nat \<Rightarrow> 'r ctx \<Rightarrow> string \<Rightarrow> string \<Rightarrow> int \<Rightarrow> ('s, 'r, unit) tx" where
  "Revert E n cx collection docID ns =
     ebind (TimeTravel E n cx collection docID ns) (\<lambda>document.
     ebind (tx_Set E n cx collection document) (\<lambda>_. ret ()))"

end
