(* ===== verification/TxLaws.thy ===== *)
theory TxLaws
  imports TxWrite
begin

text \<open>
  Laws of the transaction that hold for every key-value back end: reads do not write, and the
  calls of \<open>Query\<close> and \<open>queryScan\<close> to each other end.
\<close>

subsection \<open>What reads keep\<close>

text \<open>
  A read changes the globals of the JavaScript machine and the counter of draws at most: every
  reflexive and transitive relation that does not look at them is kept by it.
\<close>

locale read_rel = state_rel R for R :: "('s, 'r) txn \<Rightarrow> ('s, 'r) txn \<Rightarrow> bool" +
  assumes same: "tKV u = tKV t \<Longrightarrow> tCDC u = tCDC t \<Longrightarrow> tDocs u = tDocs t \<Longrightarrow> R t u"

context read_rel begin

lemma keeps_on_vm: "keeps R (on_vm f)"
  by (auto simp: keeps_def on_vm_def intro: same split: sum.splits prod.splits)

lemma keeps_vm_run: "keeps R (on_vm_run E script)"
  unfolding on_vm_run_def by (rule keeps_on_vm)

lemma keeps_kv_read: "keeps R (kv_read f)"
  by (simp add: keeps_def kv_read_def refl)

lemma keeps_draw: "keeps R (draw f)"
  by (simp add: keeps_def draw_def same)

lemma keeps_set_globals: "keeps R (set_globals f)"
  by (simp add: keeps_def set_globals_def same)

lemma keeps_unsupported: "keeps R (unsupported_collection collection)"
  unfolding unsupported_collection_def by (rule keeps_throw)

lemma keeps_value: "keeps R (\<lambda>t. (g t, t))"
  by (simp add: keeps_def refl)

lemma keeps_run_on_doc: "keeps R (run_on_doc E script document)"
  unfolding run_on_doc_def by (intro keeps_bind keeps_set_globals keeps_vm_run keeps_value)

lemmas read_rules = keeps_ret keeps_lift keeps_throw keeps_bind keeps_wrap keeps_attempt keeps_on_vm keeps_vm_run
  keeps_kv_read keeps_draw keeps_set_globals keeps_unsupported keeps_run_on_doc keeps_fold

lemma keeps_get_with:
  "(\<And>cx collection q. keeps R (qry cx collection q)) \<Longrightarrow> keeps R (get_with E qry cx collection docID)"
  unfolding get_with_def
  by (auto simp: keeps_throw split: option.splits intro!: read_rules split: list.splits)

lemma keeps_load_document:
  "(\<And>cx collection q. keeps R (qry cx collection q)) \<Longrightarrow> keeps R (load_document E qry cx collection ex kv)"
  unfolding load_document_def by (auto intro!: read_rules keeps_get_with)

lemma keeps_compute_fields: "keeps R (compute_fields E cs document)"
  unfolding compute_fields_def by (rule keeps_fold) (auto intro!: read_rules)

lemma keeps_join_one:
  "(\<And>cx collection q. keeps R (qry cx collection q)) \<Longrightarrow> keeps R (join_one E qry cx j documents)"
  unfolding join_one_def by (auto intro!: read_rules)

lemma keeps_emit:
  "(\<And>d a. keeps R (f d a)) \<Longrightarrow> keeps R (emit J ws f ds a)"
  by (induction ds arbitrary: a) (auto intro!: read_rules)

lemma keeps_scan_items:
  "(\<And>kv a. keeps R (step kv a)) \<Longrightarrow> keeps R (scan_items step kvs a)"
  by (induction kvs arbitrary: a) (auto intro!: read_rules)

lemma keeps_queryScan:
  assumes "\<And>cx collection q. keeps R (qry cx collection q)" and "\<And>d a. keeps R (f d a)"
  shows "keeps R (queryScan E qry cx collection ws js f a)"
proof -
  have "keeps R (scan_item E qry cx c collection ex ws js f kv a)" for cx c ex kv a
    unfolding scan_item_def
    by (intro keeps_bind keeps_load_document keeps_compute_fields keeps_fold keeps_join_one keeps_emit assms)
  then show ?thesis
    unfolding queryScan_def
    by (auto split: option.splits intro!: read_rules keeps_scan_items)
qed

lemma keeps_query_with:
  assumes "\<And>cx collection q. keeps R (qry cx collection q)"
  shows "keeps R (query_with E qry cx collection q)"
proof -
  have c: "keeps R (collect q d a)" for q :: query and d a
    by (auto simp: collect_def Let_def split: prod.splits intro!: read_rules)
  have agg: "keeps R (aggregate E qry cx collection q)" for cx q
    unfolding aggregate_def
    by (auto split: option.splits intro!: read_rules keeps_queryScan [OF assms])
  show ?thesis
    unfolding query_with_def Let_def
    by (auto split: option.splits intro!: read_rules keeps_queryScan [OF assms c] agg)
qed

lemma keeps_query: "keeps R (tx_query E n cx collection q)"
  by (induction n arbitrary: cx collection q) (auto intro: keeps_query_with)

lemma keeps_get: "keeps R (tx_get E n cx collection docID)"
  unfolding tx_get_def by (intro keeps_get_with keeps_query)

lemma keeps_check_unique: "keeps R (check_unique E cx collection idx docID document)"
  unfolding check_unique_def by (auto intro!: read_rules)

lemma keeps_evaluate: "keeps R (evaluate E cx c act meta document)"
  unfolding evaluate_def by (auto intro!: read_rules keeps_value)

lemma keeps_compute_write: "keeps R (compute_write E pv document)"
  unfolding compute_write_def by (auto split: option.splits intro!: read_rules)

end

subsection \<open>Relations on the stored state\<close>

definition kvrel :: "('s \<Rightarrow> 's \<Rightarrow> bool) \<Rightarrow> ('s, 'r) txn \<Rightarrow> ('s, 'r) txn \<Rightarrow> bool" where
  "kvrel Q t u \<longleftrightarrow> Q (tKV t) (tKV u)"

locale kv_rel =
  fixes Q :: "'s \<Rightarrow> 's \<Rightarrow> bool"
  assumes Q_refl: "Q s s" and Q_trans: "Q s t \<Longrightarrow> Q t u \<Longrightarrow> Q s u"

sublocale kv_rel \<subseteq> read_rel "kvrel Q"
  by unfold_locales (auto simp: kvrel_def intro: Q_refl Q_trans)

context kv_rel begin

lemma keeps_docs: "keeps (kvrel Q) (remember_doc d)" "keeps (kvrel Q) (forget_doc d)"
  by (simp_all add: keeps_def kvrel_def remember_doc_def forget_doc_def Q_refl)

lemmas keeps_rules = read_rules keeps_docs

lemma keeps_write: "(\<And>s s'. f s = Inr s' \<Longrightarrow> Q s s') \<Longrightarrow> keeps (kvrel Q) (kv_write f)"
  by (auto simp: keeps_def kvrel_def kv_write_def Q_refl split: sum.splits)

lemma keeps_hasDocID: "keeps (kvrel Q) (hasDocID E n cx schema docID)"
proof -
  let ?m = "ebind (wrap_eff Internal [] (tx_query E n cx (scCollection schema) (empty_query\<lparr>
      qSelect := [select_field ''*''], qWhere := [\<lparr>wField = PrimaryKey schema, wOp = WEq, wValue = AStr docID\<rparr>], qLimit := 1\<rparr>)))
    (\<lambda>results. if pgCount results = 0
       then throw Validation (''foreign key with value '' @ docID @ '' does not exist: '' @
          scCollection schema @ ''/'' @ PrimaryKey schema)
       else ebind (remember_doc (doc_ref (scCollection schema) docID)) (\<lambda>_. ret True))"
  have "keeps (kvrel Q) ?m" by (auto intro!: keeps_rules keeps_query)
  then show ?thesis unfolding keeps_def hasDocID_def by (simp add: kvrel_def Q_refl)
qed

lemma keeps_check_foreign: "keeps (kvrel Q) (check_foreign E n cx idx document)"
  unfolding check_foreign_def
  by (auto split: option.splits list.splits intro!: keeps_rules keeps_hasDocID)

end

interpretation same_kv: kv_rel "(=)"
  by unfold_locales auto

interpretation same_docs: read_rel "\<lambda>t u. tDocs u = tDocs t"
  by unfold_locales auto

interpretation same_cdc: read_rel "\<lambda>t u. tCDC u = tCDC t"
  by unfold_locales auto

text \<open>
  A query, a lookup and a foreign key test never change what is stored, on any path,
  failing ones included.
\<close>

lemma reads_keep_store:
  "tKV (snd (tx_query E n cx collection q t)) = tKV t \<and> tKV (snd (tx_get E n cx collection docID t)) = tKV t \<and>
   tKV (snd (hasDocID E n cx schema docID t)) = tKV t"
  using same_kv.keeps_query [of E n cx collection q] same_kv.keeps_get [of E n cx collection docID]
    same_kv.keeps_hasDocID [of E n cx schema docID]
  by (simp add: keeps_def kvrel_def)

subsection \<open>An environment for the witnesses\<close>

definition flat_env :: "any kvs schema kvs \<Rightarrow> (any kvs memtx, any kvs) env" where
  "flat_env cs = \<lparr>enJ = flat_json, enJS = const_js True, enKV = mem_ops, enOpt = Optimize, enScripts = [],
     enColl = cs, enCheckQuery = (\<lambda>_. None), enCheckSchema = (\<lambda>_. None), enCheckDoc = (\<lambda>_ _. Inr []),
     enSlice = (\<lambda>xs a b. take (nat (b - a)) (drop (nat a) xs)), enKsuid = (\<lambda>n. ''k'' @ show_nat n), enClock = (\<lambda>n. int n + 1),
     enFromCDC = (\<lambda>e. Inr [(''_id'', AStr (cdcID e)), (''collection'', AStr (cdcCollection e)),
        (''documentID'', AStr (cdcDocumentID e))]),
     enScanDiff = (\<lambda>_. Inr [])\<rparr>"

end
