(* ===== verification/Fuel.thy ===== *)
theory Fuel
  imports TxLaws
begin

text \<open>
  The depth of the calls of \<open>Query\<close> and \<open>queryScan\<close>: with the default optimizer a query with
  joins reads the joined collections with queries without joins, those look documents of a
  secondary index up by primary key, and a lookup by primary key reads the primary index
  itself. Depth three is enough for every query, whatever is stored.
\<close>

subsection \<open>Operations that never run out of fuel\<close>

lemma fueled_nil [simp]: "fueled nil_pointer"
  by (simp add: nil_pointer_def)

lemma fueled_iface_eq [simp]: "fueled (iface_eq a b)"
  by (auto simp: iface_eq_def split: any.splits)

lemma fueled_iface_neq [simp]: "fueled (iface_neq a b)"
  unfolding iface_neq_def by auto

lemma fueled_doc_set1 [simp]: "fueled (doc_set1 J k v d)"
  by (simp add: doc_set1_def)

lemma fueled_SetAll [simp]: "fueled (SetAll J m d)"
  unfolding SetAll_def by (rule fueled_rfold) auto

lemma fueled_doc_set [simp]: "fueled (doc_set J k v d)"
  by (simp add: doc_set_def)

lemma fueled_Overwrite [simp]: "fueled (Overwrite J m d)"
  unfolding Overwrite_def by (rule fueled_rfold) auto

lemma fueled_MergeJoin [simp]: "fueled (MergeJoin J wth al d)"
  unfolding MergeJoin_def by auto

lemma fueled_NewDocumentFromBytes [simp]: "fueled (NewDocumentFromBytes J b)"
  by (simp add: NewDocumentFromBytes_def)

lemma fueled_any_equal [simp]: "fueled (any_equal es v b)"
  by (induction es arbitrary: b) auto

lemma fueled_where_clause [simp]: "fueled (where_clause J d w)"
proof -
  have r: "fueled r \<Longrightarrow> fueled (reject_if r)" for r unfolding reject_if_def by auto
  have o: "fueled a \<Longrightarrow> fueled b \<Longrightarrow> fueled (or_else a b)" for a b unfolding or_else_def by auto
  have "fueled (eq_rejects J d w)" "fueled (neq_rejects J d w)"
    unfolding eq_rejects_def neq_rejects_def Let_def by (auto intro!: o)
  then show ?thesis
    unfolding where_clause_def Let_def by (cases "wOp w") (auto intro!: r)
qed

lemma fueled_doc_where [simp]: "fueled (doc_where J d ws)"
  by (induction ws) (auto split: where_step.splits)

lemma fueled_order_less [simp]: "fueled (order_less J obs i j)"
  by (induction obs) auto

lemma fueled_orderByDocs [simp]: "fueled (orderByDocs J obs ds)"
  unfolding orderByDocs_def sort_Slice_def by (auto intro!: fueled_sort_insert)

lemma fueled_aggregateDocs [simp]: "fueled (aggregateDocs J ds sel)"
proof -
  have "fueled (applyAggregates J nxt agg d)" for nxt agg d
    by (auto simp: applyAggregates_def Let_def split: agg_fun.splits)
  moreover have "fueled (applyNonAggregates J nxt agg d)" for nxt agg d
    by (auto simp: applyNonAggregates_def Let_def)
  ultimately show ?thesis
    unfolding aggregateDocs_def aggregate_step_def by (auto split: option.splits)
qed

lemma fueled_selectDocument [simp]: "fueled (selectDocument J fs d)"
  by (auto simp: selectDocument_def split: list.splits)

lemma fueled_RemoveElement [simp]: "fueled (RemoveElement i r)"
  by (auto simp: RemoveElement_def split: prod.splits)

lemma fueled_docsHaving [simp]: "fueled (docsHaving J ws ds)"
proof -
  have "fueled (having_loop (\<lambda>d. doc_where J d ws) is r)" for "is" r
    by (induction "is" arbitrary: r) auto
  then show ?thesis unfolding docsHaving_def by auto
qed

lemma fueled_authorize_rules [simp]: "fueled (authorize_rules JS gs act rules vm)"
proof -
  have "fueled (rule_picked act eff a)" for eff a by (auto simp: rule_picked_def split: list.splits)
  then have p: "fueled (pick_rules act eff rules)" for eff by (induction rules) auto
  have m: "fueled (any_match JS gs rs vm)" for rs vm by (induction rs arbitrary: vm) auto
  show ?thesis unfolding authorize_rules_def by (auto intro!: p m fueled_rbind)
qed

lemma fueled_authorizeQuery [simp]: "fueled (authorizeQuery J JS gs cx c q vm)"
  by (simp add: authorizeQuery_def)

lemma fueled_Validate [simp]: "fueled (Validate vs q)"
proof -
  have "fueled (check_select_fields as)" for as by (induction as) auto
  moreover have "fueled (check_grouped gs as)" for gs as by (induction as) auto
  moreover have "fueled (check_selected sel gs)" for sel gs by (induction gs) auto
  ultimately show ?thesis unfolding Validate_def by (auto split: option.splits)
qed

lemma fueled_Optimize [simp]: "fueled (Optimize c ws)"
  by (auto simp: Optimize_def Let_def split: list.splits)

lemma fueled_finish_query [simp]: "fueled (finish_query E q match full results)"
  unfolding finish_query_def Let_def by auto

subsection \<open>Computations that do not run out of fuel\<close>

definition runs :: "('s, 'a) eff \<Rightarrow> bool" where
  "runs m \<longleftrightarrow> (\<forall>s. fueled (fst (m s)))"

lemma runs_ret: "runs (ret a)"
  by (simp add: runs_def)

lemma runs_lift: "fueled r \<Longrightarrow> runs (lift_res r)"
  by (simp add: runs_def)

lemma runs_throw: "runs (throw c msg)"
  by (simp add: runs_def)

lemma runs_unsupported: "runs (unsupported_collection c)"
  unfolding unsupported_collection_def by (rule runs_throw)

lemma runs_bind: "runs m \<Longrightarrow> (\<And>a. runs (f a)) \<Longrightarrow> runs (ebind m f)"
  unfolding runs_def ebind_def by (auto simp: fueled_def split: prod.splits sum.splits) (metis fst_conv)+

lemma runs_wrap: "runs m \<Longrightarrow> runs (wrap_eff c msg m)"
  by (auto simp: runs_def wrap_eff_def split: prod.splits) (metis fst_conv)

lemma runs_fold: "(\<And>x a. x \<in> set xs \<Longrightarrow> runs (f x a)) \<Longrightarrow> runs (efold f xs a)"
  by (induction xs arbitrary: a) (auto intro: runs_ret runs_bind)

lemma runs_vm: "(\<And>vm. fueled (f vm)) \<Longrightarrow> runs (on_vm f)"
  by (auto simp: runs_def on_vm_def fueled_def split: sum.splits prod.splits)

lemma runs_vm_run: "runs (on_vm_run E script)"
  unfolding on_vm_run_def by (rule runs_vm) simp

lemma runs_kv_read: "(\<And>s. fueled (f s)) \<Longrightarrow> runs (kv_read f)"
  by (simp add: runs_def kv_read_def)

lemmas runs_rules = runs_ret runs_throw runs_unsupported runs_bind runs_wrap runs_fold runs_vm_run

lemma runs_emit: "(\<And>d a. runs (f d a)) \<Longrightarrow> runs (emit J ws f ds a)"
  by (induction ds arbitrary: a) (auto intro!: runs_rules runs_lift)

lemma runs_scan_items: "(\<And>kv a. kv \<in> set kvs \<Longrightarrow> runs (step kv a)) \<Longrightarrow> runs (scan_items step kvs a)"
  by (induction kvs arbitrary: a) (auto intro!: runs_rules)

subsection \<open>The three levels\<close>

text \<open>
  What the code relies on: the default optimizer, an iterator that answers, and schemas (the
  cached ones and those a context carries) whose primary index is marked primary, as the
  loader builds them.
\<close>

definition schemas_of :: "('s, 'r) env \<Rightarrow> 'r ctx \<Rightarrow> 'r schema set" where
  "schemas_of E cx = snd ` set (enColl E) \<union> snd ` set (cxSchemas cx)"

definition primary_marked :: "('s, 'r) env \<Rightarrow> 'r ctx \<Rightarrow> bool" where
  "primary_marked E cx \<longleftrightarrow> (\<forall>c\<in>schemas_of E cx. iPrimary (scPrimaryIndex c))"

definition query_env :: "('s, 'r) env \<Rightarrow> bool" where
  "query_env E \<longleftrightarrow> enOpt E = Optimize \<and> (\<forall>opts s. fueled (opIter (enKV E) opts s))"

lemma getSchema_in: "getSchema E cx collection = Some (c, cx') \<Longrightarrow> c \<in> schemas_of E cx \<and> schemas_of E cx' \<subseteq> schemas_of E cx"
  by (auto simp: getSchema_def schemas_of_def schemaFromCtx_def schemaToCtx_def image_iff split: option.splits
      dest!: map_of_SomeD) force+

lemma primary_marked_sub: "getSchema E cx collection = Some (c, cx') \<Longrightarrow> primary_marked E cx \<Longrightarrow>
    iPrimary (scPrimaryIndex c) \<and> primary_marked E cx'"
  using getSchema_in unfolding primary_marked_def by blast

lemma getSchema_again: "getSchema E cx collection = Some (c, cx') \<Longrightarrow> scCollection c = collection \<Longrightarrow>
    getSchema E cx' collection = Some (c, cx')"
  by (auto simp: getSchema_def schemaFromCtx_def schemaToCtx_def split: option.splits)

definition schemas_named :: "('s, 'r) env \<Rightarrow> 'r ctx \<Rightarrow> bool" where
  "schemas_named E cx \<longleftrightarrow> (\<forall>(k, c)\<in>set (enColl E). scCollection c = k) \<and>
     (\<forall>(k, c)\<in>set (cxSchemas cx). k = scCollection c @ ''.schema'')"

lemma schemas_named_get:
  assumes "schemas_named E cx" "getSchema E cx collection = Some (c, cx')"
  shows "scCollection c = collection" "schemas_named E cx'"
  using assms
  by (auto simp: getSchema_def schemas_named_def schemaFromCtx_def schemaToCtx_def split: option.splits dest!: map_of_SomeD)

definition schemas_good :: "('s, 'r) env \<Rightarrow> 'r ctx \<Rightarrow> bool" where
  "schemas_good E cx \<longleftrightarrow> primary_marked E cx \<and> schemas_named E cx"

lemma schemas_good_get:
  assumes "schemas_good E cx" "getSchema E cx collection = Some (c, cx')"
  shows "iPrimary (scPrimaryIndex c)" "schemas_good E cx'" "scCollection c = collection"
    "getSchema E cx' collection = Some (c, cx')"
  using primary_marked_sub [OF assms(2)] schemas_named_get [OF _ assms(2)] assms(1) getSchema_again [OF assms(2)]
  by (auto simp: schemas_good_def)

lemma runs_queryScan:
  assumes env: "query_env E" and marked: "schemas_good E cx"
    and get: "\<And>c cx' ex items. getSchema E cx collection = Some (c, cx') \<Longrightarrow> Optimize c ws = Inr ex \<Longrightarrow>
      \<not> iPrimary (eIndex ex) \<Longrightarrow> runs (get_with E qry cx' collection (key_docID items))"
    and joins: "\<And>cx' j q. js \<noteq> [] \<Longrightarrow> schemas_good E cx' \<Longrightarrow> qJoin q = [] \<Longrightarrow> runs (qry cx' j q)"
    and f: "\<And>d a. runs (f d a)"
  shows "runs (queryScan E qry cx collection ws js f a)"
proof (cases "getSchema E cx collection")
  case None
  then show ?thesis by (simp add: queryScan_def runs_unsupported)
next
  case (Some p)
  obtain c cx' where p: "getSchema E cx collection = Some (c, cx')" using Some by (cases p) auto
  have marked': "schemas_good E cx'" by (rule schemas_good_get [OF marked p])
  have item: "runs (scan_item E qry cx' c collection ex ws js f kv a)" if "Optimize c ws = Inr ex" for ex kv a
  proof -
    have "runs (load_document E qry cx' collection ex kv)"
      unfolding load_document_def using get [OF p that] by (auto intro: runs_lift)
    moreover have "runs (compute_fields E cs d)" for cs d
      unfolding compute_fields_def by (auto intro!: runs_rules runs_lift)
    moreover have "runs (join_one E qry cx' j ds)" if "j \<in> set js" for j ds
    proof -
      have "runs (qry cx' (jCollection j) (empty_query\<lparr>qSelect := [select_field ''*''], qWhere := ws'\<rparr>))" for ws'
        by (rule joins) (use that marked' in \<open>auto simp: empty_query_def\<close>)
      then show ?thesis
        unfolding join_one_def by (auto simp: merge_joined_def intro!: runs_bind runs_lift)
    qed
    ultimately show ?thesis
      unfolding scan_item_def by (intro runs_bind runs_fold runs_emit f)
  qed
  have "runs (ebind (lift_res (Optimize c ws)) (\<lambda>ex.
       ebind (kv_read (opIter (enKV E) (scan_opts (enJ E) (namespace (enJ E) cx') collection ex))) (\<lambda>items.
       ebind (scan_items (scan_item E qry cx' c collection ex ws js f) items a) (\<lambda>(completed, a).
         ret (if completed then ex else no_explain, a)))))"
  proof (cases "Optimize c ws")
    case (Inl e)
    then show ?thesis using fueled_Optimize [of c ws] by (auto simp: runs_def ebind_def fueled_def)
  next
    case (Inr ex)
    then show ?thesis
      using env item [OF Inr] by (auto simp: query_env_def intro!: runs_rules runs_kv_read runs_scan_items)
  qed
  then show ?thesis using env by (simp add: queryScan_def p query_env_def)
qed

lemma runs_query_with:
  assumes env: "query_env E" and marked: "schemas_good E cx"
    and get: "\<And>c cx' cx'' ex k. getSchema E cx collection = Some (c, cx') \<Longrightarrow> getSchema E cx' collection = Some (c, cx'') \<Longrightarrow>
      Optimize c (qWhere q) = Inr ex \<Longrightarrow> \<not> iPrimary (eIndex ex) \<Longrightarrow> runs (get_with E qry cx'' collection (key_docID k))"
    and joins: "\<And>cx' j q'. qJoin q \<noteq> [] \<Longrightarrow> schemas_good E cx' \<Longrightarrow> qJoin q' = [] \<Longrightarrow> runs (qry cx' j q')"
  shows "runs (query_with E qry cx collection q)"
proof -
  have ws: "qWhere (with_select q) = qWhere q" "qJoin (with_select q) = qJoin q" by (simp_all add: with_select_def)
  have scan: "runs (queryScan E qry cx' collection (qWhere q) (qJoin q) f a)"
    if "getSchema E cx collection = Some (c, cx')" "\<And>d a. runs (f d a)" for c cx' and f :: "'b \<Rightarrow> 'c \<Rightarrow> ('a, 'b, bool \<times> 'c) tx" and a
  proof (rule runs_queryScan [OF env])
    show "schemas_good E cx'" by (rule schemas_good_get [OF marked that(1)])
    have again: "getSchema E cx' collection = Some (c, cx')" by (rule schemas_good_get [OF marked that(1)])
    show "runs (get_with E qry cx'' collection (key_docID k))"
      if "getSchema E cx' collection = Some (c', cx'')" "Optimize c' (qWhere q) = Inr ex" "\<not> iPrimary (eIndex ex)" for c' cx'' ex k
      using get [OF \<open>getSchema E cx collection = Some (c, cx')\<close>] that again by auto
  qed (use joins that(2) in auto)
  have collect: "runs (collect q d a)" for q :: query and d :: 'b and a
    by (auto simp: collect_def Let_def split: prod.splits intro!: runs_rules)
  have agg: "runs (aggregate E qry cx' collection (with_select q))" if g: "getSchema E cx collection = Some (c, cx')" for c cx'
  proof -
    have "getSchema E cx' collection = Some (c, cx')" by (rule schemas_good_get [OF marked g])
    moreover have "runs (queryScan E qry cx' collection (qWhere q) (qJoin q) (\<lambda>d results. ret (True, results @ [d])) [])"
      by (rule scan [OF g]) (rule runs_ret)
    ultimately show ?thesis
      unfolding aggregate_def by (auto simp: ws Let_def split: option.splits intro!: runs_bind runs_lift)
  qed
  show ?thesis
    unfolding query_with_def Let_def
    by (auto simp: ws split: option.splits intro!: runs_bind runs_lift runs_unsupported runs_vm runs_throw agg scan collect)
qed

text \<open>A lookup by primary key is answered from the primary index, without further calls.\<close>

lemma Optimize_primary:
  assumes "Optimize c [\<lparr>wField = PrimaryKey c, wOp = WEq, wValue = v\<rparr>] = Inr ex"
  shows "ex = \<lparr>eCollection = [], eIndex = scPrimaryIndex c, eMatchedFields = [PrimaryKey c],
     eMatchedValues = [(PrimaryKey c, v)], eSeekFields = [], eSeekValues = [], eReverse = False\<rparr>"
proof -
  from assms have "iFields (scPrimaryIndex c) \<noteq> []" by (auto simp: Optimize_def)
  then have "hd (iFields (scPrimaryIndex c)) = PrimaryKey c" by (auto simp: PrimaryKey_def neq_Nil_conv)
  with assms show ?thesis by (auto simp: Optimize_def getMatchedFieldValues_def split: if_splits)
qed

lemma runs_get_query:
  assumes "query_env E" "schemas_good E cx" "getSchema E cx collection = Some (c, cx)"
  shows "runs (tx_query E (Suc n) cx collection (get_query (PrimaryKey c) docID))"
proof -
  have "runs (query_with E (tx_query E n) cx collection (get_query (PrimaryKey c) docID))"
    using assms schemas_good_get [OF assms(2,3)]
    by (intro runs_query_with) (auto simp: get_query_def empty_query_def dest!: Optimize_primary)
  then show ?thesis by (simp add: runs_def)
qed

lemma runs_get:
  assumes "query_env E" "schemas_good E cx"
  shows "runs (get_with E (tx_query E (Suc n)) cx collection docID)"
proof (cases "getSchema E cx collection")
  case None
  then show ?thesis by (simp add: get_with_def runs_unsupported)
next
  case (Some p)
  obtain c cx' where p: "getSchema E cx collection = Some (c, cx')" using Some by (cases p) auto
  note good = schemas_good_get [OF assms(2) p]
  from runs_get_query [OF assms(1) good(2,4)] show ?thesis
    by (auto simp: get_with_def p split: list.splits intro!: runs_bind runs_wrap runs_throw runs_ret runs_lift)
qed

lemma runs_query_deeper:
  assumes "query_env E" "schemas_good E cx"
    and "\<And>cx' j q'. qJoin q \<noteq> [] \<Longrightarrow> schemas_good E cx' \<Longrightarrow> qJoin q' = [] \<Longrightarrow> runs (tx_query E (Suc n) cx' j q')"
  shows "runs (tx_query E (Suc (Suc n)) cx collection q)"
proof -
  have "runs (query_with E (tx_query E (Suc n)) cx collection q)"
  proof (rule runs_query_with [OF assms(1,2)])
    fix c cx' cx'' ex k
    assume g: "getSchema E cx collection = Some (c, cx')" "getSchema E cx' collection = Some (c, cx'')"
    show "runs (get_with E (tx_query E (Suc n)) cx'' collection (key_docID k))"
      by (rule runs_get [OF assms(1) schemas_good_get(2) [OF schemas_good_get(2) [OF assms(2) g(1)] g(2)]])
  qed (use assms(3) in blast)
  then show ?thesis by (simp add: runs_def)
qed

lemma runs_query:
  assumes "query_env E" "schemas_good E cx"
  shows "runs (tx_query E (Suc (Suc (Suc n))) cx collection q)"
  by (rule runs_query_deeper [OF assms], rule runs_query_deeper [OF assms(1)]) simp_all

text \<open>
  C26: a query of any shape, aggregates and joins included, ends within depth three: with that
  much fuel it returns a page, an error or a panic of the code, and never runs out of fuel,
  whatever is stored and whatever the scripts answer.
\<close>

theorem query_depth:
  assumes "enOpt E = Optimize" and "\<forall>opts s. \<exists>items. opIter (enKV E) opts s = Inr items"
    and "\<forall>c\<in>schemas_of E cx. iPrimary (scPrimaryIndex c)" and "schemas_named E cx"
  shows "fst (tx_query E (n + 3) cx collection q t) \<noteq> Inl NoFuel"
proof -
  have env: "query_env E" using assms(1,2) unfolding query_env_def by (metis fueled_Inr)
  have good: "schemas_good E cx" using assms(3,4) by (simp add: schemas_good_def primary_marked_def)
  have "fueled (fst (tx_query E (Suc (Suc (Suc n))) cx collection q t))"
    using runs_query [OF env good] by (simp only: runs_def)
  then show ?thesis by (simp add: fueled_def numeral_3_eq_3 del: tx_query.simps)
qed

theorem query_depth_witness:
  "fst (tx_query (flat_env [(''user'', two_index)]) 3 user_ctx ''user'' empty_query
     \<lparr>tKV = empty_mem, tCDC = [], tVM = no_globals, tDocs = [], tTick = 0\<rparr>) \<noteq> Inl NoFuel"
  using query_depth [of "flat_env [(''user'', two_index)]" user_ctx 0 "''user''" empty_query
      "\<lparr>tKV = empty_mem, tCDC = [], tVM = no_globals, tDocs = [], tTick = 0\<rparr>"]
  by (simp add: flat_env_def mem_ops_def mem_iter_def schemas_of_def schemas_named_def user_ctx_def two_index_def)

end
