(* ===== verification/WriteFuel.thy ===== *)
theory WriteFuel
  imports Fuel
begin

text \<open>
  The depth of the calls of \<open>persistCommand\<close>: a command other than a delete calls itself once,
  to store its change record, and storing a change record records no change. Two levels above
  the depth of the queries are enough for every such write.
\<close>

definition write_env :: "('s, 'r) env \<Rightarrow> bool" where
  "write_env E \<longleftrightarrow> query_env E \<and> (\<forall>k v s. fueled (opSet (enKV E) k v s)) \<and> (\<forall>k s. fueled (opDel (enKV E) k s)) \<and>
     (\<forall>e. fueled (enFromCDC E e))"

lemma runs_attempt: "runs m \<Longrightarrow> runs (attempt m)"
  unfolding runs_def attempt_def by (auto simp: fueled_def split: prod.splits sum.splits failure.splits) (metis fst_conv)+

lemma runs_kv_write: "(\<And>s. fueled (f s)) \<Longrightarrow> runs (kv_write f)"
  by (auto simp: runs_def kv_write_def fueled_def split: sum.splits)

lemma runs_set: "write_env E \<Longrightarrow> runs (kv_write (opSet (enKV E) k v))"
  and runs_del: "write_env E \<Longrightarrow> runs (kv_write (opDel (enKV E) k))"
  by (auto simp: write_env_def intro: runs_kv_write)

lemma runs_state:
  "runs (draw g)" "runs (set_globals h)" "runs (remember_doc d)" "runs (forget_doc d)" "runs (\<lambda>t. (Inr (x t), y t))"
  by (simp_all add: runs_def draw_def set_globals_def remember_doc_def forget_doc_def)

lemma runs_run_on_doc: "runs (run_on_doc E script document)"
  unfolding run_on_doc_def
proof (rule runs_bind [OF runs_state(2)], rule runs_bind [OF runs_vm_run])
  show "runs (\<lambda>t. (Inr (val, case gvDoc (tVM t) of Some d \<Rightarrow> d | None \<Rightarrow> document), t))" for val
    by (simp add: runs_def)
qed

lemmas runs_write_rules = runs_rules runs_attempt runs_state runs_run_on_doc runs_set runs_del runs_lift

lemma runs_compute_write: "runs (compute_write E pv document)"
  unfolding compute_write_def by (auto split: option.splits intro!: runs_write_rules)

lemma fueled_apply_default [simp]: "fueled (apply_default E pv document)"
  by (auto simp: apply_default_def split: option.splits)

lemma fueled_keep_immutable [simp]: "fueled (keep_immutable E b pv document)"
  by (simp add: keep_immutable_def)

lemma fueled_ValidateDocument [simp]: "fueled (ValidateDocument E c document)"
  by (auto simp: ValidateDocument_def split: sum.splits)

lemma fueled_SetPrimaryKey [simp]: "fueled (SetPrimaryKey L c document docID)"
  by (simp add: SetPrimaryKey_def)

lemma runs_documents:
  assumes "write_env E"
  shows "runs (createDocument E cx c document)" "runs (setDocument E cx c docID old document)"
    "runs (updateDocument E cx c docID old document)"
  unfolding createDocument_def setDocument_def updateDocument_def Let_def
  using assms by (auto split: option.splits intro!: runs_write_rules runs_compute_write fueled_rbind)

lemma runs_evaluate: "runs (evaluate E cx c act meta document)"
proof -
  have "fueled (pick_rules act eff rs)" for eff rs
    by (induction rs) (auto simp: rule_picked_def split: list.splits)
  moreover have "fueled (any_match J gs rs vm)" for J :: "'b js_lib" and gs rs vm
    by (induction rs arbitrary: vm) auto
  ultimately have a: "fueled (authorizeCommand (enJS E) (enScripts E) cx c act vm)" for vm
    unfolding authorizeCommand_def authorize_rules_def by (auto intro!: fueled_rbind)
  show ?thesis
    unfolding evaluate_def using a by (auto intro!: runs_write_rules runs_vm)
qed

text \<open>The reads of a write.\<close>

lemma runs_get_deep:
  assumes "query_env E" "schemas_good E cx"
  shows "runs (tx_get E (Suc (Suc (Suc n))) cx collection docID)"
  unfolding tx_get_def by (rule runs_get [OF assms])

lemma runs_hasDocID:
  assumes "query_env E" "schemas_good E cx"
  shows "runs (hasDocID E (Suc (Suc (Suc n))) cx schema docID)"
proof -
  let ?m = "ebind (wrap_eff Internal [] (tx_query E (Suc (Suc (Suc n))) cx (scCollection schema) (empty_query\<lparr>
      qSelect := [select_field ''*''], qWhere := [\<lparr>wField = PrimaryKey schema, wOp = WEq, wValue = AStr docID\<rparr>], qLimit := 1\<rparr>)))
    (\<lambda>results. if pgCount results = 0
       then throw Validation (''foreign key with value '' @ docID @ '' does not exist: '' @
          scCollection schema @ ''/'' @ PrimaryKey schema)
       else ebind (remember_doc (doc_ref (scCollection schema) docID)) (\<lambda>_. ret True))"
  have "runs ?m" by (auto intro!: runs_write_rules runs_query [OF assms] simp del: tx_query.simps)
  then show ?thesis unfolding runs_def hasDocID_def by (simp del: tx_query.simps)
qed

lemma runs_check_foreign:
  assumes "query_env E" "schemas_good E cx"
  shows "runs (check_foreign E (Suc (Suc (Suc n))) cx idx document)"
  unfolding check_foreign_def
  using schemas_good_get(2) [OF assms(2)]
  by (auto simp: fueled_def split: option.splits list.splits intro!: runs_write_rules runs_hasDocID [OF assms(1)])

lemma runs_check_unique:
  assumes "query_env E"
  shows "runs (check_unique E cx collection idx docID document)"
  unfolding check_unique_def using assms by (auto simp: query_env_def intro!: runs_write_rules runs_kv_read)

lemma runs_secondary:
  assumes "write_env E" "schemas_good E cx"
  shows "runs (updateSecondaryIndex E (Suc (Suc (Suc n))) cx collection idx docID b act document)"
proof -
  have q: "query_env E" using assms(1) by (simp add: write_env_def)
  show ?thesis
    unfolding updateSecondaryIndex_def drop_entry_def
    using assms(1)
    by (auto split: option.splits intro!: runs_write_rules runs_check_foreign [OF q assms(2)] runs_check_unique [OF q])
qed

lemma runs_record:
  assumes "write_env E"
    and "pcCollection command \<noteq> cdcCollectionName \<Longrightarrow> (\<And>d ts m. runs (per (SetIsInternal cx)
      \<lparr>pcCollection = cdcCollectionName, pcAction = CreateAction, pcDocument = d, pcTimestamp = ts, pcMetadata = m\<rparr>))"
  shows "runs (record_cdc E per cx c command ts m b document)"
  unfolding record_cdc_def Let_def
  using assms by (auto simp: write_env_def intro!: runs_write_rules)

lemma runs_persist:
  assumes "write_env E" "schemas_good E cx"
    and cascade: "pcAction command = DeleteAction \<Longrightarrow>
      (\<And>c d. runs (cascadeDelete E (Suc (Suc (Suc n))) per cx c (pcCollection command) d))"
    and change: "pcCollection command \<noteq> cdcCollectionName \<Longrightarrow> (\<And>d ts m. runs (per (SetIsInternal cx)
      \<lparr>pcCollection = cdcCollectionName, pcAction = CreateAction, pcDocument = d, pcTimestamp = ts, pcMetadata = m\<rparr>))"
  shows "runs (persist_with E (Suc (Suc (Suc n))) per cx command)"
proof -
  have q: "query_env E" using assms(1) by (simp add: write_env_def)
  have "runs (deleteDocument E cx c docID)" for c docID
    unfolding deleteDocument_def using assms(1) by (auto intro!: runs_write_rules)
  then have "runs (apply_action E (Suc (Suc (Suc n))) per cx c (pcCollection command) (pcAction command) docID b document)" for c docID b document
    unfolding apply_action_def Let_def
    using cascade by (cases "pcAction command") (auto intro!: runs_write_rules runs_documents [OF assms(1)])
  moreover have "runs (record_cdc E per cx c command ts m b document)" for c ts m b document
    by (rule runs_record [OF assms(1)]) (rule change)
  ultimately show ?thesis
    unfolding persist_with_def Let_def
    by (auto split: option.splits intro!: runs_write_rules runs_get_deep [OF q assms(2)] runs_secondary [OF assms(1,2)] runs_evaluate)
qed

text \<open>
  A write other than a delete ends: with five levels of calls \<open>persistCommand\<close> returns the
  document, an error or a panic of the code, and never runs out of fuel, whatever is stored
  and whatever the scripts answer.
\<close>

lemma write_depth:
  assumes "enOpt E = Optimize" and "\<forall>opts s. \<exists>items. opIter (enKV E) opts s = Inr items"
    and "\<forall>k v s. opSet (enKV E) k v s \<noteq> Inl NoFuel" and "\<forall>k s. opDel (enKV E) k s \<noteq> Inl NoFuel"
    and "\<forall>e. enFromCDC E e \<noteq> Inl NoFuel"
    and "\<forall>c\<in>schemas_of E cx. iPrimary (scPrimaryIndex c)" and "schemas_named E cx"
    and "pcAction command \<noteq> DeleteAction"
  shows "fst (persistCommand E (n + 5) cx command t) \<noteq> Inl NoFuel"
proof -
  have env: "write_env E"
    using assms(1-5) unfolding write_env_def query_env_def fueled_def by (metis sum.distinct(1))
  have good: "schemas_good E cx" "schemas_good E (SetIsInternal cx)"
    using assms(6,7) by (simp_all add: schemas_good_def primary_marked_def schemas_of_def schemas_named_def)
  have cdc: "runs (persistCommand E (Suc (Suc (Suc (Suc n)))) (SetIsInternal cx) \<lparr>pcCollection = cdcCollectionName,
      pcAction = CreateAction, pcDocument = d, pcTimestamp = ts, pcMetadata = m\<rparr>)" for d ts m
    by (subst persistCommand.simps(2), rule runs_persist [OF env good(2)]) simp_all
  have "runs (persist_with E (Suc (Suc (Suc (Suc n)))) (persistCommand E (Suc (Suc (Suc (Suc n))))) cx command)"
    by (rule runs_persist [OF env good(1)]) (use assms(8) cdc in simp_all)
  then show ?thesis by (simp add: runs_def fueled_def numeral_eq_Suc)
qed

lemma write_depth_witness:
  "fst (persistCommand (flat_env [(''user'', two_index)]) 5 user_ctx \<lparr>pcCollection = ''user'', pcAction = SetAction,
     pcDocument = [(''_id'', AStr ''a'')], pcTimestamp = 1, pcMetadata = None\<rparr>
     \<lparr>tKV = empty_mem, tCDC = [], tVM = no_globals, tDocs = [], tTick = 0\<rparr>) \<noteq> Inl NoFuel"
proof -
  have "fst (persistCommand (flat_env [(''user'', two_index)]) (0 + 5) user_ctx \<lparr>pcCollection = ''user'', pcAction = SetAction,
     pcDocument = [(''_id'', AStr ''a'')], pcTimestamp = 1, pcMetadata = None\<rparr>
     \<lparr>tKV = empty_mem, tCDC = [], tVM = no_globals, tDocs = [], tTick = 0\<rparr>) \<noteq> Inl NoFuel"
    by (rule write_depth)
      (simp_all add: flat_env_def mem_ops_def mem_iter_def mem_set_def mem_delete_def read_only_error_def schemas_of_def
        schemas_named_def user_ctx_def two_index_def)
  then show ?thesis by simp
qed

end
