(* ===== verification/Store.thy ===== *)
theory Store
  imports Fuel
begin

text \<open>
  What a collection looks like in the key-value store: documents under the primary index, and
  for every secondary index exactly one entry per document. \<open>consistent\<close> is that invariant,
  \<open>docs\<close> the map from ids to documents that a collection stands for. The lemmas show the reads
  and writes of a transaction in these terms, for every back end that satisfies \<open>kv_tx\<close>.
\<close>

subsection \<open>Regions of the key space\<close>

definition region :: "string \<Rightarrow> string \<Rightarrow> string \<Rightarrow> bytes set" where
  "region ns collection index = {k. prefix (indexPrefix ns collection index @ [nul]) k}"

definition coll_region :: "string \<Rightarrow> string \<Rightarrow> bytes set" where
  "coll_region ns collection = {k. prefix (collectionPrefix ns collection @ [nul]) k}"

definition doc_key :: "('s, 'r) env \<Rightarrow> string \<Rightarrow> 'r schema \<Rightarrow> string \<Rightarrow> bytes" where
  "doc_key E ns c docID = entry_key (enJ E) ns (scCollection c) (scPrimaryIndex c) [(PrimaryKey c, AStr docID)] docID"

definition idx_key :: "('s, 'r) env \<Rightarrow> string \<Rightarrow> 'r schema \<Rightarrow> index_c \<Rightarrow> 'r \<Rightarrow> string \<Rightarrow> bytes" where
  "idx_key E ns c i d docID = entry_key (enJ E) ns (scCollection c) i (doc_value (enJ E) d) docID"

lemma entry_in_region: "entry_key L ns c i fs d \<in> region ns c (iName i)"
  by (simp add: region_def prefix_entry_key_indexPrefix)

lemma doc_key_region: "doc_key E ns c d \<in> region ns (scCollection c) (iName (scPrimaryIndex c))"
  unfolding doc_key_def by (rule entry_in_region)

lemma idx_key_region: "idx_key E ns c i d docID \<in> region ns (scCollection c) (iName i)"
  unfolding idx_key_def by (rule entry_in_region)

lemma indexPrefix_eq: "indexPrefix ns c n = collectionPrefix ns c @ nul # n"
  by (simp add: indexPrefix_def collectionPrefix_def)

lemma region_coll: "region ns c n \<subseteq> coll_region ns c"
  by (auto simp: region_def coll_region_def indexPrefix_eq prefix_def)

lemma coll_region_disjoint:
  assumes "k \<in> coll_region ns c" "k \<in> coll_region ns c'" "nul \<notin> set ns" "nul \<notin> set c" "nul \<notin> set c'"
  shows "c = c'"
proof -
  obtain u where u: "k = ns @ nul # ''index'' @ nul # c @ nul # u"
    using assms(1) by (auto simp: coll_region_def collectionPrefix_def prefix_def)
  obtain v where v: "k = ns @ nul # ''index'' @ nul # c' @ nul # v"
    using assms(2) by (auto simp: coll_region_def collectionPrefix_def prefix_def)
  from u v have "c @ nul # u = c' @ nul # v" by simp
  then show ?thesis using plain_segment_eq assms(4,5) by blast
qed

lemma region_disjoint:
  assumes "k \<in> region ns c n" "k \<in> region ns c n'" "nul \<notin> set n" "nul \<notin> set n'"
  shows "n = n'"
proof -
  obtain u where u: "k = collectionPrefix ns c @ nul # n @ nul # u"
    using assms(1) by (auto simp: region_def indexPrefix_eq prefix_def)
  obtain v where v: "k = collectionPrefix ns c @ nul # n' @ nul # v"
    using assms(2) by (auto simp: region_def indexPrefix_eq prefix_def)
  from u v have "n @ nul # u = n' @ nul # v" by simp
  then show ?thesis using plain_segment_eq assms(3,4) by blast
qed

lemma doc_key_docID: "nul \<notin> set d \<Longrightarrow> key_docID (doc_key E ns c d) = d"
  unfolding doc_key_def key_docID_def entry_key_eq by (rule last_split0_join0)

lemma idx_key_docID: "nul \<notin> set docID \<Longrightarrow> key_docID (idx_key E ns c i d docID) = docID"
  unfolding idx_key_def key_docID_def entry_key_eq by (rule last_split0_join0)

subsection \<open>The invariant\<close>

text \<open>
  The ids a document can be found under: not empty, without a zero byte, not the text \<open>null\<close>
  and not starting with the self-reference mark (equality clauses treat these two specially).
\<close>

definition good_id :: "string \<Rightarrow> bool" where
  "good_id d \<longleftrightarrow> d \<noteq> [] \<and> nul \<notin> set d \<and> AStr d \<noteq> null_text \<and> \<not> HasPrefix d selfRefPrefix"

lemma good_id_nul: "good_id d \<Longrightarrow> nul \<notin> set d"
  by (simp add: good_id_def)

definition stored_doc :: "('s, 'r) env \<Rightarrow> 'r schema \<Rightarrow> string \<Rightarrow> 'r \<Rightarrow> bool" where
  "stored_doc E c docID d \<longleftrightarrow> good_id docID \<and> doc_valid (enJ E) d \<and> doc_get (enJ E) d (PrimaryKey c) = AStr docID"

definition secondary :: "'r schema \<Rightarrow> index_c set" where
  "secondary c = {i \<in> set (Indexing_map c). \<not> iPrimary i}"

definition docs_ok :: "('s, 'r) env \<Rightarrow> string \<Rightarrow> 'r schema \<Rightarrow> (bytes \<Rightarrow> 'r option) \<Rightarrow> bool" where
  "docs_ok E ns c V \<longleftrightarrow> (\<forall>k v. V k = Some v \<longrightarrow> k \<in> region ns (scCollection c) (iName (scPrimaryIndex c)) \<longrightarrow>
     (\<exists>docID. k = doc_key E ns c docID \<and> stored_doc E c docID v))"

definition index_ok :: "('s, 'r) env \<Rightarrow> string \<Rightarrow> 'r schema \<Rightarrow> (bytes \<Rightarrow> 'r option) \<Rightarrow> index_c \<Rightarrow> bool" where
  "index_ok E ns c V i \<longleftrightarrow> (\<forall>k\<in>region ns (scCollection c) (iName i). \<forall>v. V k = Some v \<longleftrightarrow>
     (\<exists>docID d. good_id docID \<and> V (doc_key E ns c docID) = Some d \<and> k = idx_key E ns c i d docID \<and> v = BytesOf (enJ E) docID))"

definition consistent :: "('s, 'r) env \<Rightarrow> string \<Rightarrow> 'r schema \<Rightarrow> (bytes \<Rightarrow> 'r option) \<Rightarrow> bool" where
  "consistent E ns c V \<longleftrightarrow> docs_ok E ns c V \<and> (\<forall>i\<in>secondary c. index_ok E ns c V i)"

definition docs :: "('s, 'r) env \<Rightarrow> string \<Rightarrow> 'r schema \<Rightarrow> (bytes \<Rightarrow> 'r option) \<Rightarrow> string \<Rightarrow> 'r option" where
  "docs E ns c V docID = (if good_id docID then V (doc_key E ns c docID) else None)"

lemma doc_key_inject: "good_id d \<Longrightarrow> good_id d' \<Longrightarrow> doc_key E ns c d = doc_key E ns c d' \<longleftrightarrow> d = d'"
  using doc_key_docID good_id_nul by metis

lemma idx_key_ids: "good_id d \<Longrightarrow> good_id d' \<Longrightarrow> idx_key E ns c i x d = idx_key E ns c j y d' \<Longrightarrow> d = d'"
  using idx_key_docID good_id_nul by metis

text \<open>
  The effect of one write on a consistent collection: the document under \<open>docID\<close> becomes
  \<open>new\<close> (or goes), in every secondary index the entry of the old one goes and that of the
  new one comes, and nothing else changes in the collection.
\<close>

definition written ::
  "('s, 'r) env \<Rightarrow> string \<Rightarrow> 'r schema \<Rightarrow> string \<Rightarrow> 'r option \<Rightarrow> 'r option \<Rightarrow> (bytes \<Rightarrow> 'r option) \<Rightarrow> (bytes \<Rightarrow> 'r option) \<Rightarrow> bool" where
  "written E ns c docID old new V V' \<longleftrightarrow>
     (\<forall>k\<in>region ns (scCollection c) (iName (scPrimaryIndex c)). V' k = (if k = doc_key E ns c docID then new else V k)) \<and>
     (\<forall>i\<in>secondary c. \<forall>k\<in>region ns (scCollection c) (iName i). V' k =
        (if \<exists>d. new = Some d \<and> k = idx_key E ns c i d docID then Some (BytesOf (enJ E) docID)
         else if \<exists>d. old = Some d \<and> k = idx_key E ns c i d docID then None else V k))"

lemma written_docs:
  assumes "written E ns c docID old new V V'" "good_id docID"
  shows "docs E ns c V' = (docs E ns c V)(docID := new)"
proof
  fix d
  have "V' (doc_key E ns c d) = (if doc_key E ns c d = doc_key E ns c docID then new else V (doc_key E ns c d))"
    using assms(1) doc_key_region [of E ns c d] by (simp add: written_def)
  then show "docs E ns c V' d = ((docs E ns c V)(docID := new)) d"
    using assms(2) by (auto simp: docs_def doc_key_inject)
qed

lemma written_consistent:
  assumes w: "written E ns c docID old new V V'" and con: "consistent E ns c V" and d: "good_id docID"
    and old: "old = V (doc_key E ns c docID)" and new: "\<And>d. new = Some d \<Longrightarrow> stored_doc E c docID d"
  shows "consistent E ns c V'"
proof -
  have doc': "V' (doc_key E ns c e) = (if e = docID then new else V (doc_key E ns c e))" if "good_id e" for e
    using w doc_key_region [of E ns c e] that d by (simp add: written_def doc_key_inject)
  have "docs_ok E ns c V'"
    unfolding docs_ok_def
  proof (intro allI impI)
    fix k v assume k: "V' k = Some v" "k \<in> region ns (scCollection c) (iName (scPrimaryIndex c))"
    show "\<exists>docID. k = doc_key E ns c docID \<and> stored_doc E c docID v"
    proof (cases "k = doc_key E ns c docID")
      case True
      then show ?thesis using k w new by (auto simp: written_def)
    next
      case False
      then have "V k = Some v" using k w by (simp add: written_def)
      then show ?thesis using con k(2) by (simp add: consistent_def docs_ok_def)
    qed
  qed
  moreover have "index_ok E ns c V' i" if i: "i \<in> secondary c" for i
    unfolding index_ok_def
  proof (intro ballI allI)
    fix k v assume k: "k \<in> region ns (scCollection c) (iName i)"
    have V': "V' k = (if \<exists>d. new = Some d \<and> k = idx_key E ns c i d docID then Some (BytesOf (enJ E) docID)
         else if \<exists>d. old = Some d \<and> k = idx_key E ns c i d docID then None else V k)"
      using w i k by (simp add: written_def)
    have V: "V k = Some u \<longleftrightarrow> (\<exists>e d. good_id e \<and> V (doc_key E ns c e) = Some d \<and> k = idx_key E ns c i d e \<and> u = BytesOf (enJ E) e)" for u
      using con i k by (simp add: consistent_def index_ok_def)
    let ?rhs = "\<exists>e d. good_id e \<and> V' (doc_key E ns c e) = Some d \<and> k = idx_key E ns c i d e \<and> v = BytesOf (enJ E) e"
    show "V' k = Some v \<longleftrightarrow> ?rhs"
    proof (cases "\<exists>d. new = Some d \<and> k = idx_key E ns c i d docID")
      case True
      then obtain n where n: "new = Some n" "k = idx_key E ns c i n docID" by blast
      have "?rhs \<longleftrightarrow> v = BytesOf (enJ E) docID"
      proof
        assume ?rhs
        then obtain e d' where e: "good_id e" "k = idx_key E ns c i d' e" "v = BytesOf (enJ E) e" by blast
        then show "v = BytesOf (enJ E) docID" using idx_key_ids [OF e(1) d] n by metis
      next
        assume "v = BytesOf (enJ E) docID"
        then show ?rhs using n d doc' [OF d] by auto
      qed
      with True V' show ?thesis by auto
    next
      case False
      have R: "?rhs \<longleftrightarrow> (\<exists>e d. good_id e \<and> e \<noteq> docID \<and> V (doc_key E ns c e) = Some d \<and> k = idx_key E ns c i d e \<and> v = BytesOf (enJ E) e)"
        using False doc' by (metis (no_types, lifting))
      show ?thesis
      proof (cases "\<exists>d. old = Some d \<and> k = idx_key E ns c i d docID")
        case True
        then obtain b where b: "k = idx_key E ns c i b docID" by blast
        have "\<not> ?rhs" using R b idx_key_ids [OF _ d] by metis
        moreover have "V' k = None" using V' False True by auto
        ultimately show ?thesis by simp
      next
        case no: False
        have "?rhs \<longleftrightarrow> (\<exists>e d. good_id e \<and> V (doc_key E ns c e) = Some d \<and> k = idx_key E ns c i d e \<and> v = BytesOf (enJ E) e)"
          unfolding R using no old by auto
        moreover have "V' k = V k" using V' False no by auto
        ultimately show ?thesis using V by simp
      qed
    qed
  qed
  ultimately show ?thesis by (simp add: consistent_def)
qed

end
