(* ===== verification/Lookup.thy ===== *)
theory Lookup
  imports Store
begin

text \<open>
  \<open>Get\<close> in terms of the map from ids to documents that a collection stands for: on a
  collection whose primary index is in order it is the lookup in that map, and leaves the
  transaction as it is.
\<close>

lemma where_eq_str:
  assumes "cast_laws L" "\<not> HasPrefix s selfRefPrefix" "AStr s \<noteq> null_text"
  shows "doc_where L d [\<lparr>wField = f, wOp = WEq, wValue = AStr s\<rparr>] = Inr (doc_get L d f = AStr s)"
proof -
  have o: "operand L d \<lparr>wField = f, wOp = WEq, wValue = AStr s\<rparr> = AStr s"
    using assms by (simp add: operand_def)
  then have "clause_safe L d \<lparr>wField = f, wOp = WEq, wValue = AStr s\<rparr>"
    by (simp add: clause_safe_def)
  with o assms(3) show ?thesis
    by (simp add: where_clause_spec [OF assms(1)] clause_spec_def Let_def)
qed

text \<open>
  The collections whose reads involve no script: no rules apply to the request and no field is
  computed on read; the parameters behave as documented.
\<close>

definition plain_reads :: "('s, 'r) env \<Rightarrow> 'r ctx \<Rightarrow> 'r schema \<Rightarrow> bool" where
  "plain_reads E cx c \<longleftrightarrow> (cxInternal cx \<or> scAuthz c = []) \<and> computed_reads c = [] \<and> schema_wf c \<and>
     enOpt E = Optimize \<and> cast_laws (enJ E) \<and> flatten_laws (enJ E) \<and>
     (\<forall>docID. good_id docID \<longrightarrow> enCheckQuery E (with_select (get_query (PrimaryKey c) docID)) = None)"

lemma plain_reads_ctx: "plain_reads E cx c \<Longrightarrow> cxInternal cx' = cxInternal cx \<Longrightarrow> plain_reads E cx' c"
  by (simp add: plain_reads_def)

lemma getSchema_ctx:
  "getSchema E cx collection = Some (c, cx') \<Longrightarrow> cxInternal cx' = cxInternal cx \<and> cxIndexing cx' = cxIndexing cx
    \<and> cxMeta cx' = cxMeta cx \<and> namespace L cx' = namespace L cx"
  by (auto simp: getSchema_def split: option.splits)

lemma schema_wf_primary:
  assumes "schema_wf c"
  shows "iFields (scPrimaryIndex c) = [PrimaryKey c]" "iPrimary (scPrimaryIndex c)" "scIndexing c \<noteq> []"
  using assms by (auto simp: schema_wf_def PrimaryKey_def)

lemma Optimize_by_id:
  assumes "schema_wf c"
  shows "Optimize c [\<lparr>wField = PrimaryKey c, wOp = WEq, wValue = v\<rparr>] = Inr
    \<lparr>eCollection = [], eIndex = scPrimaryIndex c, eMatchedFields = [PrimaryKey c],
     eMatchedValues = [(PrimaryKey c, v)], eSeekFields = [], eSeekValues = [], eReverse = False\<rparr>"
  using schema_wf_primary [OF assms] by (simp add: Optimize_def getMatchedFieldValues_def)

text \<open>The scan of a lookup goes on until the first document with the id.\<close>

lemma lookup_scan:
  assumes laws: "cast_laws (enJ E)" and good: "good_id docID"
    and ex: "iPrimary (eIndex ex)" and comp: "computed_reads c = []"
    and q: "qPage q = 0" "qOrderBy q = []" "qLimit q = 1"
    and kvs: "\<forall>kv\<in>set kvs. doc_valid (enJ E) (snd kv)"
  shows "scan_items (scan_item E qry cx c collection ex [\<lparr>wField = f, wOp = WEq, wValue = AStr docID\<rparr>] [] (collect q)) kvs (True, []) t
    = (case find (\<lambda>kv. doc_get (enJ E) (snd kv) f = AStr docID) kvs of
        None \<Rightarrow> (Inr (True, True, []), t) | Some kv \<Rightarrow> (Inr (False, False, [snd kv]), t))"
  using kvs
proof (induction kvs)
  case Nil
  then show ?case by simp
next
  case (Cons kv kvs)
  have nd: "NewDocumentFromBytes (enJ E) (snd kv) = Inr (snd kv)"
    using Cons.prems by (simp add: NewDocumentFromBytes_def doc_valid_def)
  have wh: "doc_where (enJ E) d [\<lparr>wField = f, wOp = WEq, wValue = AStr docID\<rparr>] = Inr (doc_get (enJ E) d f = AStr docID)" for d
    using where_eq_str [OF laws] good by (simp add: good_id_def)
  have item: "scan_item E qry cx c collection ex [\<lparr>wField = f, wOp = WEq, wValue = AStr docID\<rparr>] [] (collect q) kv (True, []) t
      = (if doc_get (enJ E) (snd kv) f = AStr docID then (Inr (False, False, [snd kv]), t) else (Inr (True, True, []), t))"
    unfolding scan_item_def load_document_def compute_fields_def comp
    by (simp add: ex nd wh collect_def q del: doc_where.simps)
  show ?case
    using Cons by (simp add: ebind_def item)
qed

lemma computed_reads_schema [simp]: "select_field ''*'' = \<lparr>sAggregate = NoAgg, sAs = [], sField = ''*''\<rparr>"
  by (simp add: select_field_def)

context kv_tx begin

lemma lookup_items:
  assumes ok: "docs_ok E ns c (view s)" and wf: "schema_wf c" and flat: "flatten_laws (enJ E)" and good: "good_id docID"
  defines "P \<equiv> scan_key (enJ E) ns (scCollection c) (scPrimaryIndex c) [(PrimaryKey c, AStr docID)]"
  defines "kvs \<equiv> kv_scan \<lparr>Prefix = Some P, UpperBound = None, Seek = Some P, Reverse = False\<rparr> (items s)"
  shows "(\<forall>kv\<in>set kvs. doc_valid (enJ E) (snd kv)) \<and>
    map_option snd (find (\<lambda>kv. doc_get (enJ E) (snd kv) (PrimaryKey c) = AStr docID) kvs) = docs E ns c (view s) docID"
proof -
  have kvs: "(k, v) \<in> set kvs \<longleftrightarrow> view s k = Some v \<and> prefix P k" for k v
    unfolding kvs_def by (simp add: kv_scan_prefix [OF items_sorted] in_items_iff)
  have P: "P = indexPrefix ns (scCollection c) (iName (scPrimaryIndex c)) @ nul # PrimaryKey c @ nul # docID"
  proof -
    have "map_of (flat_fields (enJ E) [(PrimaryKey c, AStr docID)]) = map_of [(PrimaryKey c, AStr docID)]"
      using flat by (rule flat_fields_scalar) simp
    then show ?thesis
      unfolding P_def scan_key_eq by (simp add: schema_wf_primary [OF wf] indexPrefix_def EncodeIndexValue_def)
  qed
  have inreg: "k \<in> region ns (scCollection c) (iName (scPrimaryIndex c))" if "prefix P k" for k
  proof -
    have "prefix (indexPrefix ns (scCollection c) (iName (scPrimaryIndex c)) @ [nul]) P" by (simp add: P)
    with that show ?thesis unfolding region_def using prefix_order.trans by blast
  qed
  have stored: "\<exists>e. k = doc_key E ns c e \<and> stored_doc E c e v" if "(k, v) \<in> set kvs" for k v
    using ok that kvs inreg by (auto simp: docs_ok_def)
  have pdoc: "prefix P (doc_key E ns c docID)"
    unfolding P_def doc_key_def entry_key_scan_key by simp
  have "map_option snd (find (\<lambda>kv. doc_get (enJ E) (snd kv) (PrimaryKey c) = AStr docID) kvs) = docs E ns c (view s) docID"
  proof (cases "find (\<lambda>kv. doc_get (enJ E) (snd kv) (PrimaryKey c) = AStr docID) kvs")
    case None
    have "view s (doc_key E ns c docID) = None"
    proof (rule ccontr)
      assume "view s (doc_key E ns c docID) \<noteq> None"
      then obtain v where v: "view s (doc_key E ns c docID) = Some v" by blast
      then have i: "(doc_key E ns c docID, v) \<in> set kvs" using kvs pdoc by simp
      then obtain e where "doc_key E ns c docID = doc_key E ns c e" "stored_doc E c e v" using stored by blast
      then have "doc_get (enJ E) v (PrimaryKey c) = AStr docID"
        using good by (auto simp: stored_doc_def doc_key_inject)
      with None i show False by (auto simp: find_None_iff)
    qed
    with None good show ?thesis by (simp add: docs_def)
  next
    case (Some kv)
    obtain k v where kv: "kv = (k, v)" by fastforce
    have i: "(k, v) \<in> set kvs" "doc_get (enJ E) v (PrimaryKey c) = AStr docID" using find_in [OF Some] by (simp_all add: kv)
    obtain e where e: "k = doc_key E ns c e" "stored_doc E c e v" using stored [OF i(1)] by blast
    then have "e = docID" using i(2) by (simp add: stored_doc_def)
    then show ?thesis using e(1) i(1) kvs Some kv good by (simp add: docs_def)
  qed
  moreover have "doc_valid (enJ E) (snd kv)" if "kv \<in> set kvs" for kv
    using stored [of "fst kv" "snd kv"] that by (auto simp: stored_doc_def)
  ultimately show ?thesis by blast
qed

lemma tx_get_docs:
  assumes kv: "enKV E = \<lparr>opGet = kget, opSet = kset, opDel = kdel, opIter = kiter\<rparr>"
    and sch: "getSchema E cx collection = Some (c, cx1)" "scCollection c = collection"
    and plain: "plain_reads E cx c" and good: "good_id docID"
    and ok: "docs_ok E (namespace (enJ E) cx) c (view (tKV t))"
  shows "tx_get E (Suc n) cx collection docID t = (case docs E (namespace (enJ E) cx) c (view (tKV t)) docID of
     Some d \<Rightarrow> (Inr d, t) | None \<Rightarrow> (fail NotFound (docID @ '' not found''), t))"
proof -
  let ?ns = "namespace (enJ E) cx"
  have P: "cast_laws (enJ E)" "flatten_laws (enJ E)" "enOpt E = Optimize" "schema_wf c" "computed_reads c = []"
    "cxInternal cx \<or> scAuthz c = []" "enCheckQuery E (with_select (get_query (PrimaryKey c) docID)) = None"
    using plain good by (simp_all add: plain_reads_def)
  have again: "getSchema E cx1 collection = Some (c, cx1)" by (rule getSchema_again [OF sch])
  have ns: "namespace (enJ E) cx1 = ?ns" "cxInternal cx1 \<or> scAuthz c = []"
    using getSchema_ctx [OF sch(1)] P(6) by auto
  let ?q = "with_select (get_query (PrimaryKey c) docID)"
  let ?ex = "\<lparr>eCollection = [], eIndex = scPrimaryIndex c, eMatchedFields = [PrimaryKey c],
     eMatchedValues = [(PrimaryKey c, AStr docID)], eSeekFields = [], eSeekValues = [], eReverse = False\<rparr>"
  have q: "qWhere ?q = [\<lparr>wField = PrimaryKey c, wOp = WEq, wValue = AStr docID\<rparr>]" "qJoin ?q = []" "qPage ?q = 0"
    "qOrderBy ?q = []" "qLimit ?q = 1" "qSelect ?q = [select_field ''*'']" "\<not> isAggregateQuery ?q"
    by (simp_all add: with_select_def get_query_def empty_query_def isAggregateQuery_def)
  have valid: "Validate (enCheckQuery E) ?q = Inr ()"
    using P(7) q by (simp add: Validate_def)
  have auth: "on_vm (authorizeQuery (enJ E) (enJS E) (enScripts E) cx1 c ?q) t = (Inr True, t)"
    using ns(2) by (auto simp: on_vm_def authorizeQuery_def)
  let ?P = "scan_key (enJ E) ?ns collection (scPrimaryIndex c) [(PrimaryKey c, AStr docID)]"
  let ?kvs = "kv_scan \<lparr>Prefix = Some ?P, UpperBound = None, Seek = Some ?P, Reverse = False\<rparr> (items (tKV t))"
  have opts: "scan_opts (enJ E) (namespace (enJ E) cx1) collection ?ex
      = \<lparr>Prefix = Some ?P, UpperBound = None, Seek = Some ?P, Reverse = False\<rparr>"
    by (simp add: scan_opts_def seek_path_def scan_key_def ns)
  have iter: "kv_read (opIter (enKV E) (scan_opts (enJ E) (namespace (enJ E) cx1) collection ?ex)) t = (Inr ?kvs, t)"
    unfolding opts by (simp add: kv_read_def kv kiter_items)
  have items: "\<forall>kv\<in>set ?kvs. doc_valid (enJ E) (snd kv)"
    "map_option snd (find (\<lambda>kv. doc_get (enJ E) (snd kv) (PrimaryKey c) = AStr docID) ?kvs) = docs E ?ns c (view (tKV t)) docID"
    using lookup_items [OF ok P(4,2) good] sch(2) by simp_all
  note run = lookup_scan [OF P(1) good _ P(5) q(3-5) items(1), of ?ex "tx_query E n" cx1 collection "PrimaryKey c" t,
      simplified, OF schema_wf_primary(2) [OF P(4)]]
  have scan: "queryScan E (tx_query E n) cx1 collection (qWhere ?q) (qJoin ?q) (collect ?q) (True, []) t =
      (case docs E ?ns c (view (tKV t)) docID of
         None \<Rightarrow> (Inr (?ex, True, []), t) | Some d \<Rightarrow> (Inr (no_explain, False, [d]), t))"
  proof (cases "find (\<lambda>kv. doc_get (enJ E) (snd kv) (PrimaryKey c) = AStr docID) ?kvs")
    case None
    then have none: "docs E ?ns c (view (tKV t)) docID = None" using items(2) by simp
    from None run show ?thesis
      unfolding queryScan_def again q(1,2) none by (simp add: P(3) Optimize_by_id [OF P(4)] ebind_def iter)
  next
    case (Some kv)
    then have some: "docs E ?ns c (view (tKV t)) docID = Some (snd kv)" using items(2) by simp
    from Some run show ?thesis
      unfolding queryScan_def again q(1,2) some by (simp add: P(3) Optimize_by_id [OF P(4)] ebind_def iter)
  qed
  have "tx_query E (Suc n) cx1 collection (get_query (PrimaryKey c) docID) t =
      (case docs E ?ns c (view (tKV t)) docID of
         None \<Rightarrow> (Inr \<lparr>pgDocuments = [], pgNextPage = int64 1, pgCount = 0, pgExplain = ?ex\<rparr>, t)
       | Some d \<Rightarrow> (Inr \<lparr>pgDocuments = [d], pgNextPage = int64 1, pgCount = 1, pgExplain = no_explain\<rparr>, t))"
    by (auto simp: query_with_def Let_def valid again q(7) ebind_def auth scan finish_query_def orderByDocs_def paginate_def
        q(3-6) split: option.splits)
  then show ?thesis
    by (auto simp: tx_get_def get_with_def sch(1) ebind_def wrap_eff_def wrapping_def split: option.splits)
qed

end

end
