(* ===== verification/Writes.thy ===== *)
theory Writes
  imports Lookup
begin

text \<open>
  \<open>Set\<close>, \<open>Create\<close> and \<open>Delete\<close> in terms of the map from ids to documents: a successful write
  changes the map at one id and keeps every secondary index in step with the documents. The
  change record goes to another collection and is shown to leave this one alone.
\<close>

text \<open>
  The collections whose writes run no trigger; computed fields, defaults, immutable fields,
  foreign keys and unique indexes are allowed.
\<close>

definition plain_writes :: "('s, 'r) env \<Rightarrow> 'r ctx \<Rightarrow> 'r schema \<Rightarrow> bool" where
  "plain_writes E cx c \<longleftrightarrow> plain_reads E cx c \<and> scTriggers c = [] \<and> \<not> cxIndexing cx \<and>
     schemas_named E cx \<and> nul \<notin> set (namespace (enJ E) cx)"

lemma secondary_names:
  assumes "schema_wf c" "i \<in> secondary c"
  shows "nul \<notin> set (iName i)" "iName i \<noteq> iName (scPrimaryIndex c)"
proof -
  from assms obtain k where k: "(k, i) \<in> set (scIndexing c)" "\<not> iPrimary i"
    by (auto simp: secondary_def Indexing_map_def)
  from assms(1) obtain pk where pk: "(pk, scPrimaryIndex c) \<in> set (scIndexing c)" by (auto simp: schema_wf_def)
  have names: "iName i = k" "iName (scPrimaryIndex c) = pk" "nul \<notin> set k"
    using assms(1) k pk by (auto simp: schema_wf_def)
  then show "nul \<notin> set (iName i)" by simp
  have "k \<noteq> pk"
  proof
    assume "k = pk"
    then have "i = scPrimaryIndex c"
      using assms(1) k pk map_of_in [of "scIndexing c"] by (simp add: schema_wf_def) (metis option.inject)
    then show False using k(2) schema_wf_primary(2) [OF assms(1)] by simp
  qed
  with names show "iName i \<noteq> iName (scPrimaryIndex c)" by simp
qed

lemma primary_name_nul: "schema_wf c \<Longrightarrow> nul \<notin> set (iName (scPrimaryIndex c))"
  by (fastforce simp: schema_wf_def)

lemma index_names_distinct:
  assumes "schema_wf c"
  shows "distinct (map iName (Indexing_map c))" "\<forall>i\<in>set (Indexing_map c). nul \<notin> set (iName i)"
proof -
  have "map iName (Indexing_map c) = keys (scIndexing c)"
    unfolding Indexing_map_def keys_def using assms by (auto simp: schema_wf_def)
  then show "distinct (map iName (Indexing_map c))" using assms by (simp add: schema_wf_def)
  show "\<forall>i\<in>set (Indexing_map c). nul \<notin> set (iName i)"
    using assms by (fastforce simp: Indexing_map_def schema_wf_def)
qed

lemma lift_err_eq: "lift_err r = Inr a \<longleftrightarrow> r = Inr a"
  by (simp add: lift_err_def split: sum.splits)

text \<open>What a computation can change when all keys it writes lie in a set.\<close>

definition frame :: "('s \<Rightarrow> bytes \<Rightarrow> 'v option) \<Rightarrow> bytes set \<Rightarrow> 's \<Rightarrow> 's \<Rightarrow> bool" where
  "frame vw A s s' \<longleftrightarrow> (\<forall>k. k \<notin> A \<longrightarrow> vw s' k = vw s k)"

interpretation framed: kv_rel "frame vw A" for vw A
  by unfold_locales (auto simp: frame_def)

lemma path_in_region:
  "coll_region (namespace (enJ E) cx) collection \<subseteq> A \<Longrightarrow> index_key_path E cx collection i d docID \<in> A"
  "coll_region (namespace (enJ E) cx) (scCollection c) \<subseteq> A \<Longrightarrow> primary_key_path E cx c docID \<in> A"
  unfolding index_key_path_def primary_key_path_def using entry_in_region region_coll by blast+

definition unreferenced :: "('s, 'r) env \<Rightarrow> string \<Rightarrow> bool" where
  "unreferenced E collection \<longleftrightarrow> (\<forall>(k, s)\<in>set (enColl E). \<forall>i\<in>set (Indexing_map s).
     case iForeignKey i of Some fk \<Rightarrow> fkCollection fk \<noteq> collection | None \<Rightarrow> True)"

lemma efold_idle: "(\<And>x t. x \<in> set xs \<Longrightarrow> f x () t = (Inr (), t)) \<Longrightarrow> efold f xs () t = (Inr (), t)"
  by (induction xs) (auto simp: ebind_def)

lemma cascade_free:
  assumes "unreferenced E collection"
  shows "cascadeDelete E n per cx schema collection document t = (Inr (), t)"
proof -
  have "efold (\<lambda>(_, c) _. efold (\<lambda>i _.
          if (case iForeignKey i of Some fk \<Rightarrow> fkCollection fk = collection | None \<Rightarrow> False)
          then (case iFields i of
              [] \<Rightarrow> lift_res (Inl (Panic ''index out of range''))
            | f # _ \<Rightarrow> ebind (tx_query E n cx (scCollection c) (empty_query\<lparr>qSelect := [select_field ''*''],
                  qWhere := [\<lparr>wField = f, wOp = WEq, wValue = AStr (GetPrimaryKey (enJ E) schema document)\<rparr>]\<rparr>))
                (\<lambda>results. efold (\<lambda>d _. tx_delete_with E per cx (scCollection c) (GetPrimaryKey (enJ E) c d))
                   (pgDocuments results) ()))
          else ret ()) (Indexing_map c) ()) (enColl E) () t = (Inr (), t)" for t
    using assms by (intro efold_idle) (auto simp: unreferenced_def intro!: efold_idle split: option.splits)
  then show ?thesis by (simp add: cascadeDelete_def)
qed

context kv_tx begin

lemma keeps_kset: "k \<in> A \<Longrightarrow> keeps (kvrel (frame view A)) (kv_write (kset k v))"
  by (rule framed.keeps_write) (auto simp: frame_def view_set)

lemma keeps_kdel: "k \<in> A \<Longrightarrow> keeps (kvrel (frame view A)) (kv_write (kdel k))"
  by (rule framed.keeps_write) (auto simp: frame_def view_del)

lemma keeps_secondary:
  assumes kv: "enKV E = \<lparr>opGet = kget, opSet = kset, opDel = kdel, opIter = kiter\<rparr>"
    and A: "coll_region (namespace (enJ E) cx) collection \<subseteq> A"
  shows "keeps (kvrel (frame view A)) (updateSecondaryIndex E n cx collection i docID b act d)"
  unfolding updateSecondaryIndex_def drop_entry_def
  using path_in_region(1) [OF A]
  by (auto simp: kv split: option.splits intro!: framed.keeps_rules framed.keeps_check_foreign framed.keeps_check_unique
      keeps_kset keeps_kdel)

lemma keeps_create:
  assumes kv: "enKV E = \<lparr>opGet = kget, opSet = kset, opDel = kdel, opIter = kiter\<rparr>"
    and A: "coll_region (namespace (enJ E) cx) (scCollection c) \<subseteq> A"
  shows "keeps (kvrel (frame view A)) (createDocument E cx c d)"
  unfolding createDocument_def Let_def
  using path_in_region(2) [OF A]
  by (auto simp: kv intro!: framed.keeps_rules framed.keeps_compute_write keeps_kset)

text \<open>Storing a change record changes nothing outside the collection of the change records.\<close>

lemma keeps_change_record:
  assumes kv: "enKV E = \<lparr>opGet = kget, opSet = kset, opDel = kdel, opIter = kiter\<rparr>"
    and A: "coll_region (namespace (enJ E) cx) cdcCollectionName \<subseteq> A"
    and named: "\<And>c cx'. getSchema E cx cdcCollectionName = Some (c, cx') \<Longrightarrow> scCollection c = cdcCollectionName"
    and cmd: "pcAction command = CreateAction" "pcCollection command = cdcCollectionName"
  shows "keeps (kvrel (frame view A)) (persistCommand E m cx command)"
proof (cases m)
  case 0
  then show ?thesis by (simp add: framed.keeps_lift)
next
  case (Suc n)
  show ?thesis
  proof (cases "getSchema E cx cdcCollectionName")
    case None
    then show ?thesis by (simp add: Suc persist_with_def cmd framed.keeps_lift)
  next
    case (Some p)
    obtain c cx' where p: "p = (c, cx')" by fastforce
    then have "coll_region (namespace (enJ E) cx) (scCollection c) \<subseteq> A" using A named Some by simp
    note keeps = keeps_secondary [OF kv A] keeps_create [OF kv this]
    have pair: "keeps (kvrel (frame view A)) (Pair r)" for r :: "'v res"
      using framed.keeps_lift [of view A r] by (simp add: keeps_def)
    show ?thesis
      unfolding Suc persistCommand.simps persist_with_def record_cdc_def apply_action_def cmd Let_def Some p
      by (auto split: option.splits intro!: framed.keeps_rules framed.keeps_get framed.keeps_evaluate keeps pair)
  qed
qed

lemma kv_write_set: "kv_write (kset k v) t = (Inr u, t') \<Longrightarrow> view (tKV t') = (view (tKV t))(k \<mapsto> v)"
  by (auto simp: kv_write_def view_set split: sum.splits)

lemma kv_write_del: "kv_write (kdel k) t = (Inr u, t') \<Longrightarrow> view (tKV t') = (view (tKV t))(k := None)"
  by (auto simp: kv_write_def view_del split: sum.splits)

text \<open>One secondary index: the old entry goes, the new entry comes.\<close>

lemma updateSecondaryIndex_put:
  assumes kv: "enKV E = \<lparr>opGet = kget, opSet = kset, opDel = kdel, opIter = kiter\<rparr>"
    and run: "updateSecondaryIndex E n cx collection i docID old act d t = (Inr u, t')"
    and i: "\<not> iPrimary i" and act: "act \<in> {SetAction, UpdateAction, CreateAction}"
  shows "view (tKV t') = (case old of None \<Rightarrow> view (tKV t)
      | Some b \<Rightarrow> (view (tKV t))(index_key_path E cx collection i b docID := None))
      (index_key_path E cx collection i d docID \<mapsto> BytesOf (enJ E) docID)"
proof -
  from run i act obtain t1 t2 t3 t4 where
    1: "(case old of Some b \<Rightarrow> drop_entry E cx collection i docID b | None \<Rightarrow> ret ()) t = (Inr (), t1)"
    and 2: "check_foreign E n cx i d t1 = (Inr (), t2)"
    and 3: "check_unique E cx collection i docID d t2 = (Inr (), t3)"
    and 4: "kv_write (opSet (enKV E) (index_key_path E cx collection i d docID) (BytesOf (enJ E) docID)) t3 = (Inr (), t4)"
    and 5: "remember_doc (doc_ref collection docID) t4 = (Inr u, t')"
    by (auto simp: updateSecondaryIndex_def ebind_Inr_iff)
  have "view (tKV t1) = (case old of None \<Rightarrow> view (tKV t)
      | Some b \<Rightarrow> (view (tKV t))(index_key_path E cx collection i b docID := None))"
    using 1 by (auto simp: drop_entry_def kv dest!: kv_write_del split: option.splits)
  moreover have "tKV t2 = tKV t1" "tKV t3 = tKV t2"
    using same_kv.keeps_run [OF same_kv.keeps_check_foreign 2] same_kv.keeps_run [OF same_kv.keeps_check_unique 3]
    by (simp_all add: kvrel_def)
  moreover have "tKV t' = tKV t4" using 5 by (auto simp: remember_doc_def)
  ultimately show ?thesis using kv_write_set [of _ _ t3 "()" t4] 4 by (simp add: kv)
qed

lemma updateSecondaryIndex_delete:
  assumes kv: "enKV E = \<lparr>opGet = kget, opSet = kset, opDel = kdel, opIter = kiter\<rparr>"
    and run: "updateSecondaryIndex E n cx collection i docID old DeleteAction d t = (Inr u, t')" and i: "\<not> iPrimary i"
  shows "\<exists>b. old = Some b \<and> view (tKV t') = (view (tKV t))(index_key_path E cx collection i b docID := None)"
proof -
  from run i obtain b t1 where b: "old = Some b" "drop_entry E cx collection i docID b t = (Inr (), t1)"
    "forget_doc (doc_ref collection docID) t1 = (Inr u, t')"
    by (auto simp: updateSecondaryIndex_def ebind_Inr_iff nil_pointer_def split: option.splits)
  then show ?thesis by (auto simp: drop_entry_def kv forget_doc_def dest!: kv_write_del)
qed

text \<open>
  All secondary indexes, one after the other: if the step of an index changes keys of its own
  region only, the loop does at every key what the step of that key's index does.
\<close>

lemma index_loop:
  assumes "efold f is () t = (Inr (), t')"
    and step: "\<And>i t t'. i \<in> set is \<Longrightarrow> f i () t = (Inr (), t') \<Longrightarrow>
      (if iPrimary i then tKV t' = tKV t else \<forall>k. view (tKV t') k = P i k (view (tKV t) k))"
    and own: "\<And>i k x. i \<in> set is \<Longrightarrow> k \<notin> region ns coll (iName i) \<Longrightarrow> P i k x = x"
    and names: "distinct (map iName is)" "\<forall>i\<in>set is. nul \<notin> set (iName i)"
  shows "(\<forall>i\<in>set is. \<not> iPrimary i \<longrightarrow> (\<forall>k\<in>region ns coll (iName i). view (tKV t') k = P i k (view (tKV t) k))) \<and>
    (\<forall>k. (\<forall>i\<in>set is. \<not> iPrimary i \<longrightarrow> k \<notin> region ns coll (iName i)) \<longrightarrow> view (tKV t') k = view (tKV t) k)"
  using assms
proof (induction "is" arbitrary: t)
  case Nil
  then show ?case by simp
next
  case (Cons i "is")
  from Cons.prems(1) obtain t1 where t1: "f i () t = (Inr (), t1)" and rest: "efold f is () t1 = (Inr (), t')"
    by (auto simp: ebind_Inr_iff)
  have one: "if iPrimary i then tKV t1 = tKV t else \<forall>k. view (tKV t1) k = P i k (view (tKV t) k)"
    using Cons.prems(2) [OF _ t1] by simp
  have ih: "\<And>j k. j \<in> set is \<Longrightarrow> \<not> iPrimary j \<Longrightarrow> k \<in> region ns coll (iName j) \<Longrightarrow> view (tKV t') k = P j k (view (tKV t1) k)"
    "\<And>k. (\<forall>j\<in>set is. \<not> iPrimary j \<longrightarrow> k \<notin> region ns coll (iName j)) \<Longrightarrow> view (tKV t') k = view (tKV t1) k"
    using Cons.IH [OF rest] Cons.prems(2-5) by auto
  have sep: "k \<notin> region ns coll (iName i)" if "j \<in> set is" "k \<in> region ns coll (iName j)" for j k
    using region_disjoint [OF that(2), of "iName i"] that(1) Cons.prems(4,5) by (auto simp: rev_image_eqI)
  have keep: "view (tKV t1) k = view (tKV t) k" if "iPrimary i \<or> k \<notin> region ns coll (iName i)" for k
    using one that Cons.prems(3) [of i k] by (auto split: if_splits)
  show ?case
  proof (intro conjI ballI impI allI)
    fix j k assume j: "j \<in> set (i # is)" "\<not> iPrimary j" "k \<in> region ns coll (iName j)"
    show "view (tKV t') k = P j k (view (tKV t) k)"
    proof (cases "j \<in> set is")
      case True
      then show ?thesis using ih(1) [OF True j(2,3)] keep sep j(3) by simp
    next
      case False
      then have "j = i" using j(1) by simp
      moreover have "\<forall>l\<in>set is. \<not> iPrimary l \<longrightarrow> k \<notin> region ns coll (iName l)"
        using sep j(3) \<open>j = i\<close> by blast
      ultimately show ?thesis using ih(2) one j(2) by simp
    qed
  next
    fix k assume "\<forall>j\<in>set (i # is). \<not> iPrimary j \<longrightarrow> k \<notin> region ns coll (iName j)"
    then show "view (tKV t') k = view (tKV t) k" using ih(2) [of k] keep [of k] by auto
  qed
qed

text \<open>The stored document, and the secondary indexes after it, make up one write.\<close>

lemma written_by:
  assumes wf: "schema_wf c"
    and prim: "V1 = V(doc_key E ns c docID := new)"
    and idx: "\<forall>i\<in>set (Indexing_map c). \<not> iPrimary i \<longrightarrow> (\<forall>k\<in>region ns (scCollection c) (iName i). V2 k =
        (if \<exists>d. new = Some d \<and> k = idx_key E ns c i d docID then Some (BytesOf (enJ E) docID)
         else if \<exists>d. old = Some d \<and> k = idx_key E ns c i d docID then None else V1 k))"
    and other: "\<forall>k. (\<forall>i\<in>set (Indexing_map c). \<not> iPrimary i \<longrightarrow> k \<notin> region ns (scCollection c) (iName i)) \<longrightarrow> V2 k = V1 k"
    and cdc: "\<forall>k\<in>coll_region ns (scCollection c). V3 k = V2 k"
  shows "written E ns c docID old new V V3"
proof -
  let ?reg = "\<lambda>i. region ns (scCollection c) (iName i)"
  have sep: "k \<notin> ?reg (scPrimaryIndex c)" if "i \<in> secondary c" "k \<in> ?reg i" for i k
    using region_disjoint [OF that(2)] secondary_names [OF wf that(1)] primary_name_nul [OF wf] by metis
  have V3: "V3 k = V2 k" if "k \<in> ?reg i" for i k
    using cdc region_coll that by blast
  have "V3 k = (if k = doc_key E ns c docID then new else V k)" if k: "k \<in> ?reg (scPrimaryIndex c)" for k
  proof -
    have "V2 k = V1 k" using other sep k by (auto simp: secondary_def)
    then show ?thesis using V3 [OF k] prim by simp
  qed
  moreover have "V3 k = (if \<exists>d. new = Some d \<and> k = idx_key E ns c i d docID then Some (BytesOf (enJ E) docID)
         else if \<exists>d. old = Some d \<and> k = idx_key E ns c i d docID then None else V k)"
    if i: "i \<in> secondary c" and k: "k \<in> ?reg i" for i k
  proof -
    have "k \<noteq> doc_key E ns c docID" using sep [OF i k] doc_key_region by metis
    then have "V1 k = V k" using prim by simp
    have mem: "i \<in> set (Indexing_map c)" "\<not> iPrimary i" using i by (auto simp: secondary_def)
    show ?thesis using idx [rule_format, OF mem k] unfolding V3 [OF k] \<open>V1 k = V k\<close> .
  qed
  ultimately show ?thesis by (simp add: written_def)
qed

text \<open>What the stages of a write do to the stored state.\<close>

lemma evaluate_plain:
  assumes "scTriggers c = []" "cxInternal cx \<or> scAuthz c = []"
    and "evaluate E cx c act meta document t = (Inr d, t')"
  shows "d = document" "tKV t' = tKV t"
  using assms
  by (auto simp: evaluate_def set_globals_def on_vm_def authorizeCommand_def ebind_def split: if_splits)

lemma setDocument_store:
  assumes kv: "enKV E = \<lparr>opGet = kget, opSet = kset, opDel = kdel, opIter = kiter\<rparr>"
    and run: "setDocument E cx c docID old d t = (Inr d', t')"
  shows "view (tKV t') = (view (tKV t))(primary_key_path E cx c docID \<mapsto> d')" "scImmutable c \<longrightarrow> old = None"
proof -
  let ?f = "\<lambda>pv document. ebind (compute_write E pv document) (\<lambda>document.
             lift_res (rbind (apply_default E pv document) (\<lambda>document.
               case old of
                 None \<Rightarrow> Inr document
               | Some b \<Rightarrow> if pImmutable (snd pv)
                   then rbind (iface_neq (doc_get (enJ E) document (fst pv)) (doc_get (enJ E) b (fst pv)))
                     (\<lambda>ne. if ne then keep_immutable E b pv document else Inr document)
                   else Inr document)))"
  from run obtain t1 where 1: "efold ?f (scPropertyPaths c) d t = (Inr d', t1)"
    and 2: "kv_write (opSet (enKV E) (primary_key_path E cx c docID) d') t1 = (Inr (), t')"
    by (auto simp: setDocument_def ebind_Inr_iff split: if_splits)
  have k: "keeps (kvrel (=)) (efold ?f (scPropertyPaths c) d)"
    by (auto intro!: same_kv.keeps_rules same_kv.keeps_compute_write)
  have "tKV t1 = tKV t" using same_kv.keeps_run [OF k, of t] 1 by (simp add: kvrel_def)
  then show "view (tKV t') = (view (tKV t))(primary_key_path E cx c docID \<mapsto> d')"
    using kv_write_set [of _ _ t1 "()" t'] 2 by (simp add: kv)
  show "scImmutable c \<longrightarrow> old = None" using run by (auto simp: setDocument_def split: if_splits)
qed

lemma createDocument_store:
  assumes kv: "enKV E = \<lparr>opGet = kget, opSet = kset, opDel = kdel, opIter = kiter\<rparr>"
    and run: "createDocument E cx c d t = (Inr d', t')"
  shows "view (tKV t') = (view (tKV t))(primary_key_path E cx c (GetPrimaryKey (enJ E) c d) \<mapsto> d')"
proof -
  let ?f = "\<lambda>pv document. ebind (compute_write E pv document) (\<lambda>document.
               lift_res (apply_default E pv document))"
  from run obtain d1 t1 where 1: "efold ?f (scPropertyPaths c) d1 t = (Inr d', t1)"
    and 2: "kv_write (opSet (enKV E) (primary_key_path E cx c (GetPrimaryKey (enJ E) c d)) d') t1 = (Inr (), t')"
    by (auto simp: createDocument_def Let_def ebind_Inr_iff)
  have k: "keeps (kvrel (=)) (efold ?f (scPropertyPaths c) d1)"
    by (auto intro!: same_kv.keeps_rules same_kv.keeps_compute_write)
  have "tKV t1 = tKV t" using same_kv.keeps_run [OF k, of t] 1 by (simp add: kvrel_def)
  then show ?thesis using kv_write_set [of _ _ t1 "()" t'] 2 by (simp add: kv)
qed

lemma deleteDocument_store:
  assumes kv: "enKV E = \<lparr>opGet = kget, opSet = kset, opDel = kdel, opIter = kiter\<rparr>"
    and run: "deleteDocument E cx c docID t = (Inr u, t')"
  shows "view (tKV t') = (view (tKV t))(primary_key_path E cx c docID := None)"
  using run kv_write_del by (auto simp: deleteDocument_def kv split: if_splits)

text \<open>The stages of a write that succeeds, on a collection that runs no trigger and no rule.\<close>

lemma persist_runE:
  assumes kv: "enKV E = \<lparr>opGet = kget, opSet = kset, opDel = kdel, opIter = kiter\<rparr>"
    and sch: "getSchema E cx (pcCollection cmd) = Some (c, cx1)" and plain: "plain_writes E cx c"
    and good: "good_id (GetPrimaryKey (enJ E) c (pcDocument cmd))"
    and ok: "docs_ok E (namespace (enJ E) cx) c (view (tKV t))"
    and run: "persistCommand E (Suc (Suc m)) cx cmd t = (Inr d, t')"
  obtains ta tb tc ts meta where
    "tKV ta = tKV t" "tDocs ta = tDocs t" "tCDC ta = tCDC t" "pcTimestamp cmd \<noteq> 0 \<longrightarrow> ts = pcTimestamp cmd"
    "apply_action E (Suc m) (persistCommand E (Suc m)) cx c (pcCollection cmd) (pcAction cmd)
       (GetPrimaryKey (enJ E) c (pcDocument cmd))
       (docs E (namespace (enJ E) cx) c (view (tKV t)) (GetPrimaryKey (enJ E) c (pcDocument cmd)))
       (pcDocument cmd) ta = (Inr d, tb)"
    "efold (\<lambda>i _. wrap_eff 0 ''failed to update secondary index''
       (updateSecondaryIndex E (Suc m) cx (pcCollection cmd) i (GetPrimaryKey (enJ E) c (pcDocument cmd))
         (docs E (namespace (enJ E) cx) c (view (tKV t)) (GetPrimaryKey (enJ E) c (pcDocument cmd)))
         (pcAction cmd) d)) (Indexing_map c) () tb = (Inr (), tc)"
    "record_cdc E (persistCommand E (Suc m)) cx c cmd ts meta
       (docs E (namespace (enJ E) cx) c (view (tKV t)) (GetPrimaryKey (enJ E) c (pcDocument cmd))) d tc = (Inr (), t')"
proof -
  let ?ns = "namespace (enJ E) cx" and ?id = "GetPrimaryKey (enJ E) c (pcDocument cmd)"
  let ?old = "docs E ?ns c (view (tKV t)) ?id"
  have P: "scTriggers c = []" "cxInternal cx \<or> scAuthz c = []" "\<not> cxIndexing cx" "schemas_named E cx" "plain_reads E cx c"
    using plain by (auto simp: plain_writes_def plain_reads_def)
  have named: "scCollection c = pcCollection cmd" by (rule schemas_named_get [OF P(4) sch])
  obtain ts meta t1 before t2 d1 ta tb tc where
    1: "(if pcTimestamp cmd = 0 then draw (enClock E) else ret (pcTimestamp cmd)) t = (Inr ts, t1)"
    and 2: "attempt (tx_get E (Suc m) cx (pcCollection cmd) ?id) t1 = (Inr before, t2)"
    and 3: "evaluate E cx c (pcAction cmd) meta (pcDocument cmd) t2 = (Inr d1, ta)"
    and 4: "apply_action E (Suc m) (persistCommand E (Suc m)) cx c (pcCollection cmd) (pcAction cmd) ?id before d1 ta = (Inr d, tb)"
    and 5: "efold (\<lambda>i _. wrap_eff 0 ''failed to update secondary index''
       (updateSecondaryIndex E (Suc m) cx (pcCollection cmd) i ?id before (pcAction cmd) d)) (Indexing_map c) () tb = (Inr (), tc)"
    and 6: "record_cdc E (persistCommand E (Suc m)) cx c cmd ts meta before d tc = (Inr (), t')"
    using run sch P(3) by (auto simp: persist_with_def Let_def ebind_Inr_iff split: if_splits option.splits)
  have kv1: "tKV t1 = tKV t" "tDocs t1 = tDocs t" "tCDC t1 = tCDC t" "pcTimestamp cmd \<noteq> 0 \<longrightarrow> ts = pcTimestamp cmd"
    using 1 by (auto simp: draw_def split: if_splits)
  have "tx_get E (Suc m) cx (pcCollection cmd) ?id t1 = (case ?old of
     Some d \<Rightarrow> (Inr d, t1) | None \<Rightarrow> (fail NotFound (?id @ '' not found''), t1))"
    using tx_get_docs [OF kv sch named P(5) good, of t1 m] ok by (simp add: kv1)
  then have before: "before = ?old" "t2 = t1"
    using 2 by (auto simp: attempt_def fail_def split: option.splits)
  note ev = evaluate_plain [OF P(1,2) 3]
  have "tDocs ta = tDocs t" "tCDC ta = tCDC t"
    using same_docs.keeps_run [OF same_docs.keeps_evaluate 3] same_cdc.keeps_run [OF same_cdc.keeps_evaluate 3] before(2) kv1 by simp_all
  then show ?thesis using that [of ta ts tb tc meta] 4 5 6 ev before kv1 by simp
qed

lemma persist_stages:
  assumes kv: "enKV E = \<lparr>opGet = kget, opSet = kset, opDel = kdel, opIter = kiter\<rparr>"
    and sch: "getSchema E cx (pcCollection cmd) = Some (c, cx1)" and plain: "plain_writes E cx c"
    and coll: "pcCollection cmd \<noteq> cdcCollectionName" "nul \<notin> set (pcCollection cmd)"
    and good: "good_id (GetPrimaryKey (enJ E) c (pcDocument cmd))"
    and ok: "docs_ok E (namespace (enJ E) cx) c (view (tKV t))"
    and run: "persistCommand E (Suc (Suc m)) cx cmd t = (Inr d, t')"
  obtains ta tb tc where
    "tKV ta = tKV t" "tDocs ta = tDocs t"
    "apply_action E (Suc m) (persistCommand E (Suc m)) cx c (pcCollection cmd) (pcAction cmd)
       (GetPrimaryKey (enJ E) c (pcDocument cmd))
       (docs E (namespace (enJ E) cx) c (view (tKV t)) (GetPrimaryKey (enJ E) c (pcDocument cmd)))
       (pcDocument cmd) ta = (Inr d, tb)"
    "efold (\<lambda>i _. wrap_eff 0 ''failed to update secondary index''
       (updateSecondaryIndex E (Suc m) cx (pcCollection cmd) i (GetPrimaryKey (enJ E) c (pcDocument cmd))
         (docs E (namespace (enJ E) cx) c (view (tKV t)) (GetPrimaryKey (enJ E) c (pcDocument cmd)))
         (pcAction cmd) d)) (Indexing_map c) () tb = (Inr (), tc)"
    "frame view (coll_region (namespace (enJ E) cx) cdcCollectionName) (tKV tc) (tKV t')"
    "\<forall>k\<in>coll_region (namespace (enJ E) cx) (scCollection c). view (tKV t') k = view (tKV tc) k"
proof -
  let ?ns = "namespace (enJ E) cx" and ?id = "GetPrimaryKey (enJ E) c (pcDocument cmd)"
  let ?old = "docs E ?ns c (view (tKV t)) ?id"
  have P: "schemas_named E cx" "nul \<notin> set ?ns" using plain by (auto simp: plain_writes_def)
  have named: "scCollection c = pcCollection cmd" by (rule schemas_named_get [OF P(1) sch])
  obtain ta tb tc ts meta where stages: "tKV ta = tKV t" "tDocs ta = tDocs t"
    "apply_action E (Suc m) (persistCommand E (Suc m)) cx c (pcCollection cmd) (pcAction cmd) ?id ?old (pcDocument cmd) ta = (Inr d, tb)"
    "efold (\<lambda>i _. wrap_eff 0 ''failed to update secondary index''
       (updateSecondaryIndex E (Suc m) cx (pcCollection cmd) i ?id ?old (pcAction cmd) d)) (Indexing_map c) () tb = (Inr (), tc)"
    and 6: "record_cdc E (persistCommand E (Suc m)) cx c cmd ts meta ?old d tc = (Inr (), t')"
    by (rule persist_runE [OF kv sch plain good ok run], rule that)
  have "keeps (kvrel (frame view (coll_region ?ns cdcCollectionName))) (record_cdc E (persistCommand E (Suc m)) cx c cmd ts meta ?old d)"
  proof -
    have step: "keeps (kvrel (frame view (coll_region ?ns cdcCollectionName))) (\<lambda>t. (Inr (), t\<lparr>tCDC := f t\<rparr>))" for f
      by (simp add: keeps_def kvrel_def frame_def)
    have rec: "keeps (kvrel (frame view (coll_region ?ns cdcCollectionName))) (persistCommand E (Suc m) (SetIsInternal cx)
        \<lparr>pcCollection = cdcCollectionName, pcAction = CreateAction, pcDocument = dd, pcTimestamp = ts, pcMetadata = meta\<rparr>)" for dd
    proof (rule keeps_change_record [OF kv])
      show "scCollection s = cdcCollectionName" if "getSchema E (SetIsInternal cx) cdcCollectionName = Some (s, cx')" for s cx'
        using schemas_named_get(1) [OF _ that] P(1) by (simp add: schemas_named_def)
    qed simp_all
    show ?thesis
      unfolding record_cdc_def Let_def using rec step by (auto intro!: framed.keeps_rules)
  qed
  from framed.keeps_run [OF this, of tc] 6
  have frame: "frame view (coll_region ?ns cdcCollectionName) (tKV tc) (tKV t')" by (simp add: kvrel_def)
  then have "\<forall>k\<in>coll_region ?ns (scCollection c). view (tKV t') k = view (tKV tc) k"
    using coll_region_disjoint [of _ ?ns "scCollection c" cdcCollectionName] P(2) coll named
    by (auto simp: frame_def cdcCollectionName_def)
  with that [OF stages frame] show thesis .
qed

text \<open>The secondary indexes after a write: the entry of the old document goes, that of \<open>d\<close> comes.\<close>

lemma loop_put:
  fixes cx :: "'v ctx" and old :: "'v option"
  assumes kv: "enKV E = \<lparr>opGet = kget, opSet = kset, opDel = kdel, opIter = kiter\<rparr>"
    and wf: "schema_wf c" and named: "scCollection c = collection" and act: "act \<in> {SetAction, UpdateAction, CreateAction}"
    and loop: "efold (\<lambda>i _. wrap_eff 0 ''failed to update secondary index''
       (updateSecondaryIndex E n cx collection i docID old act d)) (Indexing_map c) () t = (Inr (), t')"
  defines "ns \<equiv> namespace (enJ E) cx"
  defines "P \<equiv> \<lambda>i k x. if k = idx_key E ns c i d docID then Some (BytesOf (enJ E) docID)
      else if \<exists>b. old = Some b \<and> k = idx_key E ns c i b docID then None else x"
  shows "(\<forall>i\<in>set (Indexing_map c). \<not> iPrimary i \<longrightarrow> (\<forall>k\<in>region ns (scCollection c) (iName i).
        view (tKV t') k = P i k (view (tKV t) k))) \<and>
      (\<forall>k. (\<forall>i\<in>set (Indexing_map c). \<not> iPrimary i \<longrightarrow> k \<notin> region ns (scCollection c) (iName i)) \<longrightarrow>
        view (tKV t') k = view (tKV t) k)"
proof -
  have ik: "index_key_path E cx collection i x docID = idx_key E ns c i x docID" for i x
    by (simp add: index_key_path_def idx_key_def named ns_def)
  have step: "if iPrimary i then tKV u' = tKV u else \<forall>k. view (tKV u') k = P i k (view (tKV u) k)"
    if "wrap_eff 0 ''failed to update secondary index''
       (updateSecondaryIndex E n cx collection i docID old act d) u = (Inr (), u')" for i u u'
  proof (cases "iPrimary i")
    case True
    then show ?thesis using that by (simp add: updateSecondaryIndex_def)
  next
    case False
    from updateSecondaryIndex_put [OF kv _ False act] that False show ?thesis
      by (simp add: ik P_def split: option.splits)
  qed
  have own: "P i k x = x" if "k \<notin> region ns (scCollection c) (iName i)" for i k x
    using that idx_key_region [of E ns c i] by (auto simp: P_def)
  show ?thesis
    by (rule index_loop [OF loop, where P = P], erule step, erule own) (rule index_names_distinct [OF wf])+
qed

text \<open>\<open>Set\<close> and \<open>Create\<close> put the document under its id, whatever was there before.\<close>

lemma put_stages:
  assumes kv: "enKV E = \<lparr>opGet = kget, opSet = kset, opDel = kdel, opIter = kiter\<rparr>"
    and wf: "schema_wf c" and named: "scCollection c = collection"
    and id: "GetPrimaryKey (enJ E) c document = docID" and act: "act = SetAction \<or> act = CreateAction" and kva: "tKV ta = tKV t"
    and app: "apply_action E n per cx c collection act docID old document ta = (Inr d, tb)"
    and loop: "efold (\<lambda>i _. wrap_eff 0 ''failed to update secondary index''
       (updateSecondaryIndex E n cx collection i docID old act d)) (Indexing_map c) () tb = (Inr (), tc)"
    and cdc: "\<forall>k\<in>coll_region (namespace (enJ E) cx) (scCollection c). V k = view (tKV tc) k"
  shows "written E (namespace (enJ E) cx) c docID old (Some d) (view (tKV t)) V"
    and "act = SetAction \<Longrightarrow> scImmutable c \<Longrightarrow> old = None"
    and "frame view (coll_region (namespace (enJ E) cx) (scCollection c)) (tKV t) (tKV tc)"
proof -
  let ?ns = "namespace (enJ E) cx"
  have pk: "primary_key_path E cx c docID = doc_key E ?ns c docID" by (simp add: primary_key_path_def doc_key_def)
  have prim: "view (tKV tb) = (view (tKV t))(doc_key E ?ns c docID := Some d)"
    using act
  proof
    assume "act = SetAction"
    with app obtain t1 where "setDocument E cx c docID old document ta = (Inr d, t1)" "tKV tb = tKV t1"
      by (auto simp: apply_action_def Let_def ebind_Inr_iff remember_doc_def)
    then show ?thesis using setDocument_store(1) [OF kv] by (simp add: pk kva)
  next
    assume "act = CreateAction"
    with app obtain t1 where "createDocument E cx c document ta = (Inr d, t1)" "tKV tb = tKV t1"
      by (auto simp: apply_action_def Let_def ebind_Inr_iff remember_doc_def)
    then show ?thesis using createDocument_store [OF kv] by (simp add: pk id kva)
  qed
  have put: "act \<in> {SetAction, UpdateAction, CreateAction}" using act by auto
  note after = loop_put [OF kv wf named put loop]
  show "written E ?ns c docID old (Some d) (view (tKV t)) V"
    by (rule written_by [OF wf prim _ conjunct2 [OF after] cdc]) (use conjunct1 [OF after] in simp)
  show "old = None" if "act = SetAction" "scImmutable c"
    using app that setDocument_store(2) [OF kv] by (auto simp: apply_action_def Let_def ebind_Inr_iff)
  have "doc_key E ?ns c docID \<in> coll_region ?ns (scCollection c)" using doc_key_region region_coll by blast
  then show "frame view (coll_region ?ns (scCollection c)) (tKV t) (tKV tc)"
    using conjunct2 [OF after] prim region_coll by (fastforce simp: frame_def)
qed

lemma persist_put:
  assumes kv: "enKV E = \<lparr>opGet = kget, opSet = kset, opDel = kdel, opIter = kiter\<rparr>"
    and sch: "getSchema E cx (pcCollection cmd) = Some (c, cx1)" and plain: "plain_writes E cx c"
    and coll: "pcCollection cmd \<noteq> cdcCollectionName" "nul \<notin> set (pcCollection cmd)"
    and id: "GetPrimaryKey (enJ E) c (pcDocument cmd) = docID" "good_id docID"
    and ok: "docs_ok E (namespace (enJ E) cx) c (view (tKV t))"
    and act: "pcAction cmd = SetAction \<or> pcAction cmd = CreateAction"
    and run: "persistCommand E (Suc (Suc m)) cx cmd t = (Inr d, t')"
  shows "written E (namespace (enJ E) cx) c docID (docs E (namespace (enJ E) cx) c (view (tKV t)) docID) (Some d)
      (view (tKV t)) (view (tKV t'))"
    and "pcAction cmd = SetAction \<Longrightarrow> scImmutable c \<Longrightarrow> docs E (namespace (enJ E) cx) c (view (tKV t)) docID = None"
proof -
  have wf: "schema_wf c" and named: "scCollection c = pcCollection cmd"
    using plain schemas_named_get(1) [OF _ sch] by (auto simp: plain_writes_def plain_reads_def)
  have good: "good_id (GetPrimaryKey (enJ E) c (pcDocument cmd))" using id by simp
  let ?old = "docs E (namespace (enJ E) cx) c (view (tKV t)) docID"
  obtain ta tb tc where kva: "tKV ta = tKV t"
    and app: "apply_action E (Suc m) (persistCommand E (Suc m)) cx c (pcCollection cmd) (pcAction cmd) docID ?old
       (pcDocument cmd) ta = (Inr d, tb)"
    and loop: "efold (\<lambda>i _. wrap_eff 0 ''failed to update secondary index''
       (updateSecondaryIndex E (Suc m) cx (pcCollection cmd) i docID ?old (pcAction cmd) d)) (Indexing_map c) () tb = (Inr (), tc)"
    and cdc: "\<forall>k\<in>coll_region (namespace (enJ E) cx) (scCollection c). view (tKV t') k = view (tKV tc) k"
    by (rule persist_stages [OF kv sch plain coll good ok run, unfolded id(1)], rule that)
  note put = put_stages [OF kv wf named id(1) act kva app loop cdc]
  show "written E (namespace (enJ E) cx) c docID ?old (Some d) (view (tKV t)) (view (tKV t'))" by (rule put(1))
  show "pcAction cmd = SetAction \<Longrightarrow> scImmutable c \<Longrightarrow> ?old = None" by (rule put(2))
qed

lemma written_agree:
  assumes "written E ns c docID old new W V'" "\<forall>k\<in>coll_region ns (scCollection c). W k = V k"
  shows "written E ns c docID old new V V'"
proof -
  have "W k = V k" if "k \<in> region ns (scCollection c) n" for k n
    using assms(2) that region_coll by blast
  with assms(1) show ?thesis by (simp add: written_def cong: if_cong)
qed

text \<open>
  A delete takes the document out of the primary index, cascades, and then drops the entries of
  the secondary indexes: if the cascade leaves the collection alone, this is a write of one id.
\<close>

lemma persist_delete_stages:
  assumes kv: "enKV E = \<lparr>opGet = kget, opSet = kset, opDel = kdel, opIter = kiter\<rparr>"
    and sch: "getSchema E cx (pcCollection cmd) = Some (c, cx1)" and plain: "plain_writes E cx c"
    and coll: "pcCollection cmd \<noteq> cdcCollectionName" "nul \<notin> set (pcCollection cmd)"
    and id: "GetPrimaryKey (enJ E) c (pcDocument cmd) = docID" "good_id docID"
    and ok: "docs_ok E (namespace (enJ E) cx) c (view (tKV t))"
    and act: "pcAction cmd = DeleteAction"
    and run: "persistCommand E (Suc (Suc m)) cx cmd t = (Inr d, t')"
  obtains t1 t2 where
    "view (tKV t1) = (view (tKV t))(doc_key E (namespace (enJ E) cx) c docID := None)"
    "cascadeDelete E (Suc m) (persistCommand E (Suc m)) cx c (pcCollection cmd) (pcDocument cmd) t1 = (Inr (), t2)"
    "frame view (coll_region (namespace (enJ E) cx) (scCollection c) \<union> coll_region (namespace (enJ E) cx) cdcCollectionName)
      (tKV t2) (tKV t')"
    "(\<forall>k\<in>coll_region (namespace (enJ E) cx) (scCollection c). view (tKV t2) k = view (tKV t1) k) \<longrightarrow>
      written E (namespace (enJ E) cx) c docID (docs E (namespace (enJ E) cx) c (view (tKV t)) docID) None
        (view (tKV t)) (view (tKV t'))"
    "\<not> scImmutable c \<and> \<not> scPreventDeletes c"
proof -
  let ?ns = "namespace (enJ E) cx"
  let ?old = "docs E ?ns c (view (tKV t)) docID" and ?key = "doc_key E ?ns c docID"
  have wf: "schema_wf c" and named: "scCollection c = pcCollection cmd"
    using plain schemas_named_get(1) [OF _ sch] by (auto simp: plain_writes_def plain_reads_def)
  have good: "good_id (GetPrimaryKey (enJ E) c (pcDocument cmd))" using id by simp
  obtain ta tb tc where kva: "tKV ta = tKV t"
    and app: "apply_action E (Suc m) (persistCommand E (Suc m)) cx c (pcCollection cmd) (pcAction cmd) docID ?old
       (pcDocument cmd) ta = (Inr d, tb)"
    and loop: "efold (\<lambda>i _. wrap_eff 0 ''failed to update secondary index''
       (updateSecondaryIndex E (Suc m) cx (pcCollection cmd) i docID ?old (pcAction cmd) d)) (Indexing_map c) () tb = (Inr (), tc)"
    and cdc_frame: "frame view (coll_region ?ns cdcCollectionName) (tKV tc) (tKV t')"
    and cdc: "\<forall>k\<in>coll_region ?ns (scCollection c). view (tKV t') k = view (tKV tc) k"
    by (rule persist_stages [OF kv sch plain coll good ok run, unfolded id(1)], rule that)
  have pk: "primary_key_path E cx c docID = ?key" by (simp add: primary_key_path_def doc_key_def)
  have ik: "index_key_path E cx (pcCollection cmd) i x docID = idx_key E ?ns c i x docID" for i x
    by (simp add: index_key_path_def idx_key_def named)
  from app act obtain t1 t2 u where 1: "deleteDocument E cx c docID ta = (Inr u, t1)"
    and 2: "cascadeDelete E (Suc m) (persistCommand E (Suc m)) cx c (pcCollection cmd) (pcDocument cmd) t1 = (Inr (), t2)"
    and 3: "tKV tb = tKV t2"
    by (auto simp: apply_action_def Let_def ebind_Inr_iff forget_doc_def)
  have taken: "view (tKV t1) = (view (tKV t))(?key := None)" using deleteDocument_store [OF kv 1] kva by (simp add: pk)
  let ?P = "\<lambda>i k x. if \<exists>b. ?old = Some b \<and> k = idx_key E ?ns c i b docID then None else x"
  have step: "if iPrimary i then tKV u' = tKV u else \<forall>k. view (tKV u') k = ?P i k (view (tKV u) k)"
    if "wrap_eff 0 ''failed to update secondary index''
       (updateSecondaryIndex E (Suc m) cx (pcCollection cmd) i docID ?old (pcAction cmd) d) u = (Inr (), u')" for i u u'
  proof (cases "iPrimary i")
    case True
    then show ?thesis using that by (simp add: updateSecondaryIndex_def)
  next
    case False
    from updateSecondaryIndex_delete [OF kv _ False] that False show ?thesis
      unfolding act by (fastforce simp: ik)
  qed
  have own: "?P i k x = x" if "k \<notin> region ?ns (scCollection c) (iName i)" for i k x
    using that idx_key_region [of E ?ns c i] by auto
  have after: "(\<forall>i\<in>set (Indexing_map c). \<not> iPrimary i \<longrightarrow> (\<forall>k\<in>region ?ns (scCollection c) (iName i).
        view (tKV tc) k = ?P i k (view (tKV tb) k))) \<and>
      (\<forall>k. (\<forall>i\<in>set (Indexing_map c). \<not> iPrimary i \<longrightarrow> k \<notin> region ?ns (scCollection c) (iName i)) \<longrightarrow>
        view (tKV tc) k = view (tKV tb) k)"
    by (rule index_loop [OF loop, where P = ?P], erule step, erule own) (rule index_names_distinct [OF wf])+
  have outside: "frame view (coll_region ?ns (scCollection c) \<union> coll_region ?ns cdcCollectionName) (tKV t2) (tKV t')"
    using cdc_frame conjunct2 [OF after] region_coll unfolding 3 by (fastforce simp: frame_def)
  have "written E ?ns c docID ?old None (view (tKV t)) (view (tKV t'))"
    if same: "\<forall>k\<in>coll_region ?ns (scCollection c). view (tKV t2) k = view (tKV t1) k"
  proof (rule written_agree)
    let ?W = "(view (tKV t2))(?key := view (tKV t) ?key)"
    have key: "?key \<in> coll_region ?ns (scCollection c)" using doc_key_region region_coll by blast
    then have prim: "view (tKV tb) = ?W(?key := None)" using same taken 3 by (auto simp: fun_eq_iff)
    show "written E ?ns c docID ?old None ?W (view (tKV t'))"
      by (rule written_by [OF wf prim _ conjunct2 [OF after] cdc]) (use conjunct1 [OF after] in simp)
    show "\<forall>k\<in>coll_region ?ns (scCollection c). ?W k = view (tKV t) k" using same taken by simp
  qed
  moreover have "\<not> scImmutable c \<and> \<not> scPreventDeletes c" using 1 by (auto simp: deleteDocument_def split: if_splits)
  ultimately show thesis using that [OF taken 2 outside] by blast
qed

text \<open>\<open>Delete\<close> on a collection that no foreign key refers to takes the id out.\<close>

lemma persist_delete:
  assumes kv: "enKV E = \<lparr>opGet = kget, opSet = kset, opDel = kdel, opIter = kiter\<rparr>"
    and sch: "getSchema E cx (pcCollection cmd) = Some (c, cx1)" and plain: "plain_writes E cx c"
    and coll: "pcCollection cmd \<noteq> cdcCollectionName" "nul \<notin> set (pcCollection cmd)"
    and free: "unreferenced E (pcCollection cmd)"
    and id: "GetPrimaryKey (enJ E) c (pcDocument cmd) = docID" "good_id docID"
    and ok: "docs_ok E (namespace (enJ E) cx) c (view (tKV t))"
    and act: "pcAction cmd = DeleteAction"
    and run: "persistCommand E (Suc (Suc m)) cx cmd t = (Inr d, t')"
  shows "written E (namespace (enJ E) cx) c docID (docs E (namespace (enJ E) cx) c (view (tKV t)) docID) None
      (view (tKV t)) (view (tKV t'))"
    and "\<not> scImmutable c \<and> \<not> scPreventDeletes c"
  by (rule persist_delete_stages [OF kv sch plain coll id ok act run]; simp add: cascade_free [OF free])+

text \<open>
  \<open>Update\<close> stores the old document with the fields of the command's document set, and gives
  every secondary index an entry for the command's document.
\<close>

lemma updateDocument_store:
  assumes kv: "enKV E = \<lparr>opGet = kget, opSet = kset, opDel = kdel, opIter = kiter\<rparr>"
    and run: "updateDocument E cx c docID old d t = (Inr d', t')"
  shows "\<exists>b m after. old = Some b \<and> \<not> scImmutable c \<and> Flatten (enJ E) (doc_value (enJ E) d') = Inr m \<and>
    SetAll (enJ E) m b = Inr after \<and> view (tKV t') = (view (tKV t))(primary_key_path E cx c docID \<mapsto> after)"
proof -
  from run obtain b where b: "old = Some b" "\<not> scImmutable c" by (auto simp: updateDocument_def split: option.splits if_splits)
  let ?f = "\<lambda>pv document. ebind (compute_write E pv document) (\<lambda>document.
             lift_res (rbind (apply_default E pv document) (\<lambda>document.
               if pImmutable (snd pv) then keep_immutable E b pv document else Inr document)))"
  from run b obtain m after t1 where 1: "efold ?f (scPropertyPaths c) d t = (Inr d', t1)"
    and m: "Flatten (enJ E) (doc_value (enJ E) d') = Inr m" "SetAll (enJ E) m b = Inr after"
    and 2: "kv_write (opSet (enKV E) (primary_key_path E cx c docID) after) t1 = (Inr (), t')"
    by (auto simp: updateDocument_def ebind_Inr_iff rbind_eq_Inr lift_err_eq)
  have k: "keeps (kvrel (=)) (efold ?f (scPropertyPaths c) d)"
    by (auto intro!: same_kv.keeps_rules same_kv.keeps_compute_write)
  have "tKV t1 = tKV t" using same_kv.keeps_run [OF k, of t] 1 by (simp add: kvrel_def)
  then have "view (tKV t') = (view (tKV t))(primary_key_path E cx c docID \<mapsto> after)"
    using kv_write_set [of _ _ t1 "()" t'] 2 by (simp add: kv)
  with b m show ?thesis by blast
qed

lemma persist_update:
  assumes kv: "enKV E = \<lparr>opGet = kget, opSet = kset, opDel = kdel, opIter = kiter\<rparr>"
    and sch: "getSchema E cx (pcCollection cmd) = Some (c, cx1)" and plain: "plain_writes E cx c"
    and coll: "pcCollection cmd \<noteq> cdcCollectionName" "nul \<notin> set (pcCollection cmd)"
    and id: "GetPrimaryKey (enJ E) c (pcDocument cmd) = docID" "good_id docID"
    and ok: "docs_ok E (namespace (enJ E) cx) c (view (tKV t))"
    and act: "pcAction cmd = UpdateAction"
    and run: "persistCommand E (Suc (Suc m)) cx cmd t = (Inr d, t')"
  shows "\<exists>b fs after. docs E (namespace (enJ E) cx) c (view (tKV t)) docID = Some b \<and>
      Flatten (enJ E) (doc_value (enJ E) d) = Inr fs \<and> SetAll (enJ E) fs b = Inr after \<and>
      docs E (namespace (enJ E) cx) c (view (tKV t')) = (docs E (namespace (enJ E) cx) c (view (tKV t)))(docID \<mapsto> after) \<and>
      (\<forall>i\<in>secondary c. view (tKV t') (idx_key E (namespace (enJ E) cx) c i d docID) = Some (BytesOf (enJ E) docID))"
proof -
  let ?ns = "namespace (enJ E) cx"
  let ?old = "docs E ?ns c (view (tKV t)) docID"
  have wf: "schema_wf c" and named: "scCollection c = pcCollection cmd"
    using plain schemas_named_get(1) [OF _ sch] by (auto simp: plain_writes_def plain_reads_def)
  have good: "good_id (GetPrimaryKey (enJ E) c (pcDocument cmd))" using id by simp
  obtain ta tb tc where kva: "tKV ta = tKV t"
    and app: "apply_action E (Suc m) (persistCommand E (Suc m)) cx c (pcCollection cmd) (pcAction cmd) docID ?old
       (pcDocument cmd) ta = (Inr d, tb)"
    and loop: "efold (\<lambda>i _. wrap_eff 0 ''failed to update secondary index''
       (updateSecondaryIndex E (Suc m) cx (pcCollection cmd) i docID ?old (pcAction cmd) d)) (Indexing_map c) () tb = (Inr (), tc)"
    and cdc: "\<forall>k\<in>coll_region ?ns (scCollection c). view (tKV t') k = view (tKV tc) k"
    by (rule persist_stages [OF kv sch plain coll good ok run, unfolded id(1)], rule that)
  have pk: "primary_key_path E cx c docID = doc_key E ?ns c docID" by (simp add: primary_key_path_def doc_key_def)
  from app act obtain t1 where "updateDocument E cx c docID ?old (pcDocument cmd) ta = (Inr d, t1)" "tKV tb = tKV t1"
    by (auto simp: apply_action_def Let_def ebind_Inr_iff remember_doc_def split: if_splits)
  then obtain b fs new where b: "?old = Some b" "Flatten (enJ E) (doc_value (enJ E) d) = Inr fs" "SetAll (enJ E) fs b = Inr new"
    and prim: "view (tKV tb) = (view (tKV t))(doc_key E ?ns c docID \<mapsto> new)"
    using updateDocument_store [OF kv] by (fastforce simp: pk kva)
  have put: "pcAction cmd \<in> {SetAction, UpdateAction, CreateAction}" using act by simp
  note after = loop_put [OF kv wf named put loop]
  have main: "docs E ?ns c (view (tKV t')) = (docs E ?ns c (view (tKV t)))(docID \<mapsto> new)"
  proof
    fix e
    have k: "doc_key E ?ns c e \<in> region ?ns (scCollection c) (iName (scPrimaryIndex c))" by (rule doc_key_region)
    then have "view (tKV t') (doc_key E ?ns c e) = view (tKV tc) (doc_key E ?ns c e)" using cdc region_coll by blast
    also have "\<dots> = view (tKV tb) (doc_key E ?ns c e)"
      using conjunct2 [OF after] region_disjoint [OF k] secondary_names [OF wf] primary_name_nul [OF wf]
      by (metis (no_types, lifting) mem_Collect_eq secondary_def)
    finally show "docs E ?ns c (view (tKV t')) e = ((docs E ?ns c (view (tKV t)))(docID \<mapsto> new)) e"
      using prim id(2) by (auto simp: docs_def doc_key_inject)
  qed
  have "view (tKV t') (idx_key E ?ns c i d docID) = Some (BytesOf (enJ E) docID)" if i: "i \<in> secondary c" for i
  proof -
    have k: "idx_key E ?ns c i d docID \<in> region ?ns (scCollection c) (iName i)" by (rule idx_key_region)
    have mem: "i \<in> set (Indexing_map c)" "\<not> iPrimary i" using i by (auto simp: secondary_def)
    have "view (tKV t') (idx_key E ?ns c i d docID) = view (tKV tc) (idx_key E ?ns c i d docID)" using cdc region_coll k by blast
    then show ?thesis using conjunct1 [OF after, rule_format, OF mem k] by simp
  qed
  with b main show ?thesis by blast
qed

text \<open>
  \<open>Delete\<close> of an id without a document, on a collection with a secondary index: every check
  passes, and then the index reads the value of the missing document.
\<close>

lemma evaluate_idle:
  assumes "scTriggers c = []" "cxInternal cx \<or> scAuthz c = []"
  shows "\<exists>t' d. evaluate E cx c act meta document t = (Inr d, t') \<and> tKV t' = tKV t"
  using assms by (auto simp: evaluate_def set_globals_def on_vm_def authorizeCommand_def ebind_def)

lemma efold_stop:
  assumes "x \<in> set xs" "P x" "\<And>x. P x \<Longrightarrow> f x () t = (Inl e, t)" "\<And>x. \<not> P x \<Longrightarrow> f x () t = (Inr (), t)"
  shows "efold f xs () t = (Inl e, t)"
  using assms(1,2)
proof (induction xs)
  case (Cons y ys)
  then show ?case using assms(3,4) by (cases "P y") (auto simp: ebind_def)
qed simp

lemma persist_delete_missing:
  assumes kv: "enKV E = \<lparr>opGet = kget, opSet = kset, opDel = kdel, opIter = kiter\<rparr>"
    and sch: "getSchema E cx (pcCollection cmd) = Some (c, cx1)" and plain: "plain_writes E cx c"
    and free: "unreferenced E (pcCollection cmd)"
    and id: "GetPrimaryKey (enJ E) c (pcDocument cmd) = docID" "good_id docID"
    and ok: "docs_ok E (namespace (enJ E) cx) c (view (tKV t))"
    and act: "pcAction cmd = DeleteAction"
    and free_to: "writable (tKV t)" "\<not> scReadOnly c" "\<not> scImmutable c" "\<not> scPreventDeletes c" "enCheckSchema E c = None"
    and missing: "docs E (namespace (enJ E) cx) c (view (tKV t)) docID = None" and i: "i \<in> secondary c"
  shows "fst (persistCommand E (Suc (Suc m)) cx cmd t) = nil_pointer"
proof -
  have P: "scTriggers c = []" "cxInternal cx \<or> scAuthz c = []" "\<not> cxIndexing cx" "plain_reads E cx c"
    and named: "scCollection c = pcCollection cmd"
    using plain schemas_named_get(1) [OF _ sch] by (auto simp: plain_writes_def plain_reads_def)
  obtain ts t1 where 1: "(if pcTimestamp cmd = 0 then draw (enClock E) else ret (pcTimestamp cmd)) t = (Inr ts, t1)" "tKV t1 = tKV t"
    by (cases "pcTimestamp cmd = 0") (auto simp: draw_def)
  have get: "attempt (tx_get E (Suc m) cx (pcCollection cmd) docID) t1 = (Inr None, t1)"
    using tx_get_docs [OF kv sch named P(4) id(2), of t1 m] ok missing by (simp add: 1(2) attempt_def fail_def)
  let ?meta = "case pcMetadata cmd of Some m \<Rightarrow> Some m | None \<Rightarrow> Some (ExtractMetadata (enJ E) cx)"
  obtain t2 d where 2: "evaluate E cx c DeleteAction ?meta (pcDocument cmd) t1 = (Inr d, t2)" "tKV t2 = tKV t"
    using evaluate_idle [OF P(1,2), of E DeleteAction ?meta "pcDocument cmd" t1] 1(2) by metis
  obtain s3 where s3: "kdel (primary_key_path E cx c docID) (tKV t2) = Inr s3"
    using kdel_writable [OF free_to(1)] 2(2) by metis
  have 3: "deleteDocument E cx c docID t2 = (Inr (), t2\<lparr>tKV := s3\<rparr>)"
    using free_to id(2) s3 by (simp add: deleteDocument_def kv good_id_def kv_write_def)
  obtain t4 where 4: "apply_action E (Suc m) (persistCommand E (Suc m)) cx c (pcCollection cmd) DeleteAction docID None d t2 = (Inr d, t4)"
    by (simp add: apply_action_def Let_def ebind_def 3 cascade_free [OF free] forget_doc_def)
  obtain e where e: "e = Panic ''invalid memory address or nil pointer dereference''" by blast
  have "efold (\<lambda>i _. wrap_eff 0 ''failed to update secondary index''
      (updateSecondaryIndex E (Suc m) cx (pcCollection cmd) i docID None DeleteAction d)) (Indexing_map c) () t4 = (Inl e, t4)"
    by (rule efold_stop [of i _ "\<lambda>i. \<not> iPrimary i"])
      (use i e in \<open>auto simp: secondary_def updateSecondaryIndex_def wrap_eff_def nil_pointer_def wrapping_def\<close>)
  then show ?thesis
    using free_to(2,5) P(3) e
    by (simp add: nil_pointer_def persist_with_def sch Let_def id(1) ebind_def 1(1) get act 2(1) 4 del: wrap_eff_Inr)
qed

end

end
