(* ===== verification/Operations.thy ===== *)
theory Operations
  imports Writes
begin

text \<open>
  The operations of a transaction on one collection, over the reference key-value store: what
  \<open>Get\<close>, \<open>Set\<close>, \<open>Create\<close>, \<open>Update\<close> and \<open>Delete\<close> do to the map from ids to documents that the
  store stands for, and which of them keep the secondary indexes in step with it. Every
  property is the lemma of the contract \<open>kv_tx\<close> at the reference store.
\<close>

subsection \<open>The collection of an operation\<close>

definition stored :: "('r memtx, 'r) env \<Rightarrow> 'r ctx \<Rightarrow> 'r schema \<Rightarrow> ('r memtx, 'r) txn \<Rightarrow> string \<Rightarrow> 'r option" where
  "stored E cx c t = docs E (namespace (enJ E) cx) c (mem.view (tKV t))"

definition in_order :: "('r memtx, 'r) env \<Rightarrow> 'r ctx \<Rightarrow> 'r schema \<Rightarrow> ('r memtx, 'r) txn \<Rightarrow> bool" where
  "in_order E cx c t \<longleftrightarrow> consistent E (namespace (enJ E) cx) c (mem.view (tKV t))"

text \<open>A collection of users: its schema is known, its writes run no script.\<close>

definition user_collection :: "('r memtx, 'r) env \<Rightarrow> 'r ctx \<Rightarrow> string \<Rightarrow> 'r schema \<Rightarrow> bool" where
  "user_collection E cx collection c \<longleftrightarrow> enKV E = mem_ops \<and> map_option fst (getSchema E cx collection) = Some c \<and>
     plain_writes E cx c \<and> collection \<noteq> cdcCollectionName \<and> nul \<notin> set collection"

lemma user_collectionE:
  assumes "user_collection E cx collection c"
  obtains cx1 where "getSchema E cx collection = Some (c, cx1)" "getSchema E cx1 collection = Some (c, cx1)"
    "plain_writes E cx1 c" "namespace (enJ E) cx1 = namespace (enJ E) cx" "scCollection c = collection"
    "enKV E = \<lparr>opGet = mem_get, opSet = mem_set, opDel = mem_delete, opIter = mem_iter\<rparr>"
    "collection \<noteq> cdcCollectionName" "nul \<notin> set collection"
proof -
  from assms obtain cx1 where g: "getSchema E cx collection = Some (c, cx1)"
    by (auto simp: user_collection_def)
  have w: "plain_writes E cx c" using assms by (simp add: user_collection_def)
  then have named: "schemas_named E cx" by (simp add: plain_writes_def)
  note n = schemas_named_get [OF named g]
  note s = getSchema_ctx [OF g, of "enJ E"]
  have "plain_writes E cx1 c"
    using w n(2) s plain_reads_ctx [of E cx c cx1] by (simp add: plain_writes_def)
  with that [OF g getSchema_again [OF g n(1)]] n s assms show thesis
    by (simp add: user_collection_def mem_ops_def)
qed

lemma in_order_docs: "in_order E cx c t \<Longrightarrow> docs_ok E (namespace (enJ E) cx) c (mem.view (tKV t))"
  by (simp add: in_order_def consistent_def)

lemma commit_commandE:
  assumes "commit_command E n cx collection act document msg t = (Inr d, t')"
  obtains now where "persistCommand E n cx \<lparr>pcCollection = collection, pcAction = act, pcDocument = document,
      pcTimestamp = now, pcMetadata = Some (ExtractMetadata (enJ E) cx)\<rparr> (t\<lparr>tTick := Suc (tTick t)\<rparr>) = (Inr d, t')"
  using assms by (auto simp: commit_command_def ebind_Inr_iff draw_def)

text \<open>A command that puts a document under an id is a write of that id.\<close>

lemma commit_put:
  assumes coll: "user_collection E cx collection c" "getSchema E cx collection = Some (c, cx1)"
    and ord: "in_order E cx c t" and id: "GetPrimaryKey (enJ E) c document = docID" "good_id docID"
    and act: "act = SetAction \<or> act = CreateAction"
    and run: "commit_command E (Suc (Suc n)) cx1 collection act document msg t = (Inr d, t')"
  shows "stored_doc E c docID d \<Longrightarrow> stored E cx c t' = (stored E cx c t)(docID \<mapsto> d) \<and> in_order E cx c t'"
    and "act = SetAction \<Longrightarrow> scImmutable c \<Longrightarrow> stored E cx c t docID = None"
proof -
  from coll obtain g: "getSchema E cx1 collection = Some (c, cx1)" "plain_writes E cx1 c"
      "namespace (enJ E) cx1 = namespace (enJ E) cx" "scCollection c = collection"
    and kv: "enKV E = \<lparr>opGet = mem_get, opSet = mem_set, opDel = mem_delete, opIter = mem_iter\<rparr>"
    and coll': "collection \<noteq> cdcCollectionName" "nul \<notin> set collection"
    by (elim user_collectionE) auto
  obtain now where p: "persistCommand E (Suc (Suc n)) cx1 \<lparr>pcCollection = collection, pcAction = act, pcDocument = document,
      pcTimestamp = now, pcMetadata = Some (ExtractMetadata (enJ E) cx1)\<rparr> (t\<lparr>tTick := Suc (tTick t)\<rparr>) = (Inr d, t')"
    by (rule commit_commandE [OF run])
  have ok: "docs_ok E (namespace (enJ E) cx1) c (mem.view (tKV (t\<lparr>tTick := Suc (tTick t)\<rparr>)))"
    using in_order_docs [OF ord] g(3) by simp
  note put = mem.persist_put(1) [OF kv _ g(2) _ _ _ id(2) ok _ p, simplified, OF g(1) coll' id(1) act]
  note imm = mem.persist_put(2) [OF kv _ g(2) _ _ _ id(2) ok _ p, simplified, OF g(1) coll' id(1)]
  show "stored E cx c t' = (stored E cx c t)(docID \<mapsto> d) \<and> in_order E cx c t'" if s: "stored_doc E c docID d"
  proof
    show "stored E cx c t' = (stored E cx c t)(docID \<mapsto> d)"
      using written_docs [OF put id(2)] g(3) by (simp add: stored_def)
    show "in_order E cx c t'"
      unfolding in_order_def
      by (rule written_consistent [OF put [unfolded g(3)] ord [unfolded in_order_def] id(2)])
        (use s id(2) in \<open>auto simp: docs_def\<close>)
  qed
  show "act = SetAction \<Longrightarrow> scImmutable c \<Longrightarrow> stored E cx c t docID = None"
    using imm g(3) act by (simp add: stored_def)
qed

subsection \<open>A collection for the witnesses\<close>

definition pk_index :: index_c where
  "pk_index = \<lparr>iName = ''_id'', iFields = [''_id''], iUnique = True, iPrimary = True, iForeignKey = None\<rparr>"

definition by_name :: index_c where
  "by_name = \<lparr>iName = ''by_name'', iFields = [''name''], iUnique = False, iPrimary = False, iForeignKey = None\<rparr>"

definition plain_schema :: "string \<Rightarrow> index_c kvs \<Rightarrow> bool \<Rightarrow> any kvs schema" where
  "plain_schema c is immutable = \<lparr>scCollection = c, scPrimaryIndex = pk_index, scImmutable = immutable,
     scPreventDeletes = False, scIndexing = (''_id'', pk_index) # is, scProperties = [], scPropertyPaths = [],
     scTriggers = [], scReadOnly = False, scAuthz = [], scRequireIndex = False, scRaw = []\<rparr>"

definition user_schema :: "any kvs schema" where
  "user_schema = plain_schema ''user'' [(''by_name'', by_name)] False"

definition user_env :: "(any kvs memtx, any kvs) env" where
  "user_env = flat_env [(''user'', user_schema), (''log'', plain_schema ''log'' [] True),
     (''system_cdc'', plain_schema ''system_cdc'' [] False)]"

definition fresh_tx :: "(any kvs memtx, any kvs) txn" where
  "fresh_tx = \<lparr>tKV = empty_mem, tCDC = [], tVM = no_globals, tDocs = [], tTick = 0\<rparr>"

definition ann :: "any kvs" where
  "ann = [(''_id'', AStr ''a''), (''name'', AStr ''ann'')]"

definition bob :: "any kvs" where
  "bob = [(''_id'', AStr ''a''), (''name'', AStr ''bob'')]"

lemma plain_schema_writes:
  "user_collection user_env user_ctx ''user'' user_schema" "user_collection user_env user_ctx ''log'' (plain_schema ''log'' [] True)"
  by (simp_all add: user_collection_def user_env_def flat_env_def getSchema_def schemaFromCtx_def user_ctx_def
      plain_writes_def plain_reads_def schemas_named_def schema_wf_def user_schema_def plain_schema_def pk_index_def by_name_def
      computed_reads_def keys_def cdcCollectionName_def namespace_def GetMetadataValue_def flat_json_cast flat_json_flatten)

lemma witness_ids: "good_id ''a''" "GetPrimaryKey flat_json user_schema ann = ''a''" "GetPrimaryKey flat_json user_schema bob = ''a''"
  "stored_doc user_env user_schema ''a'' ann" "stored_doc user_env user_schema ''a'' bob"
  by (simp_all add: good_id_def null_text_def HasPrefix_def selfRefPrefix_def stored_doc_def doc_valid_def GetPrimaryKey_def
      GetString_def doc_get_def user_env_def flat_env_def flat_json_def PrimaryKey_def user_schema_def plain_schema_def pk_index_def
      ann_def bob_def)

lemma fresh_empty [simp]: "mem.view (tKV fresh_tx) = (\<lambda>_. None)"
  by (simp add: mem.view_def fresh_tx_def empty_mem_def)

lemma fresh_in_order: "in_order E cx c fresh_tx" "stored E cx c fresh_tx docID = None"
  by (simp_all add: in_order_def consistent_def docs_ok_def index_ok_def stored_def docs_def)

subsection \<open>Set and Create\<close>

lemma set_put:
  assumes "user_collection E cx collection c" and "in_order E cx c t"
    and "GetPrimaryKey (enJ E) c document = docID" and "good_id docID"
    and "tx_Set E (Suc (Suc n)) cx collection document t = (Inr d, t')" and "stored_doc E c docID d"
  shows "stored E cx c t' = (stored E cx c t)(docID \<mapsto> d) \<and> in_order E cx c t'"
proof -
  obtain cx1 where g: "getSchema E cx collection = Some (c, cx1)" by (rule user_collectionE [OF assms(1)])
  then have "commit_command E (Suc (Suc n)) cx1 collection SetAction document ''tx: failed to commit set'' t = (Inr d, t')"
    using assms(5) by (simp add: tx_Set_def)
  from commit_put(1) [OF assms(1) g assms(2-4) _ this assms(6)] show ?thesis by simp
qed

text \<open>
  C1: a \<open>Set\<close> that succeeds replaces one document and nothing else: afterwards the collection
  holds the document it returns under its id and every other document as before, and every
  secondary index has exactly one entry per document again.
\<close>

theorem set_refines:
  assumes "user_collection E cx collection c" and "in_order E cx c t"
    and "GetPrimaryKey (enJ E) c document = docID" and "good_id docID"
    and "tx_Set E (Suc (Suc n)) cx collection document t = (Inr d, t')" and "stored_doc E c docID d"
  shows "stored E cx c t' = (stored E cx c t)(docID \<mapsto> d) \<and> in_order E cx c t'"
  using assms by (rule set_put)

lemma set_ann: "fst (tx_Set user_env 3 user_ctx ''user'' ann fresh_tx) = Inr ann"
  by code_simp

theorem set_refines_witness:
  "stored user_env user_ctx user_schema (snd (tx_Set user_env (Suc (Suc 1)) user_ctx ''user'' ann fresh_tx)) ''a'' = Some ann"
proof -
  have "tx_Set user_env (Suc (Suc 1)) user_ctx ''user'' ann fresh_tx = (Inr ann, snd (tx_Set user_env (Suc (Suc 1)) user_ctx ''user'' ann fresh_tx))"
    using set_ann by (simp add: numeral_3_eq_3 prod_eq_iff)
  from set_refines [OF plain_schema_writes(1) fresh_in_order(1) _ witness_ids(1) this witness_ids(4)] show ?thesis
    by (simp add: witness_ids user_env_def flat_env_def)
qed

lemma create_put:
  assumes "user_collection E cx collection c" and "in_order E cx c t"
    and "GetPrimaryKey (enJ E) c document = docID" and "good_id docID"
    and "Create E (Suc (Suc n)) cx collection document t = (Inr (docID', d), t')" and "stored_doc E c docID d"
  shows "docID' = docID \<and> stored E cx c t' = (stored E cx c t)(docID \<mapsto> d) \<and> in_order E cx c t'"
proof -
  obtain cx1 where g: "getSchema E cx collection = Some (c, cx1)" by (rule user_collectionE [OF assms(1)])
  have "docID \<noteq> []" using assms(4) by (simp add: good_id_def)
  then have run: "docID' = docID"
    "commit_command E (Suc (Suc n)) cx1 collection CreateAction document ''tx: failed to commit create'' t = (Inr d, t')"
    using assms(3,5) g by (auto simp: Create_def ebind_Inr_iff)
  from commit_put(1) [OF assms(1) g assms(2-4) _ run(2) assms(6)] run(1) show ?thesis by simp
qed

text \<open>The collection \<open>log\<close> is immutable; \<open>log_tx\<close> holds one document of it.\<close>

definition log_schema :: "any kvs schema" where
  "log_schema = plain_schema ''log'' [] True"

definition log_tx :: "(any kvs memtx, any kvs) txn" where
  "log_tx = snd (Create user_env (Suc (Suc 1)) user_ctx ''log'' ann fresh_tx)"

lemma log_ids: "GetPrimaryKey (enJ user_env) log_schema ann = ''a''" "GetPrimaryKey (enJ user_env) log_schema bob = ''a''"
  "stored_doc user_env log_schema ''a'' ann" "stored_doc user_env log_schema ''a'' bob" "scImmutable log_schema"
  using witness_ids(1)
  by (simp_all add: stored_doc_def doc_valid_def GetPrimaryKey_def GetString_def doc_get_def user_env_def flat_env_def
      flat_json_def PrimaryKey_def log_schema_def plain_schema_def pk_index_def ann_def bob_def)

lemma create_ann: "fst (Create user_env 3 user_ctx ''log'' ann fresh_tx) = Inr (''a'', ann)"
  by code_simp

lemma create_bob: "fst (Create user_env 3 user_ctx ''log'' bob (snd (Create user_env 3 user_ctx ''log'' ann fresh_tx))) = Inr (''a'', bob)"
  by code_simp

lemma log_tx_stored: "stored user_env user_ctx log_schema log_tx ''a'' = Some ann" "in_order user_env user_ctx log_schema log_tx"
proof -
  have "Create user_env (Suc (Suc 1)) user_ctx ''log'' ann fresh_tx = (Inr (''a'', ann), log_tx)"
    using create_ann by (simp add: numeral_3_eq_3 prod_eq_iff log_tx_def)
  from create_put [OF plain_schema_writes(2) [folded log_schema_def] fresh_in_order(1) log_ids(1) witness_ids(1) this log_ids(3)]
  show "stored user_env user_ctx log_schema log_tx ''a'' = Some ann" "in_order user_env user_ctx log_schema log_tx" by simp_all
qed

text \<open>
  \<open>Set\<close> never replaces a document of an immutable collection: when the id is taken, it
  returns an error and no document.
\<close>

lemma set_keeps_immutable:
  assumes "user_collection E cx collection c" and "in_order E cx c t"
    and "GetPrimaryKey (enJ E) c document = docID" and "good_id docID"
    and "scImmutable c" and "stored E cx c t docID = Some b"
  shows "\<exists>e. fst (tx_Set E (Suc (Suc n)) cx collection document t) = Inl e"
proof (cases "fst (tx_Set E (Suc (Suc n)) cx collection document t)")
  case (Inr d)
  obtain cx1 where g: "getSchema E cx collection = Some (c, cx1)" by (rule user_collectionE [OF assms(1)])
  have "commit_command E (Suc (Suc n)) cx1 collection SetAction document ''tx: failed to commit set'' t
      = (Inr d, snd (tx_Set E (Suc (Suc n)) cx collection document t))"
    using Inr g by (simp add: tx_Set_def prod_eq_iff)
  from commit_put(2) [OF assms(1) g assms(2-4) _ this] assms(5,6) show ?thesis by simp
qed simp

lemma set_keeps_immutable_witness:
  "\<exists>e. fst (tx_Set user_env (Suc (Suc 1)) user_ctx ''log'' bob log_tx) = Inl e"
  by (rule set_keeps_immutable [OF plain_schema_writes(2) [folded log_schema_def] log_tx_stored(2) log_ids(2) witness_ids(1)
        log_ids(5) log_tx_stored(1)])

text \<open>
  \<open>Create\<close> does not look whether the id is taken: with an id that is, it succeeds and
  replaces the document, also in a collection that is immutable (the witness).
\<close>

lemma create_overwrites:
  assumes "user_collection E cx collection c" and "in_order E cx c t"
    and "GetPrimaryKey (enJ E) c document = docID" and "good_id docID"
    and "Create E (Suc (Suc n)) cx collection document t = (Inr (docID', d), t')" and "stored_doc E c docID d"
  shows "docID' = docID \<and> stored E cx c t' = (stored E cx c t)(docID \<mapsto> d) \<and> in_order E cx c t'"
  using assms by (rule create_put)

lemma create_overwrites_witness:
  "scImmutable log_schema \<and> stored user_env user_ctx log_schema log_tx ''a'' = Some ann \<and>
   stored user_env user_ctx log_schema (snd (Create user_env (Suc (Suc 1)) user_ctx ''log'' bob log_tx)) ''a'' = Some bob"
proof -
  have "Create user_env (Suc (Suc 1)) user_ctx ''log'' bob log_tx
      = (Inr (''a'', bob), snd (Create user_env (Suc (Suc 1)) user_ctx ''log'' bob log_tx))"
    using create_bob by (simp add: numeral_3_eq_3 prod_eq_iff log_tx_def)
  from create_overwrites [OF plain_schema_writes(2) [folded log_schema_def] log_tx_stored(2) log_ids(2) witness_ids(1) this log_ids(4)]
  show ?thesis using log_tx_stored(1) log_ids(5) by simp
qed

subsection \<open>Get\<close>

text \<open>
  \<open>Get\<close> by id returns the document that the collection holds under the id, changes nothing,
  and fails with \<open>NotFound\<close> exactly when there is none.
\<close>

lemma get_lookup:
  assumes "user_collection E cx collection c" and "in_order E cx c t" and "good_id docID"
  shows "tx_get E (Suc n) cx collection docID t = (case stored E cx c t docID of
    Some d \<Rightarrow> (Inr d, t) | None \<Rightarrow> (fail NotFound (docID @ '' not found''), t))"
proof -
  obtain cx1 where g: "getSchema E cx collection = Some (c, cx1)" "scCollection c = collection"
    and kv: "enKV E = \<lparr>opGet = mem_get, opSet = mem_set, opDel = mem_delete, opIter = mem_iter\<rparr>"
    by (rule user_collectionE [OF assms(1)])
  have plain: "plain_reads E cx c" using assms(1) by (simp add: user_collection_def plain_writes_def)
  show ?thesis
    unfolding stored_def by (rule mem.tx_get_docs [OF kv g plain assms(3) in_order_docs [OF assms(2)]])
qed

lemma get_lookup_witness: "tx_get user_env (Suc 1) user_ctx ''log'' ''a'' log_tx = (Inr ann, log_tx)"
  using get_lookup [OF plain_schema_writes(2) [folded log_schema_def] log_tx_stored(2) witness_ids(1)] log_tx_stored(1)
  by simp

subsection \<open>Update\<close>

lemma update_run:
  assumes coll: "user_collection E cx collection c"
    and doc: "NewDocumentFrom (enJ E) update = Inr d0" "SetPrimaryKey (enJ E) c d0 docID = Inr patch"
    and run: "Update E n cx collection docID update t = (Inr d, t')"
  obtains cx1 where "getSchema E cx collection = Some (c, cx1)"
    "commit_command E n cx1 collection UpdateAction patch ''tx: failed to commit update'' t = (Inr d, t')"
proof -
  obtain cx1 where g: "getSchema E cx collection = Some (c, cx1)" by (rule user_collectionE [OF coll])
  show thesis by (rule that [OF g]) (use run doc g in \<open>simp add: Update_def ebind_def wrapping_def\<close>)
qed

lemma update_put:
  assumes coll: "user_collection E cx collection c" and ord: "in_order E cx c t"
    and doc: "NewDocumentFrom (enJ E) update = Inr d0" "SetPrimaryKey (enJ E) c d0 docID = Inr patch"
    and id: "GetPrimaryKey (enJ E) c patch = docID" "good_id docID"
    and run: "Update E (Suc (Suc n)) cx collection docID update t = (Inr d, t')"
  shows "\<exists>b fs after. stored E cx c t docID = Some b \<and> Flatten (enJ E) (doc_value (enJ E) d) = Inr fs \<and>
      SetAll (enJ E) fs b = Inr after \<and> stored E cx c t' = (stored E cx c t)(docID \<mapsto> after) \<and>
      (\<forall>i\<in>secondary c. mem.view (tKV t') (idx_key E (namespace (enJ E) cx) c i d docID) = Some (BytesOf (enJ E) docID))"
proof -
  obtain cx1 where g0: "getSchema E cx collection = Some (c, cx1)"
    and c: "commit_command E (Suc (Suc n)) cx1 collection UpdateAction patch ''tx: failed to commit update'' t = (Inr d, t')"
    by (rule update_run [OF coll doc run])
  from coll g0 obtain g: "getSchema E cx1 collection = Some (c, cx1)" "plain_writes E cx1 c"
      "namespace (enJ E) cx1 = namespace (enJ E) cx" "scCollection c = collection"
    and kv: "enKV E = \<lparr>opGet = mem_get, opSet = mem_set, opDel = mem_delete, opIter = mem_iter\<rparr>"
    and coll': "collection \<noteq> cdcCollectionName" "nul \<notin> set collection"
    by (elim user_collectionE) auto
  obtain now where p: "persistCommand E (Suc (Suc n)) cx1 \<lparr>pcCollection = collection, pcAction = UpdateAction, pcDocument = patch,
      pcTimestamp = now, pcMetadata = Some (ExtractMetadata (enJ E) cx1)\<rparr> (t\<lparr>tTick := Suc (tTick t)\<rparr>) = (Inr d, t')"
    by (rule commit_commandE [OF c])
  have ok: "docs_ok E (namespace (enJ E) cx1) c (mem.view (tKV (t\<lparr>tTick := Suc (tTick t)\<rparr>)))"
    using in_order_docs [OF ord] g(3) by simp
  show ?thesis
    using mem.persist_update [OF kv _ g(2) _ _ _ id(2) ok _ p, simplified, OF g(1) coll' id(1)]
    unfolding stored_def g(3) by blast
qed

text \<open>
  C29: an \<open>Update\<close> that succeeds needs a document under the id and stores that document with the
  fields of the update set on it (flattened to paths), so the fields the update does not name
  keep their values; every other document stays as it is.
\<close>

theorem update_merges:
  assumes "user_collection E cx collection c" and "in_order E cx c t"
    and "NewDocumentFrom (enJ E) update = Inr d0" and "SetPrimaryKey (enJ E) c d0 docID = Inr patch"
    and "GetPrimaryKey (enJ E) c patch = docID" and "good_id docID"
    and "Update E (Suc (Suc n)) cx collection docID update t = (Inr d, t')"
  shows "\<exists>b fs after. stored E cx c t docID = Some b \<and> Flatten (enJ E) (doc_value (enJ E) d) = Inr fs \<and>
      SetAll (enJ E) fs b = Inr after \<and> stored E cx c t' = (stored E cx c t)(docID \<mapsto> after)"
  using update_put [OF assms] by blast

text \<open>\<open>user_tx\<close> holds the document \<open>ann\<close>; the update sets its age.\<close>

definition user_tx :: "(any kvs memtx, any kvs) txn" where
  "user_tx = snd (tx_Set user_env (Suc (Suc 1)) user_ctx ''user'' ann fresh_tx)"

definition aged_tx :: "(any kvs memtx, any kvs) txn" where
  "aged_tx = snd (Update user_env (Suc (Suc 1)) user_ctx ''user'' ''a'' [(''age'', AInt 3)] user_tx)"

definition aged :: "any kvs" where
  "aged = [(''age'', AInt 3), (''_id'', AStr ''a'')]"

lemma user_tx_stored: "stored user_env user_ctx user_schema user_tx ''a'' = Some ann" "in_order user_env user_ctx user_schema user_tx"
proof -
  have run: "tx_Set user_env (Suc (Suc 1)) user_ctx ''user'' ann fresh_tx = (Inr ann, user_tx)"
    using set_ann by (simp add: numeral_3_eq_3 prod_eq_iff user_tx_def)
  obtain cx1 where g: "getSchema user_env user_ctx ''user'' = Some (user_schema, cx1)"
    by (rule user_collectionE [OF plain_schema_writes(1)])
  then have "commit_command user_env (Suc (Suc 1)) cx1 ''user'' SetAction ann ''tx: failed to commit set'' fresh_tx = (Inr ann, user_tx)"
    using run by (simp add: tx_Set_def)
  from commit_put(1) [OF plain_schema_writes(1) g fresh_in_order(1) _ witness_ids(1) _ this witness_ids(4)]
  show "stored user_env user_ctx user_schema user_tx ''a'' = Some ann" "in_order user_env user_ctx user_schema user_tx"
    using witness_ids(2) by (simp_all add: user_env_def flat_env_def)
qed

lemma update_aged: "fst (Update user_env 3 user_ctx ''user'' ''a'' [(''age'', AInt 3)]
    (snd (tx_Set user_env 3 user_ctx ''user'' ann fresh_tx))) = Inr aged"
  by code_simp

lemma aged_run: "Update user_env (Suc (Suc 1)) user_ctx ''user'' ''a'' [(''age'', AInt 3)] user_tx = (Inr aged, aged_tx)"
  using update_aged by (simp add: numeral_3_eq_3 prod_eq_iff user_tx_def aged_tx_def)

lemma aged_patch:
  "NewDocumentFrom (enJ user_env) [(''age'', AInt 3)] = Inr [(''age'', AInt 3)]"
  "SetPrimaryKey (enJ user_env) user_schema [(''age'', AInt 3)] ''a'' = Inr aged"
  "GetPrimaryKey (enJ user_env) user_schema aged = ''a''"
  by (code_simp+)

lemma aged_merge:
  "Flatten (enJ user_env) (doc_value (enJ user_env) aged) = Inr aged"
  "SetAll (enJ user_env) aged ann = Inr (ann @ [(''age'', AInt 3)])"
  by (code_simp+)

theorem update_merges_witness:
  "stored user_env user_ctx user_schema aged_tx ''a'' = Some (ann @ [(''age'', AInt 3)])"
proof -
  obtain b fs after where r: "stored user_env user_ctx user_schema user_tx ''a'' = Some b"
    "Flatten (enJ user_env) (doc_value (enJ user_env) aged) = Inr fs" "SetAll (enJ user_env) fs b = Inr after"
    "stored user_env user_ctx user_schema aged_tx = (stored user_env user_ctx user_schema user_tx)(''a'' \<mapsto> after)"
    using update_merges [OF plain_schema_writes(1) user_tx_stored(2) aged_patch witness_ids(1) aged_run] by blast
  from aged_merge r user_tx_stored(1) show ?thesis by simp
qed

text \<open>
  C30: the entry that \<open>Update\<close> writes to a secondary index is that of the update, not that of the
  document it stores: when they differ (an indexed field that the update leaves out is
  enough), the index no longer matches the documents.
\<close>

theorem update_stale_index:
  assumes "user_collection E cx collection c" and "in_order E cx c t"
    and "NewDocumentFrom (enJ E) update = Inr d0" and "SetPrimaryKey (enJ E) c d0 docID = Inr patch"
    and "GetPrimaryKey (enJ E) c patch = docID" and "good_id docID"
    and "Update E (Suc (Suc n)) cx collection docID update t = (Inr d, t')"
    and "i \<in> secondary c" and "stored E cx c t' docID = Some after"
    and "idx_key E (namespace (enJ E) cx) c i d docID \<noteq> idx_key E (namespace (enJ E) cx) c i after docID"
  shows "\<not> in_order E cx c t'"
proof
  let ?ns = "namespace (enJ E) cx"
  assume "in_order E cx c t'"
  then have ok: "index_ok E ?ns c (mem.view (tKV t')) i" using assms(8) by (simp add: in_order_def consistent_def)
  have "mem.view (tKV t') (idx_key E ?ns c i d docID) = Some (BytesOf (enJ E) docID)"
    using update_put [OF assms(1-7)] assms(8) by blast
  then obtain e x where e: "good_id e" "mem.view (tKV t') (doc_key E ?ns c e) = Some x"
      "idx_key E ?ns c i d docID = idx_key E ?ns c i x e"
    using ok idx_key_region [of E ?ns c i d docID] unfolding index_ok_def by blast
  have "e = docID" using idx_key_ids [OF assms(6) e(1) e(3)] by simp
  then have "x = after" using e(2) assms(9) assms(6) by (simp add: stored_def docs_def)
  with e(3) \<open>e = docID\<close> assms(10) show False by simp
qed

theorem update_stale_index_witness: "\<not> in_order user_env user_ctx user_schema aged_tx"
proof (rule update_stale_index [OF plain_schema_writes(1) user_tx_stored(2) aged_patch witness_ids(1) aged_run])
  show "by_name \<in> secondary user_schema" by code_simp
  show "stored user_env user_ctx user_schema aged_tx ''a'' = Some (ann @ [(''age'', AInt 3)])"
    using update_put [OF plain_schema_writes(1) user_tx_stored(2) aged_patch witness_ids(1) aged_run] user_tx_stored(1) aged_merge
    by auto
  show "idx_key user_env (namespace (enJ user_env) user_ctx) user_schema by_name aged ''a''
    \<noteq> idx_key user_env (namespace (enJ user_env) user_ctx) user_schema by_name (ann @ [(''age'', AInt 3)]) ''a''"
    by code_simp
qed

subsection \<open>Delete\<close>

lemma delete_run:
  assumes coll: "user_collection E cx collection c" and doc: "NewDocumentFrom (enJ E) [(PrimaryKey c, AStr docID)] = Inr d0"
  obtains cx1 cmd where "getSchema E cx1 collection = Some (c, cx1)" "plain_writes E cx1 c"
    "namespace (enJ E) cx1 = namespace (enJ E) cx"
    "pcCollection cmd = collection" "pcAction cmd = DeleteAction" "pcDocument cmd = d0"
    "Delete E n cx collection docID t =
      ebind (wrap_eff 0 ''tx: failed to commit delete'' (persistCommand E n cx1 cmd)) (\<lambda>_. ret ()) (t\<lparr>tTick := Suc (tTick t)\<rparr>)"
proof -
  obtain cx1 where g: "getSchema E cx collection = Some (c, cx1)" "getSchema E cx1 collection = Some (c, cx1)"
    "plain_writes E cx1 c" "namespace (enJ E) cx1 = namespace (enJ E) cx"
    by (rule user_collectionE [OF coll])
  show thesis
    by (rule that [OF g(2-4), of "\<lparr>pcCollection = collection, pcAction = DeleteAction, pcDocument = d0,
          pcTimestamp = enClock E (tTick t), pcMetadata = Some (ExtractMetadata (enJ E) cx1)\<rparr>"])
      (use doc g(1) in \<open>simp_all add: Delete_def tx_delete_with_def ebind_def [of "draw _"] draw_def\<close>)
qed

lemma delete_put:
  assumes "user_collection E cx collection c" and "in_order E cx c t" and "unreferenced E collection"
    and "NewDocumentFrom (enJ E) [(PrimaryKey c, AStr docID)] = Inr d0" and "GetPrimaryKey (enJ E) c d0 = docID"
    and "good_id docID" and "Delete E (Suc (Suc n)) cx collection docID t = (Inr (), t')"
  shows "stored E cx c t' = (stored E cx c t)(docID := None) \<and> in_order E cx c t' \<and>
    \<not> scImmutable c \<and> \<not> scPreventDeletes c"
proof -
  obtain cx1 cmd where g: "getSchema E cx1 collection = Some (c, cx1)" "plain_writes E cx1 c"
    "namespace (enJ E) cx1 = namespace (enJ E) cx"
    and cmd: "pcCollection cmd = collection" "pcAction cmd = DeleteAction" "pcDocument cmd = d0"
    and run: "Delete E (Suc (Suc n)) cx collection docID t = ebind (wrap_eff 0 ''tx: failed to commit delete''
      (persistCommand E (Suc (Suc n)) cx1 cmd)) (\<lambda>_. ret ()) (t\<lparr>tTick := Suc (tTick t)\<rparr>)"
    by (rule delete_run [OF assms(1,4)])
  obtain d where p: "persistCommand E (Suc (Suc n)) cx1 cmd (t\<lparr>tTick := Suc (tTick t)\<rparr>) = (Inr d, t')"
    using assms(7) unfolding run by (auto simp: ebind_Inr_iff simp del: persistCommand.simps)
  from assms(1) have kv: "enKV E = \<lparr>opGet = mem_get, opSet = mem_set, opDel = mem_delete, opIter = mem_iter\<rparr>"
    and coll: "pcCollection cmd \<noteq> cdcCollectionName" "nul \<notin> set (pcCollection cmd)"
    by (simp_all add: user_collection_def mem_ops_def cmd)
  have ok: "docs_ok E (namespace (enJ E) cx1) c (mem.view (tKV (t\<lparr>tTick := Suc (tTick t)\<rparr>)))"
    using in_order_docs [OF assms(2)] g(3) by simp
  note del = mem.persist_delete [OF kv _ g(2) coll _ _ assms(6) ok cmd(2) p, unfolded cmd, OF g(1) assms(3,5)]
  have w: "written E (namespace (enJ E) cx) c docID (docs E (namespace (enJ E) cx) c (mem.view (tKV t)) docID) None
      (mem.view (tKV t)) (mem.view (tKV t'))"
    using del(1) g(3) by simp
  have "in_order E cx c t'"
    unfolding in_order_def
    by (rule written_consistent [OF w assms(2) [unfolded in_order_def] assms(6)]) (use assms(6) in \<open>simp_all add: docs_def\<close>)
  with written_docs [OF w assms(6)] del(2) show ?thesis by (simp add: stored_def)
qed

text \<open>
  C3: a \<open>Delete\<close> that succeeds, in a collection that no foreign key refers to, takes exactly
  one document out and leaves the secondary indexes in step; it succeeds only if the collection
  is not immutable and does not prevent deletes.
\<close>

theorem delete_refines:
  assumes "user_collection E cx collection c" and "in_order E cx c t" and "unreferenced E collection"
    and "NewDocumentFrom (enJ E) [(PrimaryKey c, AStr docID)] = Inr d0" and "GetPrimaryKey (enJ E) c d0 = docID"
    and "good_id docID" and "Delete E (Suc (Suc n)) cx collection docID t = (Inr (), t')"
  shows "stored E cx c t' = (stored E cx c t)(docID := None) \<and> in_order E cx c t' \<and>
    \<not> scImmutable c \<and> \<not> scPreventDeletes c"
  using assms by (rule delete_put)

lemma delete_ann: "fst (Delete user_env 3 user_ctx ''user'' ''a'' (snd (tx_Set user_env 3 user_ctx ''user'' ann fresh_tx))) = Inr ()"
  by code_simp

definition key_doc :: "any kvs" where
  "key_doc = [(''_id'', AStr ''a'')]"

lemma user_free: "unreferenced user_env ''user''"
  and key_doc: "NewDocumentFrom (enJ user_env) [(PrimaryKey user_schema, AStr ''a'')] = Inr key_doc"
    "GetPrimaryKey (enJ user_env) user_schema key_doc = ''a''"
    "\<not> scReadOnly user_schema \<and> \<not> scImmutable user_schema \<and> \<not> scPreventDeletes user_schema \<and> enCheckSchema user_env user_schema = None"
    "by_name \<in> secondary user_schema"
  by (simp_all add: unreferenced_def user_env_def flat_env_def user_schema_def plain_schema_def Indexing_map_def pk_index_def
      by_name_def) (code_simp+)

theorem delete_refines_witness:
  "stored user_env user_ctx user_schema (snd (Delete user_env (Suc (Suc 1)) user_ctx ''user'' ''a'' user_tx)) ''a'' = None"
proof -
  have "Delete user_env (Suc (Suc 1)) user_ctx ''user'' ''a'' user_tx
      = (Inr (), snd (Delete user_env (Suc (Suc 1)) user_ctx ''user'' ''a'' user_tx))"
    using delete_ann by (simp add: numeral_3_eq_3 prod_eq_iff user_tx_def)
  from delete_refines [OF plain_schema_writes(1) user_tx_stored(2) user_free key_doc(1,2) witness_ids(1) this]
  show ?thesis by simp
qed

text \<open>
  C31: deleting an id that no document has, in a collection with a secondary index, is not an
  error but a panic: every check passes, and then the index update reads the missing document.
\<close>

theorem delete_missing_panics:
  assumes "user_collection E cx collection c" and "in_order E cx c t" and "unreferenced E collection"
    and "NewDocumentFrom (enJ E) [(PrimaryKey c, AStr docID)] = Inr d0" and "GetPrimaryKey (enJ E) c d0 = docID"
    and "good_id docID" and "stored E cx c t docID = None" and "i \<in> secondary c"
    and "\<not> IsReadOnly (mt_opts (tKV t))"
    and "\<not> scReadOnly c \<and> \<not> scImmutable c \<and> \<not> scPreventDeletes c \<and> enCheckSchema E c = None"
  shows "fst (Delete E (Suc (Suc n)) cx collection docID t) = nil_pointer"
proof -
  obtain cx1 cmd where g: "getSchema E cx1 collection = Some (c, cx1)" "plain_writes E cx1 c"
    "namespace (enJ E) cx1 = namespace (enJ E) cx"
    and cmd: "pcCollection cmd = collection" "pcAction cmd = DeleteAction" "pcDocument cmd = d0"
    and run: "Delete E (Suc (Suc n)) cx collection docID t = ebind (wrap_eff 0 ''tx: failed to commit delete''
      (persistCommand E (Suc (Suc n)) cx1 cmd)) (\<lambda>_. ret ()) (t\<lparr>tTick := Suc (tTick t)\<rparr>)"
    by (rule delete_run [OF assms(1,4)])
  from assms(1) have kv: "enKV E = \<lparr>opGet = mem_get, opSet = mem_set, opDel = mem_delete, opIter = mem_iter\<rparr>"
    by (simp add: user_collection_def mem_ops_def)
  have ok: "docs_ok E (namespace (enJ E) cx1) c (mem.view (tKV (t\<lparr>tTick := Suc (tTick t)\<rparr>)))"
    using in_order_docs [OF assms(2)] g(3) by simp
  have "fst (persistCommand E (Suc (Suc n)) cx1 cmd (t\<lparr>tTick := Suc (tTick t)\<rparr>)) = nil_pointer"
    by (rule mem.persist_delete_missing [OF kv _ g(2) _ _ assms(6) ok cmd(2)])
      (use g assms cmd in \<open>simp_all add: stored_def\<close>)
  then show ?thesis
    unfolding run
    by (cases "persistCommand E (Suc (Suc n)) cx1 cmd (t\<lparr>tTick := Suc (tTick t)\<rparr>)")
      (simp add: ebind_def wrap_eff_def nil_pointer_def wrapping_def del: persistCommand.simps)
qed

theorem delete_missing_panics_witness:
  "fst (Delete user_env (Suc (Suc 1)) user_ctx ''user'' ''a'' fresh_tx) = nil_pointer"
  by (rule delete_missing_panics [OF plain_schema_writes(1) fresh_in_order(1) user_free key_doc(1,2) witness_ids(1)
        fresh_in_order(2) key_doc(4) _ key_doc(3)])
    (simp add: fresh_tx_def empty_mem_def)

end
