(* ===== verification/WriteGuard.thy ===== *)
theory WriteGuard
  imports Operations
begin

text \<open>
  A command that the rules of its collection refuse leaves the store as it was, for every back
  end: \<open>persistCommand\<close> asks \<open>authorizeCommand\<close> before it writes the first key. The same holds
  for the other checks in front of the write: the collection is unknown, or read only.
\<close>

text \<open>The collection has a deny rule of the action that always matches.\<close>

definition denied :: "('s, 'r) env \<Rightarrow> 'r schema \<Rightarrow> action \<Rightarrow> bool" where
  "denied E c act \<longleftrightarrow> (\<exists>a\<in>set (scAuthz c). arEffect a = Deny \<and> rule_applies act a \<and>
     (\<forall>vm. \<exists>x vm'. jsRun (enJS E) vm (enScripts E @ arMatch a) = Inr (x, vm') \<and> jsToBoolean (enJS E) x))"

text \<open>The operation fails, and what is stored is what was stored.\<close>

definition refused :: "('s, 'r, 'a) tx \<Rightarrow> ('s, 'r) txn \<Rightarrow> bool" where
  "refused m t \<longleftrightarrow> (\<exists>e. fst (m t) = Inl e) \<and> tKV (snd (m t)) = tKV t"

lemma refused_bind: "refused m t \<Longrightarrow> refused (ebind m f) t"
  by (auto simp: refused_def ebind_def split: prod.splits sum.splits)

lemma refused_later:
  assumes "keeps (kvrel (=)) m" "\<And>a u. refused (f a) u"
  shows "refused (ebind m f) t"
proof (cases "m t")
  case (Pair r u)
  then have "tKV u = tKV t" using same_kv.keeps_run [OF assms(1)] by (simp add: kvrel_def)
  with Pair assms(2) show ?thesis by (cases r) (auto simp: refused_def ebind_def)
qed

lemma refused_wrap: "refused m t \<Longrightarrow> refused (wrap_eff code msg m) t"
  by (auto simp: refused_def wrap_eff_def wrapping_def split: prod.splits sum.splits failure.splits)

lemma refused_throw: "refused (throw code msg) t" "refused (lift_res (Inl e)) t"
  by (simp_all add: refused_def fail_def)

lemma refused_never:
  assumes "keeps (kvrel (=)) m" "\<And>a u. m t \<noteq> (Inr a, u)"
  shows "refused m t"
proof (cases "m t")
  case (Pair r u)
  then have "tKV u = tKV t" using same_kv.keeps_run [OF assms(1)] by (simp add: kvrel_def)
  with Pair assms(2) show ?thesis by (cases r) (auto simp: refused_def)
qed

lemma pick_rules_keep:
  "pick_rules act eff rules = Inr rs \<Longrightarrow> a \<in> set rules \<Longrightarrow> rule_applies act a \<Longrightarrow> arEffect a = eff \<Longrightarrow> a \<in> set rs"
  by (induction rules arbitrary: rs)
    (auto simp: rule_picked_def rule_applies_def rbind_eq_Inr split: list.splits if_splits)

lemma any_match_found:
  "any_match J gs rules vm = Inr (b, vm') \<Longrightarrow> a \<in> set rules \<Longrightarrow>
   (\<And>vm. \<exists>x vm'. jsRun J vm (gs @ arMatch a) = Inr (x, vm') \<and> jsToBoolean J x) \<Longrightarrow> b"
proof (induction rules arbitrary: vm)
  case (Cons d ds)
  from Cons.prems(1) obtain x u where x: "jsRun J vm (gs @ arMatch d) = Inr (x, u)"
    "(if jsToBoolean J x then Inr (True, u) else any_match J gs ds u) = Inr (b, vm')"
    by (auto simp: rbind_eq_Inr lift_err_def wrapping_def split: sum.splits failure.splits)
  show ?case
  proof (cases "jsToBoolean J x")
    case False
    with x Cons.prems(2,3) have "a \<in> set ds" by (metis Inr_inject fst_conv set_ConsD)
    with Cons.IH [OF _ this Cons.prems(3)] x(2) False show ?thesis by auto
  qed (use x(2) in simp)
qed simp

lemma denied_never:
  assumes "denied E c act"
  shows "authorize_rules (enJS E) (enScripts E) act (scAuthz c) vm \<noteq> Inr (True, vm')" "scAuthz c \<noteq> []"
proof -
  from assms obtain a where a: "a \<in> set (scAuthz c)" "arEffect a = Deny" "rule_applies act a"
    "\<And>vm. \<exists>x vm'. jsRun (enJS E) vm (enScripts E @ arMatch a) = Inr (x, vm') \<and> jsToBoolean (enJS E) x"
    by (auto simp: denied_def)
  then show "scAuthz c \<noteq> []" by auto
  show "authorize_rules (enJS E) (enScripts E) act (scAuthz c) vm \<noteq> Inr (True, vm')"
    unfolding authorize_rules_def
    using pick_rules_keep [OF _ a(1,3,2)] any_match_found [OF _ _ a(4)] by (fastforce simp: rbind_eq_Inr split: if_splits)
qed

lemma evaluate_denied:
  assumes "denied E c act" "\<not> cxInternal cx"
  shows "refused (evaluate E cx c act meta document) t"
  using denied_never [OF assms(1)] assms(2)
  by (intro refused_never same_kv.keeps_evaluate)
    (auto simp: evaluate_def ebind_Inr_iff on_vm_def authorizeCommand_def split: sum.splits if_splits prod.splits)

lemma persist_denied:
  assumes "getSchema E cx (pcCollection cmd) = Some (c, cx1)" "denied E c (pcAction cmd)" "\<not> cxInternal cx" "\<not> cxIndexing cx"
  shows "refused (persistCommand E n cx cmd) t"
proof (cases n)
  case (Suc m)
  show ?thesis
    unfolding Suc persistCommand.simps persist_with_def Let_def using assms
    by (auto intro!: refused_later refused_throw same_kv.keeps_rules same_kv.keeps_get
        refused_bind [OF evaluate_denied] split: option.splits)
qed (simp add: refused_throw)

lemma commit_denied:
  assumes "getSchema E cx collection = Some (c, cx1)" "denied E c act" "\<not> cxInternal cx" "\<not> cxIndexing cx"
  shows "refused (commit_command E n cx collection act document msg) t"
  unfolding commit_command_def
  by (intro refused_later same_kv.keeps_draw refused_wrap persist_denied) (use assms in auto)


definition closed_schema :: "any kvs schema" where
  "closed_schema = user_schema\<lparr>scAuthz := [\<lparr>arEffect = Allow, arAction = [QueryAction], arMatch = ''true''\<rparr>,
     \<lparr>arEffect = Deny, arAction = [any_action], arMatch = ''true''\<rparr>]\<rparr>"


end
