(* ===== verification/QueryLaws.thy ===== *)
theory QueryLaws
  imports Operations
begin

text \<open>
  What a query answers, in terms of the map from ids to documents that a collection stands for:
  the documents that pass the where clauses, each once, in the order asked for, whether they are
  read from the primary index or looked up from a secondary one; \<open>page_of\<close> cuts the page.
  \<open>scan_collect\<close> is the invariant of the scan loop, which stops early on a first page without an order.
\<close>

subsection \<open>The loop\<close>

definition take_limit :: "query \<Rightarrow> 'a list \<Rightarrow> 'a list" where
  "take_limit q xs = (if qLimit q > 0 then take (nat (qLimit q)) xs else xs)"

text \<open>
  What the loop collects: everything that passes, or, when the first page of an unordered query
  is asked for, no more than the limit.
\<close>

definition gathered :: "query \<Rightarrow> 'a list \<Rightarrow> 'a list" where
  "gathered q xs = (if qPage q = 0 \<and> qOrderBy q = [] then take_limit q xs else xs)"

lemma scan_collect:
  assumes room: "qPage q = 0 \<Longrightarrow> qOrderBy q = [] \<Longrightarrow> qLimit q > 0 \<Longrightarrow> int (length rs) < qLimit q"
    and step: "\<And>kv a. kv \<in> set kvs \<Longrightarrow> step kv a t = emit J ws (collect q) [ld kv] a t"
    and pass: "\<And>kv. kv \<in> set kvs \<Longrightarrow> doc_where J (ld kv) ws = Inr (P (ld kv))"
  shows "\<exists>completed full. scan_items step kvs (True, rs) t =
    (Inr (completed, full, gathered q (rs @ filter P (map ld kvs))), t) \<and> (full \<or> qPage q = 0)"
  using step pass room
proof (induction kvs arbitrary: rs)
  case Nil
  then show ?case by (auto simp: take_limit_def gathered_def)
next
  case (Cons kv kvs)
  let ?full = "qPage q = 0 \<and> qOrderBy q = [] \<and> qLimit q > 0 \<and> int (length (rs @ [ld kv])) \<ge> qLimit q"
  have run: "step kv (True, rs) t = (if P (ld kv) then (if ?full then (Inr (False, False, rs @ [ld kv]), t)
      else (Inr (True, True, rs @ [ld kv]), t)) else (Inr (True, True, rs), t))"
    using Cons.prems(1,2) by (simp add: collect_def Let_def ebind_def)
  show ?case
  proof (cases "P (ld kv) \<and> ?full")
    case True
    then have "nat (qLimit q) = length rs + 1" using Cons.prems(3) by auto
    with True run show ?thesis by (auto simp: ebind_def take_limit_def gathered_def)
  next
    case False
    let ?rs = "if P (ld kv) then rs @ [ld kv] else rs"
    have "step kv (True, rs) t = (Inr (True, True, ?rs), t)" using run False by auto
    moreover have "\<exists>completed full. scan_items step kvs (True, ?rs) t =
        (Inr (completed, full, gathered q (?rs @ filter P (map ld kvs))), t) \<and> (full \<or> qPage q = 0)"
      using Cons.prems False by (intro Cons.IH) auto
    ultimately show ?thesis by (auto simp: ebind_def)
  qed
qed

text \<open>A plain query selects whole documents: no joins and no groups; an order and pages are allowed.\<close>

definition plain_query :: "('s, 'r) env \<Rightarrow> query \<Rightarrow> bool" where
  "plain_query E q \<longleftrightarrow> qSelect q = [] \<and> qJoin q = [] \<and> enCheckQuery E (with_select q) = None"

lemma plain_queryD:
  assumes "plain_query E q"
  shows "with_select q = q\<lparr>qSelect := [select_field ''*'']\<rparr>" "Validate (enCheckQuery E) (with_select q) = Inr ()"
    "\<not> isAggregateQuery (with_select q)" "qJoin q = []"
  using assms by (auto simp: plain_query_def with_select_def Validate_def isAggregateQuery_def)

text \<open>Stopping early at the limit, or cutting afterwards, gives the same page.\<close>

definition page_of :: "('s, 'r) env \<Rightarrow> query \<Rightarrow> explain \<Rightarrow> 'r list \<Rightarrow> 'r page" where
  "page_of E q match rs = \<lparr>pgDocuments = paginate (enSlice E) True q rs, pgNextPage = int64 (qPage q + 1),
     pgCount = length (paginate (enSlice E) True q rs), pgExplain = match\<rparr>"

lemma finish_plain:
  fixes E :: "('s, 'r) env"
  assumes "plain_query E q" and "full \<or> qPage q = 0"
  shows "finish_query E (with_select q) match full (gathered q xs) =
    rbind (orderByDocs (enJ E) (qOrderBy q) xs) (\<lambda>rs. Inr (page_of E q match rs))"
proof -
  have full: "paginate lo full (q\<lparr>qSelect := ss\<rparr>) rs = paginate lo True q rs" for lo ss and rs :: "'r list"
    using assms(2) by (auto simp: paginate_def Let_def cong: if_cong)
  have finish: "finish_query E (with_select q) match full ys =
      rbind (orderByDocs (enJ E) (qOrderBy q) ys) (\<lambda>rs. Inr (page_of E q match rs))" for ys
    using plain_queryD(1) [OF assms(1)] by (simp add: finish_query_def page_of_def full Let_def)
  have "paginate lo True q (take_limit q rs) = paginate lo True q rs" if "qPage q = 0" for lo and rs :: "'r list"
    using that by (auto simp: paginate_def take_limit_def)
  then show ?thesis
    by (simp add: finish gathered_def page_of_def orderByDocs_def)
qed

subsection \<open>The items of a scan\<close>

text \<open>Where an index keeps the document of an id, and which document an item of the index stands for.\<close>

definition slot :: "('s, 'r) env \<Rightarrow> string \<Rightarrow> 'r schema \<Rightarrow> index_c \<Rightarrow> string \<Rightarrow> 'r \<Rightarrow> bytes" where
  "slot E ns c i docID d = (if iPrimary i then doc_key E ns c docID else idx_key E ns c i d docID)"

lemma Indexing_map_cases:
  assumes "schema_wf c" "i \<in> set (Indexing_map c)"
  obtains "iPrimary i" "i = scPrimaryIndex c" | "\<not> iPrimary i" "i \<in> secondary c"
  using assms by (auto simp: secondary_def Indexing_map_def schema_wf_def)

lemma optimized_index:
  assumes "Optimize c ws = Inr ex" "schema_wf c"
  shows "eIndex ex \<in> set (Indexing_map c)"
proof -
  have "scPrimaryIndex c \<in> set (Indexing_map c)"
    using assms(2) by (auto simp: schema_wf_def Indexing_map_def image_iff) force
  with assms(1) show ?thesis by (cases rule: Optimize_cases) (simp_all add: defaultExplain_def)
qed

lemma docs_stored:
  assumes "docs_ok E ns c V" and "docs E ns c V docID = Some d"
  shows "stored_doc E c docID d"
proof -
  have g: "good_id docID" "V (doc_key E ns c docID) = Some d" using assms(2) by (auto simp: docs_def split: if_splits)
  then obtain e where e: "doc_key E ns c docID = doc_key E ns c e" "stored_doc E c e d"
    using assms(1) doc_key_region [of E ns c docID] unfolding docs_ok_def by blast
  then have "e = docID" using g(1) by (simp add: stored_doc_def doc_key_inject)
  with e show ?thesis by simp
qed

lemma item_document:
  assumes con: "consistent E ns c V" and wf: "schema_wf c" and i: "i \<in> set (Indexing_map c)"
    and k: "k \<in> region ns (scCollection c) (iName i)" "V k = Some v"
  shows "\<exists>docID d. good_id docID \<and> docs E ns c V docID = Some d \<and> k = slot E ns c i docID d \<and> key_docID k = docID \<and>
    (iPrimary i \<longrightarrow> v = d) \<and> doc_valid (enJ E) d"
  using wf i
proof (cases rule: Indexing_map_cases)
  case 1
  then obtain docID where d: "k = doc_key E ns c docID" "stored_doc E c docID v"
    using con k by (auto simp: consistent_def docs_ok_def)
  then have "good_id docID" "doc_valid (enJ E) v" by (simp_all add: stored_doc_def)
  moreover have "key_docID k = docID" unfolding d(1) by (rule doc_key_docID) (rule good_id_nul [OF calculation(1)])
  ultimately show ?thesis using 1 d(1) k(2) by (auto simp: docs_def slot_def)
next
  case 2
  then obtain docID d where d: "good_id docID" "V (doc_key E ns c docID) = Some d" "k = idx_key E ns c i d docID"
    using con k unfolding consistent_def index_ok_def by blast
  then have dd: "docs E ns c V docID = Some d" by (simp add: docs_def)
  then have "stored_doc E c docID d" using con by (intro docs_stored) (simp_all add: consistent_def)
  moreover have "key_docID k = docID" unfolding d(3) by (rule idx_key_docID) (rule good_id_nul [OF d(1)])
  ultimately show ?thesis using 2 d dd by (auto simp: slot_def stored_doc_def)
qed

lemma document_item:
  assumes con: "consistent E ns c V" and wf: "schema_wf c" and i: "i \<in> set (Indexing_map c)"
    and d: "docs E ns c V docID = Some d"
  shows "\<exists>v. V (slot E ns c i docID d) = Some v"
proof -
  have g: "good_id docID" "V (doc_key E ns c docID) = Some d" using d by (auto simp: docs_def split: if_splits)
  from wf i show ?thesis
  proof (cases rule: Indexing_map_cases)
    case 1
    with g show ?thesis by (simp add: slot_def)
  next
    case 2
    with con g idx_key_region [of E ns c i d docID] show ?thesis
      unfolding consistent_def index_ok_def by (auto simp: slot_def)
  qed
qed

lemma slot_entry_key:
  "iPrimary i \<Longrightarrow> i = scPrimaryIndex c \<Longrightarrow>
     slot E ns c i docID d = entry_key (enJ E) ns (scCollection c) i [(PrimaryKey c, AStr docID)] docID"
  "\<not> iPrimary i \<Longrightarrow> slot E ns c i docID d = entry_key (enJ E) ns (scCollection c) i (doc_value (enJ E) d) docID"
  by (simp_all add: slot_def doc_key_def idx_key_def)

text \<open>
  What a scan relies on: nothing else is stored under the name of an index, and what a document
  flattens to is what its paths read.
\<close>

definition tidy :: "string \<Rightarrow> 'r schema \<Rightarrow> (bytes \<Rightarrow> 'r option) \<Rightarrow> bool" where
  "tidy ns c V \<longleftrightarrow> (\<forall>i\<in>set (Indexing_map c). \<forall>k. V k \<noteq> None \<longrightarrow>
     prefix (indexPrefix ns (scCollection c) (iName i)) k \<longrightarrow> k \<in> region ns (scCollection c) (iName i))"

definition flat_docs :: "('s, 'r) env \<Rightarrow> string \<Rightarrow> 'r schema \<Rightarrow> (bytes \<Rightarrow> 'r option) \<Rightarrow> bool" where
  "flat_docs E ns c V \<longleftrightarrow> (\<forall>docID d. docs E ns c V docID = Some d \<longrightarrow>
     (\<forall>i\<in>secondary c. entry_of (enJ E) i (doc_value (enJ E) d) d))"

text \<open>The index is read from its first field on, forwards, by equalities.\<close>

definition leading :: "explain \<Rightarrow> bool" where
  "leading ex \<longleftrightarrow> distinct (iFields (eIndex ex)) \<and> eSeekFields ex = [] \<and> \<not> eReverse ex \<and>
     (\<exists>n. set (eMatchedFields ex) = set (take n (iFields (eIndex ex))))"

lemma scan_key_prefix: "prefix (indexPrefix ns coll (iName i)) (scan_key L ns coll i fs)"
proof (cases "field_segments L (flat_fields L fs) (iFields i) = []")
  case True
  then show ?thesis by (simp add: scan_key_eq indexPrefix_def)
next
  case False
  then have "scan_key L ns coll i fs = indexPrefix ns coll (iName i) @ nul # join0 (field_segments L (flat_fields L fs) (iFields i))"
    unfolding scan_key_eq indexPrefix_def by (subst join0_append) simp_all
  then show ?thesis by simp
qed

lemma stored_entry:
  assumes con: "consistent E ns c V" and wf: "schema_wf c" and flat: "flatten_laws (enJ E)"
    and d: "docs E ns c V docID = Some d"
  shows "entry_of (enJ E) (scPrimaryIndex c) [(PrimaryKey c, AStr docID)] d"
proof -
  have "stored_doc E c docID d" using con d by (intro docs_stored) (simp_all add: consistent_def)
  then have "gjGet (enJ E) d (PrimaryKey c) = Some (AStr docID)"
    by (auto simp: stored_doc_def doc_get_def split: option.splits)
  moreover have "map_of (flat_fields (enJ E) [(PrimaryKey c, AStr docID)]) = map_of [(PrimaryKey c, AStr docID)]"
    using flat by (rule flat_fields_scalar) simp
  ultimately show ?thesis by (simp add: entry_of_def schema_wf_primary [OF wf])
qed

context kv_tx begin

lemma leading_scan:
  assumes "leading ex"
  shows "kv_scan (scan_opts L ns coll ex) (items s) =
    filter (\<lambda>kv. prefix (scan_key L ns coll (eIndex ex) (eMatchedValues ex)) (fst kv)) (items s)"
proof -
  have "scan_opts L ns coll ex = \<lparr>Prefix = Some (scan_key L ns coll (eIndex ex) (eMatchedValues ex)), UpperBound = None,
      Seek = Some (scan_key L ns coll (eIndex ex) (eMatchedValues ex)), Reverse = False\<rparr>"
    using assms by (simp add: leading_def scan_opts_def seek_path_def scan_key_def)
  then show ?thesis by (simp add: kv_scan_prefix [OF items_sorted])
qed

text \<open>The items of the scan are those of different documents, and every document that passes has one.\<close>

lemma scanned_documents:
  assumes con: "consistent E ns c (view s)" and wf: "schema_wf c" and flat: "flatten_laws (enJ E)"
    and opt: "Optimize c ws = Inr ex" and lead: "leading ex" and plain: "clauses_plain (enJ E) ws"
    and tidy: "tidy ns c (view s)" and fd: "flat_docs E ns c (view s)"
    and kvs: "kvs = kv_scan (scan_opts (enJ E) ns (scCollection c) ex) (items s)"
  shows "distinct (map (\<lambda>kv. key_docID (fst kv)) kvs)"
    and "\<forall>kv\<in>set kvs. \<exists>d. good_id (key_docID (fst kv)) \<and> docs E ns c (view s) (key_docID (fst kv)) = Some d \<and>
      (iPrimary (eIndex ex) \<longrightarrow> snd kv = d) \<and> doc_valid (enJ E) d"
    and "\<forall>docID d. docs E ns c (view s) docID = Some d \<longrightarrow> doc_where (enJ E) d ws = Inr True \<longrightarrow>
      docID \<in> (\<lambda>kv. key_docID (fst kv)) ` set kvs"
proof -
  let ?i = "eIndex ex" and ?P = "scan_key (enJ E) ns (scCollection c) (eIndex ex) (eMatchedValues ex)"
  have i: "?i \<in> set (Indexing_map c)" by (rule optimized_index [OF opt wf])
  have kvs': "kvs = filter (\<lambda>kv. prefix ?P (fst kv)) (items s)" unfolding kvs by (rule leading_scan [OF lead])
  have item: "\<exists>d. good_id (key_docID k) \<and> docs E ns c (view s) (key_docID k) = Some d \<and> k = slot E ns c ?i (key_docID k) d \<and>
      (iPrimary ?i \<longrightarrow> v = d) \<and> doc_valid (enJ E) d" if "(k, v) \<in> set kvs" for k v
  proof -
    have k: "prefix ?P k" "view s k = Some v" using that by (auto simp: kvs' in_items_iff)
    then have "prefix (indexPrefix ns (scCollection c) (iName ?i)) k" using scan_key_prefix prefix_order.trans by blast
    then have "k \<in> region ns (scCollection c) (iName ?i)" using tidy i k(2) by (auto simp: tidy_def)
    from item_document [OF con wf i this k(2)] show ?thesis by auto
  qed
  then show "\<forall>kv\<in>set kvs. \<exists>d. good_id (key_docID (fst kv)) \<and> docs E ns c (view s) (key_docID (fst kv)) = Some d \<and>
      (iPrimary ?i \<longrightarrow> snd kv = d) \<and> doc_valid (enJ E) d" by fastforce
  have "inj_on key_docID (fst ` set kvs)"
  proof (rule inj_onI)
    fix k l assume kl: "k \<in> fst ` set kvs" "l \<in> fst ` set kvs" "key_docID k = key_docID l"
    then obtain v w where "(k, v) \<in> set kvs" "(l, w) \<in> set kvs" by force
    from item [OF this(1)] item [OF this(2)] kl(3) show "k = l" by auto
  qed
  moreover have "distinct (map fst kvs)" unfolding kvs' by (rule distinct_map_filter [OF items_distinct])
  ultimately have "distinct (map key_docID (map fst kvs))" by (simp only: distinct_map set_map)
  then show "distinct (map (\<lambda>kv. key_docID (fst kv)) kvs)" by (simp add: comp_def)
  show "\<forall>docID d. docs E ns c (view s) docID = Some d \<longrightarrow> doc_where (enJ E) d ws = Inr True \<longrightarrow>
      docID \<in> (\<lambda>kv. key_docID (fst kv)) ` set kvs"
  proof (intro allI impI)
    fix docID d assume d: "docs E ns c (view s) docID = Some d" "doc_where (enJ E) d ws = Inr True"
    obtain gs where e: "entry_of (enJ E) ?i gs d" "slot E ns c ?i docID d = entry_key (enJ E) ns (scCollection c) ?i gs docID"
      using wf i
    proof (cases rule: Indexing_map_cases)
      case 1
      with that [of "[(PrimaryKey c, AStr docID)]"] stored_entry [OF con wf flat d(1)] slot_entry_key(1) show ?thesis by metis
    next
      case 2
      with that [of "doc_value (enJ E) d"] fd d(1) slot_entry_key(2) show ?thesis by (metis flat_docs_def)
    qed
    obtain v where v: "view s (slot E ns c ?i docID d) = Some v" using document_item [OF con wf i d(1)] by blast
    obtain n where n: "set (eMatchedFields ex) = set (take n (iFields ?i))" using lead by (auto simp: leading_def)
    have "(slot E ns c ?i docID d, v) \<in> set (kv_scan (scan_opts (enJ E) ns (scCollection c) ex) (items s))"
      unfolding e(2) using lead v e
      by (intro default_optimizer.scan_meets [OF opt flat plain n _ d(2) e(1)] items_sorted)
        (auto simp: leading_def in_items_iff)
    moreover have "key_docID (slot E ns c ?i docID d) = docID"
      using d(1) good_id_nul by (auto simp: docs_def slot_def doc_key_docID idx_key_docID split: if_splits)
    ultimately show "docID \<in> (\<lambda>kv. key_docID (fst kv)) ` set kvs" unfolding kvs by force
  qed
qed

text \<open>The document of an item: in the primary index the item itself, else the result of \<open>Get\<close>.\<close>

lemma load_stored:
  assumes kv: "enKV E = \<lparr>opGet = kget, opSet = kset, opDel = kdel, opIter = kiter\<rparr>"
    and sch: "getSchema E cx collection = Some (c, cx1)" "scCollection c = collection"
    and plain: "plain_reads E cx c" and ok: "docs_ok E (namespace (enJ E) cx) c (view (tKV t))"
    and d: "good_id (key_docID (fst x))" "docs E (namespace (enJ E) cx) c (view (tKV t)) (key_docID (fst x)) = Some d"
      "iPrimary (eIndex ex) \<longrightarrow> snd x = d" "doc_valid (enJ E) d"
  shows "load_document E (tx_query E (Suc m)) cx1 collection ex x t = (Inr d, t)"
proof (cases "iPrimary (eIndex ex)")
  case True
  with d(3,4) show ?thesis by (simp add: load_document_def NewDocumentFromBytes_def doc_valid_def)
next
  case False
  have ns: "namespace (enJ E) cx1 = namespace (enJ E) cx" "plain_reads E cx1 c"
    using getSchema_ctx [OF sch(1)] plain_reads_ctx [OF plain] by auto
  have "tx_get E (Suc m) cx1 collection (key_docID (fst x)) t = (Inr d, t)"
    using tx_get_docs [OF kv getSchema_again [OF sch] sch(2) ns(2) d(1) ok [folded ns(1)]] d(2) ns(1) by simp
  with False show ?thesis by (simp add: load_document_def tx_get_def)
qed

text \<open>The run of a query, when every item of the scan loads a document that the clauses decide.\<close>

lemma query_scan_run:
  assumes kv: "enKV E = \<lparr>opGet = kget, opSet = kset, opDel = kdel, opIter = kiter\<rparr>"
    and sch: "getSchema E cx collection = Some (c, cx1)" "scCollection c = collection"
    and plain: "plain_reads E cx c" "plain_query E q" and ns: "namespace (enJ E) cx = ns"
    and opt: "Optimize c (qWhere q) = Inr ex"
    and load: "\<And>kv. kv \<in> set (kv_scan (scan_opts (enJ E) ns (scCollection c) ex) (items (tKV t))) \<Longrightarrow>
      load_document E (tx_query E (Suc m)) cx1 collection ex kv t = (Inr (ld kv), t) \<and>
      doc_where (enJ E) (ld kv) (qWhere q) = Inr (P (ld kv))"
  shows "\<exists>match. tx_query E (Suc (Suc m)) cx collection q t = (rbind (orderByDocs (enJ E) (qOrderBy q)
      (filter P (map ld (kv_scan (scan_opts (enJ E) ns (scCollection c) ex) (items (tKV t))))))
      (\<lambda>rs. Inr (page_of E q match rs)), t)"
proof -
  let ?kvs = "kv_scan (scan_opts (enJ E) ns (scCollection c) ex) (items (tKV t))" and ?q = "with_select q"
  let ?step = "scan_item E (tx_query E (Suc m)) cx1 c collection ex (qWhere q) [] (collect ?q)"
  have R: "flatten_laws (enJ E)" "enOpt E = Optimize" "computed_reads c = []" "cxInternal cx \<or> scAuthz c = []"
    using plain(1) by (simp_all add: plain_reads_def)
  note q = plain_queryD [OF plain(2)]
  have ctx: "namespace (enJ E) cx1 = ns" "cxInternal cx1 \<or> scAuthz c = []" using getSchema_ctx [OF sch(1)] ns R(4) by auto
  have step: "?step kv a t = emit (enJ E) (qWhere q) (collect ?q) [ld kv] a t" if "kv \<in> set ?kvs" for kv a
    using load [OF that] by (simp add: scan_item_def compute_fields_def R(3) ebind_def)
  have "\<exists>completed full. scan_items ?step ?kvs (True, []) t = (Inr (completed, full, gathered ?q ([] @ filter P (map ld ?kvs))), t) \<and>
      (full \<or> qPage ?q = 0)"
    by (rule scan_collect [where J = "enJ E" and ws = "qWhere q"]) (use step load in auto)
  then obtain completed full where items: "scan_items ?step ?kvs (True, []) t
      = (Inr (completed, full, gathered ?q (filter P (map ld ?kvs))), t)" "full \<or> qPage ?q = 0" by auto
  have same: "qWhere ?q = qWhere q" "qJoin ?q = []" "qPage ?q = qPage q" "gathered ?q = (gathered q :: 'v list \<Rightarrow> _)" using q
    by (simp_all add: gathered_def take_limit_def fun_eq_iff)
  define match where "match = (if completed then ex else no_explain)"
  have run: "queryScan E (tx_query E (Suc m)) cx1 collection (qWhere ?q) (qJoin ?q) (collect ?q) (True, []) t
      = (Inr (match, full, gathered q (filter P (map ld ?kvs))), t)"
    using items sch(2) ctx(1)
    by (simp add: queryScan_def getSchema_again [OF sch] R(2) opt same kv_read_def kv kiter_items ebind_def match_def)
  have auth: "on_vm (authorizeQuery (enJ E) (enJS E) (enScripts E) cx1 c ?q) t = (Inr True, t)"
    using ctx(2) by (auto simp: on_vm_def authorizeQuery_def)
  have "tx_query E (Suc (Suc m)) cx collection q t = (finish_query E ?q match full (gathered q (filter P (map ld ?kvs))), t)"
    using q(2,3) run auth by (simp add: query_with_def Let_def sch(1) ebind_def)
  then show ?thesis using finish_plain [OF plain(2), of full match] items(2) same(3) by auto
qed

lemma query_pages_run:
  assumes kv: "enKV E = \<lparr>opGet = kget, opSet = kset, opDel = kdel, opIter = kiter\<rparr>"
    and sch: "getSchema E cx collection = Some (c, cx1)" "scCollection c = collection"
    and plain: "plain_reads E cx c"
    and con: "consistent E ns c (view (tKV t))" and ns: "namespace (enJ E) cx = ns"
    and opt: "Optimize c ws = Inr ex" and lead: "leading ex" and cl: "clauses_plain (enJ E) ws"
    and tidy: "tidy ns c (view (tKV t))" and fd: "flat_docs E ns c (view (tKV t))"
    and total: "\<forall>docID d. docs E ns c (view (tKV t)) docID = Some d \<longrightarrow> (\<exists>b. doc_where (enJ E) d ws = Inr b)"
  shows "\<exists>ids. distinct ids \<and>
    set ids = {docID. \<exists>d. docs E ns c (view (tKV t)) docID = Some d \<and> doc_where (enJ E) d ws = Inr True} \<and>
    (\<forall>q. qWhere q = ws \<longrightarrow> plain_query E q \<longrightarrow> (\<exists>match. tx_query E (Suc (Suc m)) cx collection q t =
       (rbind (orderByDocs (enJ E) (qOrderBy q) (map (\<lambda>docID. the (docs E ns c (view (tKV t)) docID)) ids))
         (\<lambda>rs. Inr (page_of E q match rs)), t)))"
proof -
  let ?D = "docs E ns c (view (tKV t))" and ?kvs = "kv_scan (scan_opts (enJ E) ns (scCollection c) ex) (items (tKV t))"
  let ?id = "\<lambda>kv. key_docID (fst kv)"
  define ld where "ld = (\<lambda>kv :: string \<times> 'v. the (?D (?id kv)))"
  define P where "P = (\<lambda>d. doc_where (enJ E) d ws = Inr True)"
  have R: "flatten_laws (enJ E)" "schema_wf c" using plain by (simp_all add: plain_reads_def)
  note scan = scanned_documents [OF con R(2,1) opt lead cl tidy fd refl]
  have ok: "docs_ok E (namespace (enJ E) cx) c (view (tKV t))" using con ns by (simp add: consistent_def)
  have load: "load_document E (tx_query E (Suc m)) cx1 collection ex kv t = (Inr (ld kv), t) \<and>
      doc_where (enJ E) (ld kv) ws = Inr (P (ld kv))" if item: "kv \<in> set ?kvs" for kv
  proof -
    obtain d where d: "good_id (?id kv)" "?D (?id kv) = Some d" "iPrimary (eIndex ex) \<longrightarrow> snd kv = d" "doc_valid (enJ E) d"
      using bspec [OF scan(2) item] by blast
    from load_stored [OF kv sch plain ok d(1) _ d(3,4)] d(2) ns spec [OF spec [OF total], of "?id kv" d]
    show ?thesis by (auto simp: ld_def P_def)
  qed
  define ids where "ids = map ?id (filter (\<lambda>kv. P (ld kv)) ?kvs)"
  have docs_ids: "filter P (map ld ?kvs) = map (\<lambda>docID. the (?D docID)) ids"
    by (simp add: ids_def filter_map comp_def ld_def)
  have "set ids = {docID. \<exists>d. ?D docID = Some d \<and> doc_where (enJ E) d ws = Inr True}"
  proof (intro equalityI subsetI)
    fix docID assume "docID \<in> set ids"
    then obtain kv where kv: "kv \<in> set ?kvs" "P (ld kv)" "docID = ?id kv" by (auto simp: ids_def)
    from bspec [OF scan(2) kv(1)] kv(2,3)
    show "docID \<in> {docID. \<exists>d. ?D docID = Some d \<and> doc_where (enJ E) d ws = Inr True}"
      by (auto simp: ld_def P_def)
  next
    fix docID assume "docID \<in> {docID. \<exists>d. ?D docID = Some d \<and> doc_where (enJ E) d ws = Inr True}"
    then obtain d where "?D docID = Some d" "doc_where (enJ E) d ws = Inr True" by blast
    with scan(3) show "docID \<in> set ids" by (force simp: ids_def ld_def P_def)
  qed
  moreover have "distinct ids" unfolding ids_def by (rule distinct_map_filter [OF scan(1)])
  moreover have "\<exists>match. tx_query E (Suc (Suc m)) cx collection q t =
       (rbind (orderByDocs (enJ E) (qOrderBy q) (map (\<lambda>docID. the (?D docID)) ids)) (\<lambda>rs. Inr (page_of E q match rs)), t)"
    if "qWhere q = ws" "plain_query E q" for q
    using query_scan_run [OF kv sch plain that(2) ns, of ex t m ld P] opt load that(1) by (simp add: docs_ids)
  ultimately show ?thesis by blast
qed

text \<open>The first page of a query without an order.\<close>

lemma query_run:
  assumes kv: "enKV E = \<lparr>opGet = kget, opSet = kset, opDel = kdel, opIter = kiter\<rparr>"
    and sch: "getSchema E cx collection = Some (c, cx1)" "scCollection c = collection"
    and plain: "plain_reads E cx c" "plain_query E q" "qOrderBy q = []" "qPage q = 0"
    and con: "consistent E ns c (view (tKV t))" and ns: "namespace (enJ E) cx = ns"
    and opt: "Optimize c (qWhere q) = Inr ex" and lead: "leading ex" and cl: "clauses_plain (enJ E) (qWhere q)"
    and tidy: "tidy ns c (view (tKV t))" and fd: "flat_docs E ns c (view (tKV t))"
    and total: "\<forall>docID d. docs E ns c (view (tKV t)) docID = Some d \<longrightarrow> (\<exists>b. doc_where (enJ E) d (qWhere q) = Inr b)"
  shows "\<exists>p ids. tx_query E (Suc (Suc m)) cx collection q t = (Inr p, t) \<and> distinct ids \<and>
    set ids = {docID. \<exists>d. docs E ns c (view (tKV t)) docID = Some d \<and> doc_where (enJ E) d (qWhere q) = Inr True} \<and>
    pgDocuments p = take_limit q (map (\<lambda>docID. the (docs E ns c (view (tKV t)) docID)) ids)"
proof -
  from query_pages_run [OF kv sch plain(1) con ns opt lead cl tidy fd total, of m] obtain ids where ids: "distinct ids"
      "set ids = {docID. \<exists>d. docs E ns c (view (tKV t)) docID = Some d \<and> doc_where (enJ E) d (qWhere q) = Inr True}"
    and run: "\<exists>match. tx_query E (Suc (Suc m)) cx collection q t = (rbind (orderByDocs (enJ E) (qOrderBy q)
        (map (\<lambda>docID. the (docs E ns c (view (tKV t)) docID)) ids)) (\<lambda>rs. Inr (page_of E q match rs)), t)"
    using plain(2) by blast
  from run obtain match where "tx_query E (Suc (Suc m)) cx collection q t =
      (Inr (page_of E q match (map (\<lambda>docID. the (docs E ns c (view (tKV t)) docID)) ids)), t)"
    by (auto simp: orderByDocs_def plain(3) simp del: tx_query.simps)
  moreover have "paginate (enSlice E) True q xs = take_limit q xs" for xs :: "'v list"
    using plain(4) by (simp add: paginate_def take_limit_def)
  ultimately show ?thesis using ids by (intro exI [of _ "page_of E q match _"] exI [of _ ids]) (simp add: page_of_def)
qed

end

subsection \<open>Query\<close>

text \<open>
  The where clauses that a query of the collection can answer: the optimizer finds an index whose
  matched fields lead it, the clauses compare with plain values, every stored document is flat
  enough for its index entries to be looked up, and the clauses decide every stored document.
\<close>

definition answerable :: "('r memtx, 'r) env \<Rightarrow> 'r ctx \<Rightarrow> 'r schema \<Rightarrow> ('r memtx, 'r) txn \<Rightarrow> where_c list \<Rightarrow> bool" where
  "answerable E cx c t ws \<longleftrightarrow> (\<exists>ex. Optimize c ws = Inr ex \<and> leading ex) \<and> clauses_plain (enJ E) ws \<and>
     tidy (namespace (enJ E) cx) c (mem.view (tKV t)) \<and> flat_docs E (namespace (enJ E) cx) c (mem.view (tKV t)) \<and>
     (\<forall>docID d. stored E cx c t docID = Some d \<longrightarrow> (\<exists>b. doc_where (enJ E) d ws = Inr b))"

definition matching :: "('r memtx, 'r) env \<Rightarrow> 'r ctx \<Rightarrow> 'r schema \<Rightarrow> ('r memtx, 'r) txn \<Rightarrow> where_c list \<Rightarrow> string set" where
  "matching E cx c t ws = {docID. \<exists>d. stored E cx c t docID = Some d \<and> doc_where (enJ E) d ws = Inr True}"

text \<open>What the answer of a query is, before it is cut into pages.\<close>

definition ranked ::
  "('r memtx, 'r) env \<Rightarrow> 'r ctx \<Rightarrow> 'r schema \<Rightarrow> ('r memtx, 'r) txn \<Rightarrow> where_c list \<Rightarrow> order_by list \<Rightarrow> 'r list \<Rightarrow> bool" where
  "ranked E cx c t ws obs rs \<longleftrightarrow>
     mset rs = image_mset (\<lambda>docID. the (stored E cx c t docID)) (mset_set (matching E cx c t ws)) \<and>
     (obs \<noteq> [] \<longrightarrow> sorted_wrt (\<lambda>d e. \<not> sorts_before (enJ E) obs e d) rs)"

lemma mem_query_ranked:
  assumes kv: "enKV E = \<lparr>opGet = mem_get, opSet = mem_set, opDel = mem_delete, opIter = mem_iter\<rparr>"
    and sch: "getSchema E cx collection = Some (c, cx1)" "scCollection c = collection"
    and plain: "plain_reads E cx c" and con: "in_order E cx c t" and ans: "answerable E cx c t ws"
    and sort: "cast_laws (enJ E)" "sortable (enJ E) obs ((\<lambda>docID. the (stored E cx c t docID)) ` matching E cx c t ws)"
  shows "\<exists>rs. ranked E cx c t ws obs rs \<and> finite (matching E cx c t ws) \<and>
    (\<forall>q. qWhere q = ws \<longrightarrow> qOrderBy q = obs \<longrightarrow> plain_query E q \<longrightarrow>
      (\<exists>match. tx_query E (Suc (Suc m)) cx collection q t = (Inr (page_of E q match rs), t)))"
proof -
  from ans obtain ex where ex: "Optimize c ws = Inr ex" "leading ex"
    and A: "clauses_plain (enJ E) ws" "tidy (namespace (enJ E) cx) c (mem.view (tKV t))"
      "flat_docs E (namespace (enJ E) cx) c (mem.view (tKV t))"
      "\<forall>docID d. stored E cx c t docID = Some d \<longrightarrow> (\<exists>b. doc_where (enJ E) d ws = Inr b)"
    by (auto simp: answerable_def)
  from mem.query_pages_run [OF kv sch plain con [unfolded in_order_def] refl ex A(1-3) A(4) [unfolded stored_def], of m]
  obtain ids where ids: "distinct ids" "set ids = matching E cx c t ws"
    and run: "\<And>q. qWhere q = ws \<Longrightarrow> plain_query E q \<Longrightarrow> \<exists>match. tx_query E (Suc (Suc m)) cx collection q t =
       (rbind (orderByDocs (enJ E) (qOrderBy q) (map (\<lambda>docID. the (stored E cx c t docID)) ids))
         (\<lambda>rs. Inr (page_of E q match rs)), t)"
    unfolding matching_def stored_def by blast
  let ?all = "map (\<lambda>docID. the (stored E cx c t docID)) ids"
  from orderByDocs_sorted [OF sort(1), of obs ?all] sort(2) ids(2)
  obtain rs where rs: "orderByDocs (enJ E) obs ?all = Inr rs" "mset rs = mset ?all"
    "obs \<noteq> [] \<longrightarrow> sorted_wrt (\<lambda>d e. \<not> sorts_before (enJ E) obs e d) rs" by auto
  have "mset_set (matching E cx c t ws) = mset ids" using ids mset_set_set by metis
  then have "ranked E cx c t ws obs rs" using rs(2,3) by (simp add: ranked_def)
  moreover have "\<exists>match. tx_query E (Suc (Suc m)) cx collection q t = (Inr (page_of E q match rs), t)"
    if "qWhere q = ws" "qOrderBy q = obs" "plain_query E q" for q
    using run [OF that(1,3)] rs(1) that(2) by (simp del: tx_query.simps)
  moreover have "finite (matching E cx c t ws)" using ids(2) List.finite_set by metis
  ultimately show ?thesis by blast
qed

lemma query_ranked:
  assumes "user_collection E cx collection c" "in_order E cx c t" "answerable E cx c t ws"
    "cast_laws (enJ E)" "sortable (enJ E) obs ((\<lambda>docID. the (stored E cx c t docID)) ` matching E cx c t ws)"
  shows "\<exists>rs. ranked E cx c t ws obs rs \<and> finite (matching E cx c t ws) \<and>
    (\<forall>q. qWhere q = ws \<longrightarrow> qOrderBy q = obs \<longrightarrow> plain_query E q \<longrightarrow>
      (\<exists>match. tx_query E (Suc (Suc m)) cx collection q t = (Inr (page_of E q match rs), t)))"
proof -
  obtain cx1 where g: "getSchema E cx collection = Some (c, cx1)" "scCollection c = collection"
    and kv: "enKV E = \<lparr>opGet = mem_get, opSet = mem_set, opDel = mem_delete, opIter = mem_iter\<rparr>"
    by (rule user_collectionE [OF assms(1)])
  have "plain_reads E cx c" using assms(1) by (simp add: user_collection_def plain_writes_def)
  from mem_query_ranked [OF kv g this assms(2-5)] show ?thesis .
qed



definition named_ann :: query where
  "named_ann = empty_query\<lparr>qWhere := [\<lparr>wField = ''name'', wOp = WEq, wValue = AStr ''ann''\<rparr>], qLimit := 5\<rparr>"

definition by_name_explain :: explain where
  "by_name_explain = \<lparr>eCollection = ''user'', eIndex = by_name, eMatchedFields = [''name''],
     eMatchedValues = [(''name'', AStr ''ann'')], eSeekFields = [], eSeekValues = [], eReverse = False\<rparr>"

lemma named_ann_plan:
  "plain_query user_env named_ann" "Optimize user_schema (qWhere named_ann) = Inr by_name_explain" "leading by_name_explain"
  "clauses_plain (enJ user_env) (qWhere named_ann)"
proof -
  show "plain_query user_env named_ann"
    by (simp add: plain_query_def named_ann_def empty_query_def user_env_def flat_env_def)
  show "Optimize user_schema (qWhere named_ann) = Inr by_name_explain" by code_simp
  show "leading by_name_explain" by (auto simp: leading_def by_name_explain_def by_name_def intro: exI [of _ 1])
  show "clauses_plain (enJ user_env) (qWhere named_ann)"
    by (simp add: clauses_plain_def named_ann_def user_env_def flat_env_def flat_json_def HasPrefix_def selfRefPrefix_def)
qed

lemma user_tx_docs: "stored user_env user_ctx user_schema user_tx docID = (if docID = ''a'' then Some ann else None)"
proof -
  have "tx_Set user_env (Suc (Suc 1)) user_ctx ''user'' ann fresh_tx = (Inr ann, user_tx)"
    using set_ann by (simp add: numeral_3_eq_3 prod_eq_iff user_tx_def)
  from set_put [OF plain_schema_writes(1) fresh_in_order(1) _ witness_ids(1) this witness_ids(4)] witness_ids(2) fresh_in_order(2)
  show ?thesis by (simp add: user_env_def flat_env_def)
qed

lemma user_tx_keys: "list_all (\<lambda>kv. list_all (\<lambda>i. prefix (indexPrefix ''default'' ''user'' (iName i)) (fst kv) \<longrightarrow>
    prefix (indexPrefix ''default'' ''user'' (iName i) @ [nul]) (fst kv)) (Indexing_map user_schema))
  (mt_data (tKV (snd (tx_Set user_env 3 user_ctx ''user'' ann fresh_tx))))"
  by code_simp

lemma user_tx_tidy: "tidy ''default'' user_schema (mem.view (tKV user_tx))"
proof -
  have "mem.view (tKV user_tx) = map_of (mt_data (tKV user_tx))" by (simp add: mem.view_def map_of_sort_clearjunk)
  with user_tx_keys show ?thesis
    unfolding tidy_def region_def
    by (auto simp: list_all_iff user_tx_def numeral_3_eq_3 user_schema_def plain_schema_def dest!: map_of_SomeD)
qed

lemma user_namespace: "namespace (enJ user_env) user_ctx = ''default''"
  by code_simp

lemma user_tx_flat: "flat_docs user_env ''default'' user_schema (mem.view (tKV user_tx))"
proof -
  have "\<forall>i\<in>secondary user_schema. entry_of (enJ user_env) i (doc_value (enJ user_env) ann) ann"
    by (auto simp: secondary_def Indexing_map_def user_schema_def plain_schema_def pk_index_def by_name_def entry_of_def
        user_env_def flat_env_def flat_json_def flat_fields_def doc_value_def ann_def)
  with user_tx_docs show ?thesis
    by (auto simp: flat_docs_def stored_def user_namespace split: if_splits)
qed

lemma named_ann_answerable: "answerable user_env user_ctx user_schema user_tx (qWhere named_ann)"
  and named_ann_matching: "matching user_env user_ctx user_schema user_tx (qWhere named_ann) = {''a''}"
proof -
  have w: "doc_where (enJ user_env) ann (qWhere named_ann) = Inr True" by code_simp
  then show "answerable user_env user_ctx user_schema user_tx (qWhere named_ann)"
    unfolding answerable_def user_namespace using named_ann_plan user_tx_tidy user_tx_flat by (auto simp: user_tx_docs)
  show "matching user_env user_ctx user_schema user_tx (qWhere named_ann) = {''a''}"
    using w by (auto simp: matching_def user_tx_docs split: if_splits)
qed

lemma user_env_cast: "cast_laws (enJ user_env)"
  using flat_json_cast by (simp add: user_env_def flat_env_def)

lemma one_ranked: "ranked user_env user_ctx user_schema user_tx (qWhere named_ann) obs rs \<Longrightarrow> rs = [ann]"
  by (simp add: ranked_def named_ann_matching user_tx_docs)

lemma one_sortable: "sortable (enJ user_env) [\<lparr>obDirection = Desc, obField = ''name''\<rparr>]
    ((\<lambda>docID. the (stored user_env user_ctx user_schema user_tx docID)) ` matching user_env user_ctx user_schema user_tx (qWhere named_ann))"
proof -
  have J: "gjGet (enJ user_env) = map_of" by (simp add: user_env_def flat_env_def flat_json_def)
  show ?thesis by (simp add: sortable_def named_ann_matching user_tx_docs doc_get_def J ann_def)
qed

definition ordered_ann :: query where
  "ordered_ann = named_ann\<lparr>qOrderBy := [\<lparr>obDirection = Desc, obField = ''name''\<rparr>]\<rparr>"



subsection \<open>The size of a page\<close>

lemma paginate_limit: "qLimit q > 0 \<Longrightarrow> int (length (paginate lo_Slice full q xs)) \<le> qLimit q"
  by (auto simp: paginate_def Let_def)

lemma select_length:
  "rfold (\<lambda>d ds. rbind (f d) (\<lambda>d'. Inr (ds @ [d']))) xs ys = Inr zs \<Longrightarrow> length zs = length ys + length xs"
  by (induction xs arbitrary: ys) (auto simp: rbind_eq_Inr)

text \<open>
  C32: however a page came about, with joins, groups, an order or a library that cuts pages in any
  way it likes, it holds at most as many documents as the limit of the query, and its count is
  the number of its documents.
\<close>

theorem query_limit:
  assumes "tx_query E n cx collection q t = (Inr p, t')" and "qLimit q > 0"
  shows "int (length (pgDocuments p)) \<le> qLimit q \<and> pgCount p = length (pgDocuments p)"
proof (cases n)
  case 0
  with assms(1) show ?thesis by simp
next
  case (Suc m)
  have lim: "qLimit (with_select q) = qLimit q" by (simp add: with_select_def)
  have agg: "int (length (pgDocuments p)) \<le> qLimit q \<and> pgCount p = length (pgDocuments p)"
    if "aggregate E (tx_query E m) cx1 collection (with_select q) u = (Inr p, u')" for cx1 u u'
    using that paginate_limit [of "with_select q"] assms(2)
    by (auto simp: aggregate_def Let_def ebind_Inr_iff rbind_eq_Inr unsupported_collection_def lim split: option.splits)
  have fin: "int (length (pgDocuments p)) \<le> qLimit q \<and> pgCount p = length (pgDocuments p)"
    if "finish_query E (with_select q) match full results = Inr p" for match full results
    using that paginate_limit [of "with_select q"] assms(2)
    by (auto simp: finish_query_def Let_def rbind_eq_Inr lim dest!: select_length split: if_splits)
  from assms(1) Suc show ?thesis
    by (auto simp: query_with_def Let_def ebind_Inr_iff unsupported_collection_def split: option.splits if_splits
        dest: agg fin)
qed

lemma named_ann_found: "fst (tx_query user_env 2 user_ctx ''user'' named_ann (snd (tx_Set user_env 3 user_ctx ''user'' ann fresh_tx)))
    = Inr \<lparr>pgDocuments = [ann], pgNextPage = 1, pgCount = 1, pgExplain = by_name_explain\<rparr>"
  by code_simp

theorem query_limit_witness:
  "\<exists>p. fst (tx_query user_env (Suc (Suc 0)) user_ctx ''user'' named_ann user_tx) = Inr p \<and> length (pgDocuments p) \<le> 5"
proof -
  obtain p where run: "fst (tx_query user_env (Suc (Suc 0)) user_ctx ''user'' named_ann user_tx) = Inr p"
    using named_ann_found by (simp add: user_tx_def numeral_2_eq_2 numeral_3_eq_3 del: tx_query.simps)
  then have p: "tx_query user_env (Suc (Suc 0)) user_ctx ''user'' named_ann user_tx
      = (Inr p, snd (tx_query user_env (Suc (Suc 0)) user_ctx ''user'' named_ann user_tx))" by (simp add: prod_eq_iff)
  from query_limit [OF p] have "length (pgDocuments p) \<le> 5" by (simp add: named_ann_def)
  with run show ?thesis by blast
qed

end
