(* ===== verification/Constraints.thy ===== *)
theory Constraints
  imports QueryLaws
begin

text \<open>
  What the checks of \<open>updateSecondaryIndex\<close> achieve for the collection as a whole: after a
  successful write no two documents agree on the fields of a unique index, and every foreign
  key of the written document refers to a document that is stored. Each check looks at the
  store in the middle of the loop over the indexes; the lemmas show that the rest of the write
  does not change what it has looked at.
\<close>

subsection \<open>One step of the loop over the indexes\<close>

lemma efold_split:
  assumes "efold f (xs @ x # ys) () t = (Inr (), t')"
  obtains u u' where "efold f xs () t = (Inr (), u)" "f x () u = (Inr (), u')" "efold f ys () u' = (Inr (), t')"
  using assms
proof (induction xs arbitrary: t thesis)
  case Nil
  from Nil.prems(2) obtain u' where "f x () t = (Inr (), u')" "efold f ys () u' = (Inr (), t')"
    by (auto simp: ebind_Inr_iff)
  then show ?case using Nil.prems(1) [of t u'] by simp
next
  case (Cons a xs)
  from Cons.prems(2) obtain s where s: "f a () t = (Inr (), s)" "efold f (xs @ x # ys) () s = (Inr (), t')"
    by (auto simp: ebind_Inr_iff)
  from Cons.IH [OF _ s(2)] obtain u u' where "efold f xs () s = (Inr (), u)" "f x () u = (Inr (), u')" "efold f ys () u' = (Inr (), t')"
    by blast
  with s(1) show ?case by (intro Cons.prems(1)) (auto simp: ebind_Inr_iff)
qed

definition index_step ::
  "('s, 'r) env \<Rightarrow> nat \<Rightarrow> 'r ctx \<Rightarrow> string \<Rightarrow> string \<Rightarrow> 'r option \<Rightarrow> action \<Rightarrow> 'r \<Rightarrow> index_c \<Rightarrow> unit \<Rightarrow> ('s, 'r, unit) tx" where
  "index_step E n cx collection docID old act d = (\<lambda>i _. wrap_eff 0 ''failed to update secondary index''
     (updateSecondaryIndex E n cx collection i docID old act d))"

text \<open>The stages of a step that puts an entry: drop the old entry, check, put the new one.\<close>

lemma put_stagesE:
  assumes "updateSecondaryIndex E n cx collection i docID old act d t = (Inr u, t')"
    and "\<not> iPrimary i" "act \<in> {SetAction, UpdateAction, CreateAction}"
  obtains t1 t2 t3 t4 where
    "(case old of Some b \<Rightarrow> drop_entry E cx collection i docID b | None \<Rightarrow> ret ()) t = (Inr (), t1)"
    "check_foreign E n cx i d t1 = (Inr (), t2)" "check_unique E cx collection i docID d t2 = (Inr (), t3)"
    "kv_write (opSet (enKV E) (index_key_path E cx collection i d docID) (BytesOf (enJ E) docID)) t3 = (Inr (), t4)"
    "remember_doc (doc_ref collection docID) t4 = (Inr u, t')"
    "tKV t2 = tKV t1" "tKV t3 = tKV t1"
proof -
  from assms obtain t1 t2 t3 t4 where st:
    "(case old of Some b \<Rightarrow> drop_entry E cx collection i docID b | None \<Rightarrow> ret ()) t = (Inr (), t1)"
    "check_foreign E n cx i d t1 = (Inr (), t2)" "check_unique E cx collection i docID d t2 = (Inr (), t3)"
    "kv_write (opSet (enKV E) (index_key_path E cx collection i d docID) (BytesOf (enJ E) docID)) t3 = (Inr (), t4)"
    "remember_doc (doc_ref collection docID) t4 = (Inr u, t')"
    by (auto simp: updateSecondaryIndex_def ebind_Inr_iff)
  moreover have "tKV t2 = tKV t1" "tKV t3 = tKV t2"
    using same_kv.keeps_run [OF same_kv.keeps_check_foreign st(2)] same_kv.keeps_run [OF same_kv.keeps_check_unique st(3)]
    by (simp_all add: kvrel_def)
  ultimately show thesis using that by simp
qed

text \<open>What a computation adds to the references that the transaction knows.\<close>

definition knows :: "string set \<Rightarrow> ('s, 'r) txn \<Rightarrow> ('s, 'r) txn \<Rightarrow> bool" where
  "knows D t u \<longleftrightarrow> set (tDocs u) \<subseteq> set (tDocs t) \<union> D"

interpretation knows: read_rel "knows D" for D
  by unfold_locales (auto simp: knows_def)

lemma knows_docs: "ref \<in> D \<Longrightarrow> keeps (knows D) (remember_doc ref)" "keeps (knows D) (forget_doc ref)"
  by (auto simp: keeps_def knows_def remember_doc_def forget_doc_def)

lemma knows_write: "keeps (knows D) (kv_write f)"
  by (auto simp: keeps_def knows_def kv_write_def split: sum.splits)

context kv_tx begin

text \<open>A step writes keys of its own index only.\<close>

lemma keeps_index_step:
  assumes kv: "enKV E = \<lparr>opGet = kget, opSet = kset, opDel = kdel, opIter = kiter\<rparr>"
    and A: "\<not> iPrimary i \<Longrightarrow> region (namespace (enJ E) cx) collection (iName i) \<subseteq> A"
  shows "keeps (kvrel (frame view A)) (index_step E n cx collection docID old act d i a)"
proof (cases "iPrimary i")
  case True
  then show ?thesis unfolding index_step_def updateSecondaryIndex_def by (auto intro!: framed.keeps_rules)
next
  case False
  have "index_key_path E cx collection i x docID \<in> A" for x
    using A [OF False] entry_in_region unfolding index_key_path_def by blast
  then show ?thesis
    unfolding index_step_def updateSecondaryIndex_def drop_entry_def
    by (auto simp: kv split: option.splits intro!: framed.keeps_rules framed.keeps_check_foreign framed.keeps_check_unique
        keeps_kset keeps_kdel)
qed

lemma steps_frame:
  assumes "enKV E = \<lparr>opGet = kget, opSet = kset, opDel = kdel, opIter = kiter\<rparr>"
    and "\<forall>i\<in>set is. \<not> iPrimary i \<longrightarrow> region (namespace (enJ E) cx) collection (iName i) \<subseteq> A"
    and "efold (index_step E n cx collection docID old act d) is () t = (Inr (), t')" and "k \<notin> A"
  shows "view (tKV t') k = view (tKV t) k"
proof -
  have "keeps (kvrel (frame view A)) (efold (index_step E n cx collection docID old act d) is ())"
    using assms(1,2) by (intro framed.keeps_fold keeps_index_step) auto
  from framed.keeps_run [OF this assms(3)] assms(4) show ?thesis by (simp add: kvrel_def frame_def)
qed

subsection \<open>Unique indexes\<close>

text \<open>After the loop, every entry below the path of the document's values is its own.\<close>

lemma unique_entries:
  assumes kv: "enKV E = \<lparr>opGet = kget, opSet = kset, opDel = kdel, opIter = kiter\<rparr>"
    and wf: "schema_wf c" and act: "act \<in> {SetAction, UpdateAction, CreateAction}"
    and loop: "efold (index_step E n cx collection docID old act d) (Indexing_map c) () t = (Inr (), t')"
    and i: "i \<in> secondary c" "iUnique i" and id: "nul \<notin> set docID"
    and k: "k \<in> region (namespace (enJ E) cx) collection (iName i)" "view (tKV t') k \<noteq> None"
      "prefix (scan_key (enJ E) (namespace (enJ E) cx) collection i (doc_value (enJ E) d)) k"
  shows "key_docID k = docID"
proof -
  let ?reg = "region (namespace (enJ E) cx) collection" and ?P = "scan_key (enJ E) (namespace (enJ E) cx) collection i (doc_value (enJ E) d)"
  let ?own = "index_key_path E cx collection i d docID"
  have mem: "i \<in> set (Indexing_map c)" "\<not> iPrimary i" using i(1) by (auto simp: secondary_def)
  obtain xs ys where split: "Indexing_map c = xs @ i # ys" using mem(1) by (meson split_list)
  from loop obtain u u' where step: "updateSecondaryIndex E n cx collection i docID old act d u = (Inr (), u')"
    and rest: "efold (index_step E n cx collection docID old act d) ys () u' = (Inr (), t')"
    unfolding split by (elim efold_split) (auto simp: index_step_def)
  have "?reg (iName j) \<subseteq> - ?reg (iName i)" if "j \<in> set ys" for j
    using region_disjoint [of _ _ _ "iName j" "iName i"] index_names_distinct [OF wf] that
    by (auto simp: split) (metis image_eqI)
  then have "view (tKV t') k = view (tKV u') k" using steps_frame [OF kv _ rest, of "- ?reg (iName i)"] k(1) by auto
  moreover obtain t1 t2 t3 t4
    where "(case old of Some b \<Rightarrow> drop_entry E cx collection i docID b | None \<Rightarrow> ret ()) u = (Inr (), t1)" "check_unique E cx collection i docID d t2 = (Inr (), t3)"
    and set_entry: "kv_write (opSet (enKV E) ?own (BytesOf (enJ E) docID)) t3 = (Inr (), t4)"
    and last: "remember_doc (doc_ref collection docID) t4 = (Inr (), u')" and same: "tKV t2 = tKV t1" "tKV t3 = tKV t1"
    by (rule put_stagesE [OF step mem(2) act])
  then have unique: "\<not> list_ex (\<lambda>kv. key_docID (fst kv) \<noteq> docID) (filter (\<lambda>kv. prefix ?P (fst kv)) (items (tKV t1)))"
    using kv_scan_prefix [OF items_sorted, of ?P "tKV t1"] i(2) mem(2)
    by (auto simp: check_unique_def ebind_Inr_iff kv_read_def kv kiter_items kv_scan_def iter_from_def iter_start_def iter_valid_def
        split: if_splits)
  have "view (tKV u') = (view (tKV t1))(?own \<mapsto> BytesOf (enJ E) docID)"
    using kv_write_set [of _ _ t3 "()" t4] set_entry last same by (auto simp: kv remember_doc_def)
  ultimately consider "k = ?own" | v where "view (tKV t1) k = Some v" using k(2) by (auto split: if_splits)
  then show ?thesis
  proof cases
    case 1
    then show ?thesis using idx_key_docID [OF id] by (simp add: index_key_path_def entry_key_docID [OF id])
  next
    case 2
    then show ?thesis using unique k(3) by (fastforce simp: list_ex_iff in_items_iff)
  qed
qed

text \<open>Putting the document writes one key and remembers one reference.\<close>

lemma put_action:
  assumes kv: "enKV E = \<lparr>opGet = kget, opSet = kset, opDel = kdel, opIter = kiter\<rparr>"
    and app: "apply_action E n per cx c collection act docID old document ta = (Inr d, tb)"
    and act: "act = SetAction \<or> act = CreateAction" and id: "GetPrimaryKey (enJ E) c document = docID"
  shows "view (tKV tb) = (view (tKV ta))(primary_key_path E cx c docID \<mapsto> d) \<and>
    set (tDocs tb) \<subseteq> insert (doc_ref collection docID) (set (tDocs ta))"
proof -
  have "keeps (knows {}) (setDocument E cx c docID old document)" "keeps (knows {}) (createDocument E cx c document)"
    unfolding setDocument_def createDocument_def Let_def
    by (auto intro!: knows.read_rules knows.keeps_compute_write knows_write)
  note docs = this [THEN knows.keeps_run]
  obtain t1 where t1: "(if act = SetAction then setDocument E cx c docID old document ta else createDocument E cx c document ta) = (Inr d, t1)"
    "remember_doc (doc_ref collection docID) t1 = (Inr (), tb)"
    using app act by (auto simp: apply_action_def Let_def ebind_Inr_iff)
  then have "view (tKV t1) = (view (tKV ta))(primary_key_path E cx c docID \<mapsto> d)" "set (tDocs t1) \<subseteq> set (tDocs ta)"
    using setDocument_store(1) [OF kv] createDocument_store [OF kv] docs id by (auto simp: knows_def split: if_splits)
  with t1(2) show ?thesis by (auto simp: remember_doc_def)
qed

end

text \<open>Two documents agree on an index when they have the same values in its fields.\<close>

definition agree :: "('s, 'r) env \<Rightarrow> index_c \<Rightarrow> 'r \<Rightarrow> 'r \<Rightarrow> bool" where
  "agree E i d d' \<longleftrightarrow> (\<forall>f\<in>set (iFields i).
     map_of (flat_fields (enJ E) (doc_value (enJ E) d)) f = map_of (flat_fields (enJ E) (doc_value (enJ E) d')) f)"

lemma agree_sym: "agree E i d d' \<Longrightarrow> agree E i d' d"
  by (simp add: agree_def)

lemma field_segments_agree: "\<forall>f\<in>set fs. map_of m f = map_of m' f \<Longrightarrow> field_segments L m fs = field_segments L m' fs"
  by (simp add: field_segments_def cong: map_cong)

lemma agree_prefix:
  assumes "agree E i d d'"
  shows "prefix (scan_key (enJ E) ns (scCollection c) i (doc_value (enJ E) d)) (idx_key E ns c i d' docID)"
proof -
  have "scan_key (enJ E) ns (scCollection c) i (doc_value (enJ E) d) = scan_key (enJ E) ns (scCollection c) i (doc_value (enJ E) d')"
    using field_segments_agree [OF assms [unfolded agree_def]] unfolding scan_key_eq by (rule arg_cong)
  then show ?thesis by (simp add: idx_key_def entry_key_scan_key)
qed

definition unique_ok :: "('r memtx, 'r) env \<Rightarrow> 'r ctx \<Rightarrow> 'r schema \<Rightarrow> ('r memtx, 'r) txn \<Rightarrow> bool" where
  "unique_ok E cx c t \<longleftrightarrow> (\<forall>i\<in>secondary c. iUnique i \<longrightarrow> (\<forall>e e' d d'. stored E cx c t e = Some d \<longrightarrow>
     stored E cx c t e' = Some d' \<longrightarrow> agree E i d d' \<longrightarrow> e = e'))"

text \<open>The loop of a command that puts a document, between the states around it.\<close>

lemma commit_loopE:
  assumes coll: "user_collection E cx collection c" "getSchema E cx collection = Some (c, cx1)"
    and ord: "in_order E cx c t" and id: "GetPrimaryKey (enJ E) c document = docID" "good_id docID"
    and act: "act = SetAction \<or> act = CreateAction"
    and run: "commit_command E (Suc (Suc n)) cx1 collection act document msg t = (Inr d, t')"
  obtains tb tc where
    "efold (index_step E (Suc n) cx1 collection docID (stored E cx c t docID) act d) (Indexing_map c) () tb = (Inr (), tc)"
    "\<forall>k\<in>coll_region (namespace (enJ E) cx) collection. mem.view (tKV t') k = mem.view (tKV tc) k"
    "\<forall>k. k \<notin> coll_region (namespace (enJ E) cx) cdcCollectionName \<longrightarrow> mem.view (tKV t') k = mem.view (tKV tc) k"
    "\<forall>k. k \<notin> coll_region (namespace (enJ E) cx) collection \<longrightarrow> mem.view (tKV tb) k = mem.view (tKV t) k"
    "set (tDocs tb) \<subseteq> insert (doc_ref collection docID) (set (tDocs t))"
proof -
  from coll obtain g: "getSchema E cx1 collection = Some (c, cx1)" "plain_writes E cx1 c"
      "namespace (enJ E) cx1 = namespace (enJ E) cx" "scCollection c = collection"
    and kv: "enKV E = \<lparr>opGet = mem_get, opSet = mem_set, opDel = mem_delete, opIter = mem_iter\<rparr>"
    and coll': "collection \<noteq> cdcCollectionName" "nul \<notin> set collection"
    by (elim user_collectionE) auto
  obtain now where p: "persistCommand E (Suc (Suc n)) cx1 \<lparr>pcCollection = collection, pcAction = act, pcDocument = document,
      pcTimestamp = now, pcMetadata = Some (ExtractMetadata (enJ E) cx1)\<rparr> (t\<lparr>tTick := Suc (tTick t)\<rparr>) = (Inr d, t')"
    by (rule commit_commandE [OF run])
  have ok: "docs_ok E (namespace (enJ E) cx1) c (mem.view (tKV (t\<lparr>tTick := Suc (tTick t)\<rparr>)))"
    using in_order_docs [OF ord] g(3) by simp
  let ?t = "t\<lparr>tTick := Suc (tTick t)\<rparr>" and ?old = "stored E cx c t docID"
  obtain ta tb tc where ta: "tKV ta = tKV t" "tDocs ta = tDocs t"
    and app: "apply_action E (Suc n) (persistCommand E (Suc n)) cx1 c collection act docID ?old document ta = (Inr d, tb)"
    and loop: "efold (index_step E (Suc n) cx1 collection docID ?old act d) (Indexing_map c) () tb = (Inr (), tc)"
    and after: "frame mem.view (coll_region (namespace (enJ E) cx1) cdcCollectionName) (tKV tc) (tKV t')"
      "\<forall>k\<in>coll_region (namespace (enJ E) cx1) (scCollection c). mem.view (tKV t') k = mem.view (tKV tc) k"
    by (rule mem.persist_stages [OF kv _ g(2) _ _ _ ok p]) (use g coll' id in \<open>auto simp: stored_def index_step_def intro!: that\<close>)
  note put = mem.put_action [OF kv app act id(1)]
  have "primary_key_path E cx1 c docID \<in> coll_region (namespace (enJ E) cx) collection"
    using path_in_region(2) [of E cx1 c] g by simp
  then have "\<forall>k. k \<notin> coll_region (namespace (enJ E) cx) collection \<longrightarrow> mem.view (tKV tb) k = mem.view (tKV t) k"
    using put ta by auto
  with that [OF loop] after put ta g show thesis by (simp add: frame_def)
qed

lemma commit_unique:
  assumes coll: "user_collection E cx collection c" "getSchema E cx collection = Some (c, cx1)"
    and ord: "in_order E cx c t" and id: "GetPrimaryKey (enJ E) c document = docID" "good_id docID"
    and act: "act = SetAction \<or> act = CreateAction"
    and run: "commit_command E (Suc (Suc n)) cx1 collection act document msg t = (Inr d, t')"
    and d: "stored_doc E c docID d" and old: "unique_ok E cx c t"
  shows "unique_ok E cx c t'"
proof -
  let ?ns = "namespace (enJ E) cx"
  from coll have g: "plain_writes E cx1 c" "namespace (enJ E) cx1 = ?ns" "scCollection c = collection"
    and kv: "enKV E = \<lparr>opGet = mem_get, opSet = mem_set, opDel = mem_delete, opIter = mem_iter\<rparr>"
    by (auto elim!: user_collectionE)
  have wf: "schema_wf c" using g(1) by (simp add: plain_writes_def plain_reads_def)
  note put = commit_put(1) [OF coll ord id act run d]
  obtain tb tc where loop: "efold (index_step E (Suc n) cx1 collection docID (stored E cx c t docID) act d) (Indexing_map c) () tb = (Inr (), tc)"
    and same: "\<forall>k\<in>coll_region ?ns collection. mem.view (tKV t') k = mem.view (tKV tc) k"
    by (rule commit_loopE [OF coll ord id act run], rule that)
  have puts: "act \<in> {SetAction, UpdateAction, CreateAction}" using act by auto
  have own: "e = docID" if i: "i \<in> secondary c" "iUnique i" and e: "stored E cx c t' e = Some d'" and a: "agree E i d d'" for i e d'
  proof -
    let ?k = "idx_key E ?ns c i d' e"
    have e': "good_id e" "mem.view (tKV t') (doc_key E ?ns c e) = Some d'"
      using e by (auto simp: stored_def docs_def split: if_splits)
    have k: "?k \<in> region ?ns collection (iName i)" using idx_key_region g(3) by metis
    moreover have "mem.view (tKV t') ?k \<noteq> None"
      using put i(1) e' k unfolding in_order_def consistent_def index_ok_def g(3) by blast
    ultimately have "key_docID ?k = docID"
      using mem.unique_entries [OF kv wf puts loop i good_id_nul [OF id(2)], of ?k] same g(2) agree_prefix [OF a, of ?ns c e] g(3)
        region_coll by (auto simp: subset_iff)
    then show "e = docID" by (simp add: idx_key_docID [OF good_id_nul [OF e'(1)]])
  qed
  have docs': "stored E cx c t' = (stored E cx c t)(docID \<mapsto> d)" using put by simp
  show ?thesis
    unfolding unique_ok_def
  proof (intro ballI impI allI)
    fix i e e' x x'
    assume i: "i \<in> secondary c" "iUnique i" and e: "stored E cx c t' e = Some x" "stored E cx c t' e' = Some x'" and a: "agree E i x x'"
    show "e = e'"
    proof (cases "e = docID \<or> e' = docID")
      case True
      then show ?thesis using own [OF i e(2)] own [OF i e(1)] e a agree_sym [OF a] by (auto simp: docs')
    next
      case False
      then show ?thesis using old i e a by (auto simp: docs' unique_ok_def)
    qed
  qed
qed

text \<open>
  C13: uniqueness is an invariant of \<open>Set\<close>: when no two documents of the collection have the
  same values in the fields of a unique index, a \<open>Set\<close> that succeeds keeps it that way.
\<close>

theorem set_keeps_unique:
  assumes "user_collection E cx collection c" and "in_order E cx c t" and "unique_ok E cx c t"
    and "GetPrimaryKey (enJ E) c document = docID" and "good_id docID"
    and "tx_Set E (Suc (Suc n)) cx collection document t = (Inr d, t')" and "stored_doc E c docID d"
  shows "unique_ok E cx c t'"
proof -
  obtain cx1 where g: "getSchema E cx collection = Some (c, cx1)" by (rule user_collectionE [OF assms(1)])
  then have "commit_command E (Suc (Suc n)) cx1 collection SetAction document ''tx: failed to commit set'' t = (Inr d, t')"
    using assms(6) by (simp add: tx_Set_def)
  from commit_unique [OF assms(1) g assms(2,4,5) _ this assms(7,3)] show ?thesis by simp
qed

definition name_unique :: index_c where
  "name_unique = by_name\<lparr>iUnique := True\<rparr>"

definition badge_schema :: "any kvs schema" where
  "badge_schema = plain_schema ''badge'' [(''by_name'', name_unique)] False"

definition badge_env :: "(any kvs memtx, any kvs) env" where
  "badge_env = flat_env [(''badge'', badge_schema), (''system_cdc'', plain_schema ''system_cdc'' [] False)]"

lemma badge_collection: "user_collection badge_env user_ctx ''badge'' badge_schema"
  by (simp add: user_collection_def badge_env_def flat_env_def getSchema_def schemaFromCtx_def user_ctx_def
      plain_writes_def plain_reads_def schemas_named_def schema_wf_def badge_schema_def plain_schema_def pk_index_def
      name_unique_def by_name_def computed_reads_def keys_def cdcCollectionName_def namespace_def GetMetadataValue_def
      flat_json_cast flat_json_flatten)

text \<open>A second document with the same name is refused.\<close>

lemma badge_runs:
  "fst (tx_Set badge_env 3 user_ctx ''badge'' ann fresh_tx) = Inr ann"
  "\<exists>e. fst (tx_Set badge_env 3 user_ctx ''badge'' [(''_id'', AStr ''b''), (''name'', AStr ''ann'')]
     (snd (tx_Set badge_env 3 user_ctx ''badge'' ann fresh_tx))) = Inl e"
proof -
  show "fst (tx_Set badge_env 3 user_ctx ''badge'' ann fresh_tx) = Inr ann" by code_simp
  have "isl (fst (tx_Set badge_env 3 user_ctx ''badge'' [(''_id'', AStr ''b''), (''name'', AStr ''ann'')]
     (snd (tx_Set badge_env 3 user_ctx ''badge'' ann fresh_tx))))" by code_simp
  then show "\<exists>e. fst (tx_Set badge_env 3 user_ctx ''badge'' [(''_id'', AStr ''b''), (''name'', AStr ''ann'')]
     (snd (tx_Set badge_env 3 user_ctx ''badge'' ann fresh_tx))) = Inl e" by (simp add: isl_def)
qed

lemma badge_ids: "GetPrimaryKey (enJ badge_env) badge_schema ann = ''a''" "stored_doc badge_env badge_schema ''a'' ann"
  using witness_ids(1)
  by (simp_all add: stored_doc_def doc_valid_def GetPrimaryKey_def GetString_def doc_get_def badge_env_def flat_env_def
      flat_json_def PrimaryKey_def badge_schema_def plain_schema_def pk_index_def ann_def)

theorem set_keeps_unique_witness:
  "unique_ok badge_env user_ctx badge_schema (snd (tx_Set badge_env (Suc (Suc 1)) user_ctx ''badge'' ann fresh_tx))"
proof -
  have run: "tx_Set badge_env (Suc (Suc 1)) user_ctx ''badge'' ann fresh_tx
      = (Inr ann, snd (tx_Set badge_env (Suc (Suc 1)) user_ctx ''badge'' ann fresh_tx))"
    using badge_runs(1) by (simp add: numeral_3_eq_3 prod_eq_iff)
  have "unique_ok badge_env user_ctx badge_schema fresh_tx" by (simp add: unique_ok_def fresh_in_order)
  from set_keeps_unique [OF badge_collection fresh_in_order(1) this badge_ids(1) witness_ids(1) run badge_ids(2)] show ?thesis .
qed

subsection \<open>Foreign keys\<close>

text \<open>The collection and the id that a document's field under an index refers to.\<close>

definition foreign_ref :: "('s, 'r) env \<Rightarrow> index_c \<Rightarrow> 'r \<Rightarrow> (string \<times> string) option" where
  "foreign_ref E i d = (if iPrimary i then None else case iForeignKey i of
     None \<Rightarrow> None
   | Some fk \<Rightarrow> (case iFields i of [] \<Rightarrow> None | f # _ \<Rightarrow>
       if doc_get (enJ E) d f = ANil then None else Some (fkCollection fk, GetString (enJ E) d f)))"

lemma doc_ref_inject:
  assumes "CHR ''/'' \<notin> set a" "CHR ''/'' \<notin> set b"
  shows "doc_ref a v = doc_ref b w \<longleftrightarrow> a = b \<and> v = w"
proof -
  have split: "takeWhile (\<lambda>x. x \<noteq> CHR ''/'') (doc_ref a v) = a" if "CHR ''/'' \<notin> set a" for a v
    using that unfolding doc_ref_def by (subst takeWhile_append2) auto
  show ?thesis using split [OF assms(1), of v] split [OF assms(2), of w] by (auto simp: doc_ref_def)
qed

text \<open>The cache of known references mixes up collections and ids that contain a slash.\<close>

lemma doc_ref_ambiguous: "doc_ref ''a'' ''b/c'' = doc_ref ''a/b'' ''c''"
  by (simp add: doc_ref_def)

lemma knows_hasDocID:
  assumes "doc_ref (scCollection c) docID \<in> D"
  shows "keeps (knows D) (hasDocID E n cx c docID)"
proof -
  let ?m = "ebind (wrap_eff Internal [] (tx_query E n cx (scCollection c) (empty_query\<lparr>
      qSelect := [select_field ''*''], qWhere := [\<lparr>wField = PrimaryKey c, wOp = WEq, wValue = AStr docID\<rparr>], qLimit := 1\<rparr>)))
    (\<lambda>results. if pgCount results = 0
       then throw Validation (''foreign key with value '' @ docID @ '' does not exist: '' @
          scCollection c @ ''/'' @ PrimaryKey c)
       else ebind (remember_doc (doc_ref (scCollection c) docID)) (\<lambda>_. ret True))"
  have "keeps (knows D) ?m" by (auto intro!: knows.read_rules knows.keeps_query knows_docs assms)
  then show ?thesis unfolding keeps_def hasDocID_def by (simp add: knows.refl)
qed

lemma knows_index_step:
  assumes named: "schemas_named E cx" and act: "act \<in> {SetAction, UpdateAction, CreateAction}"
    and own: "doc_ref collection docID \<in> D" and refs: "\<And>a v. foreign_ref E i d = Some (a, v) \<Longrightarrow> doc_ref a v \<in> D"
  shows "keeps (knows D) (index_step E n cx collection docID old act d i u)"
proof (cases "iPrimary i")
  case True
  then show ?thesis unfolding index_step_def updateSecondaryIndex_def by (auto intro!: knows.read_rules)
next
  case False
  have "keeps (knows D) (check_foreign E n cx i d)"
    unfolding check_foreign_def
    using refs False schemas_named_get(1) [OF named]
    by (auto simp: foreign_ref_def split: option.splits list.splits intro!: knows.read_rules knows_hasDocID)
  then show ?thesis
    unfolding index_step_def updateSecondaryIndex_def drop_entry_def using act own
    by (auto split: option.splits intro!: knows.read_rules knows_docs knows_write knows.keeps_check_unique)
qed

text \<open>The first step of the loop that tests a reference the transaction does not know.\<close>

lemma first_reference:
  assumes "efold (index_step E n cx collection docID old act d) is () t = (Inr (), t')"
    and named: "schemas_named E cx" and act: "act \<in> {SetAction, UpdateAction, CreateAction}"
    and "i \<in> set is" "foreign_ref E i d = Some (a, v)" "doc_ref a v \<notin> set (tDocs t)" "doc_ref a v \<noteq> doc_ref collection docID"
    and slash: "\<forall>j\<in>set is. \<forall>b w. foreign_ref E j d = Some (b, w) \<longrightarrow> CHR ''/'' \<notin> set b"
  shows "\<exists>xs j ys u u'. is = xs @ j # ys \<and> efold (index_step E n cx collection docID old act d) xs () t = (Inr (), u) \<and>
    index_step E n cx collection docID old act d j () u = (Inr (), u') \<and>
    efold (index_step E n cx collection docID old act d) ys () u' = (Inr (), t') \<and>
    foreign_ref E j d = Some (a, v) \<and> doc_ref a v \<notin> set (tDocs u)"
  using assms(1,4,6,8)
proof (induction "is" arbitrary: t)
  case Nil
  then show ?case by simp
next
  case (Cons j "is")
  from Cons.prems(1) obtain s where s: "index_step E n cx collection docID old act d j () t = (Inr (), s)"
    "efold (index_step E n cx collection docID old act d) is () s = (Inr (), t')" by (auto simp: ebind_Inr_iff)
  show ?case
  proof (cases "foreign_ref E j d = Some (a, v)")
    case True
    with s Cons.prems(3) show ?thesis by (intro exI [of _ "[]"]) auto
  next
    case False
    have i: "i \<in> set is" using False Cons.prems(2) assms(5) by auto
    have a: "CHR ''/'' \<notin> set a" using Cons.prems(2,4) assms(5) by blast
    have "keeps (knows (- {doc_ref a v})) (index_step E n cx collection docID old act d j ())"
    proof (rule knows_index_step [OF named act])
      show "doc_ref b w \<in> - {doc_ref a v}" if "foreign_ref E j d = Some (b, w)" for b w
        using that False Cons.prems(4) doc_ref_inject [OF _ a, of b w v] by auto
    qed (use assms(7) in auto)
    from knows.keeps_run [OF this s(1)] have "doc_ref a v \<notin> set (tDocs s)"
      using Cons.prems(3) by (auto simp: knows_def)
    then obtain xs k ys u u' where "is = xs @ k # ys" "efold (index_step E n cx collection docID old act d) xs () s = (Inr (), u)"
      "index_step E n cx collection docID old act d k () u = (Inr (), u')"
      "efold (index_step E n cx collection docID old act d) ys () u' = (Inr (), t')"
      "foreign_ref E k d = Some (a, v)" "doc_ref a v \<notin> set (tDocs u)"
      using Cons.IH [OF s(2) i] Cons.prems(4) by auto
    with s(1) show ?thesis
      by (intro exI [of _ "j # xs"] exI [of _ k] exI [of _ ys] exI [of _ u] exI [of _ u']) (auto simp: ebind_Inr_iff)
  qed
qed

lemma docs_ok_cong:
  "\<forall>k\<in>region ns (scCollection c) (iName (scPrimaryIndex c)). V k = V' k \<Longrightarrow> docs_ok E ns c V \<Longrightarrow> docs_ok E ns c V'"
  unfolding docs_ok_def by metis

lemma with_select_twice: "tx_query E (Suc m) cx collection (with_select q) = tx_query E (Suc m) cx collection q"
proof -
  have "with_select (with_select q) = with_select q" by (simp add: with_select_def)
  then show ?thesis by (simp add: query_with_def fun_eq_iff)
qed

context kv_tx begin

text \<open>A reference that is not known is looked up: the test succeeds when the document is stored.\<close>

lemma hasDocID_docs:
  assumes kv: "enKV E = \<lparr>opGet = kget, opSet = kset, opDel = kdel, opIter = kiter\<rparr>"
    and sch: "getSchema E cx (scCollection c) = Some (c, cx)" and plain: "plain_reads E cx c" and good: "good_id v"
    and ok: "docs_ok E (namespace (enJ E) cx) c (view (tKV u))" and new: "doc_ref (scCollection c) v \<notin> set (tDocs u)"
    and run: "hasDocID E (Suc m) cx c v u = (Inr b, u')"
  shows "docs E (namespace (enJ E) cx) c (view (tKV u)) v \<noteq> None"
proof
  assume none: "docs E (namespace (enJ E) cx) c (view (tKV u)) v = None"
  have "tx_get E (Suc m) cx (scCollection c) v u = (fail NotFound (v @ '' not found''), u)"
    using tx_get_docs [OF kv sch refl plain good ok, of m] none by simp
  moreover have sel: "empty_query\<lparr>qSelect := [select_field ''*''], qWhere := [\<lparr>wField = PrimaryKey c, wOp = WEq, wValue = AStr v\<rparr>],
      qLimit := 1\<rparr> = with_select (get_query (PrimaryKey c) v)"
    by (simp add: with_select_def get_query_def empty_query_def)
  from run new obtain results u1 where
    "tx_query E (Suc m) cx (scCollection c) (get_query (PrimaryKey c) v) u = (Inr results, u1)" "pgCount results \<noteq> 0"
    by (auto simp: hasDocID_def sel [unfolded computed_reads_schema] with_select_twice ebind_Inr_iff simp del: tx_query.simps split: if_splits)
  ultimately show False
    by (auto simp: tx_get_def get_with_def sch wrap_eff_def wrapping_def ebind_def fail_def simp del: tx_query.simps split: list.splits)
qed

lemma foreign_checked:
  assumes kv: "enKV E = \<lparr>opGet = kget, opSet = kset, opDel = kdel, opIter = kiter\<rparr>"
    and sch: "getSchema E cx a = Some (fc, cx1)" "scCollection fc = a" and plain: "plain_reads E cx fc" and good: "good_id v"
    and ok: "docs_ok E (namespace (enJ E) cx) fc (view (tKV u))" and new: "doc_ref a v \<notin> set (tDocs u)"
    and fk: "foreign_ref E j d = Some (a, v)" and act: "act \<in> {SetAction, UpdateAction, CreateAction}"
    and run: "index_step E (Suc m) cx collection docID old act d j () u = (Inr (), u')"
    and dis: "\<And>x. x \<in> region (namespace (enJ E) cx) a (iName (scPrimaryIndex fc)) \<Longrightarrow>
      x \<notin> region (namespace (enJ E) cx) collection (iName j)"
  shows "docs E (namespace (enJ E) cx) fc (view (tKV u)) v \<noteq> None"
proof -
  from fk obtain k f fs where j: "\<not> iPrimary j" "iForeignKey j = Some k" "iFields j = f # fs" "doc_get (enJ E) d f \<noteq> ANil"
    "fkCollection k = a" "GetString (enJ E) d f = v"
    by (auto simp: foreign_ref_def split: if_splits option.splits list.splits)
  have "updateSecondaryIndex E (Suc m) cx collection j docID old act d u = (Inr (), u')" using run by (simp add: index_step_def)
  then obtain t1 t2 where drop: "(case old of Some b \<Rightarrow> drop_entry E cx collection j docID b | None \<Rightarrow> ret ()) u = (Inr (), t1)"
    and check: "check_foreign E (Suc m) cx j d t1 = (Inr (), t2)"
    using put_stagesE [OF _ j(1) act] by metis
  have docs1: "tDocs t1 = tDocs u" using drop by (auto simp: drop_entry_def kv_write_def split: option.splits sum.splits)
  have same: "view (tKV t1) x = view (tKV u) x" if "x \<in> region (namespace (enJ E) cx) a (iName (scPrimaryIndex fc))" for x
  proof -
    have "x \<noteq> index_key_path E cx collection j b docID" for b
      using dis [OF that] entry_in_region unfolding index_key_path_def by metis
    with drop show ?thesis by (auto simp: drop_entry_def kv dest!: kv_write_del split: option.splits)
  qed
  have ns: "namespace (enJ E) cx1 = namespace (enJ E) cx" "plain_reads E cx1 fc"
    using getSchema_ctx [OF sch(1)] plain_reads_ctx [OF plain] by auto
  from check obtain b t3 where "hasDocID E (Suc m) cx1 fc v t1 = (Inr b, t3)"
    by (auto simp: check_foreign_def j sch(1) ebind_Inr_iff)
  moreover have "docs_ok E (namespace (enJ E) cx1) fc (view (tKV t1))"
    unfolding ns(1) by (rule docs_ok_cong [OF _ ok]) (simp add: same sch(2))
  ultimately have "docs E (namespace (enJ E) cx1) fc (view (tKV t1)) v \<noteq> None"
    using new docs1 sch(2) getSchema_again [OF sch] by (intro hasDocID_docs [OF kv _ ns(2) good]) auto
  moreover have "view (tKV t1) (doc_key E (namespace (enJ E) cx) fc v) = view (tKV u) (doc_key E (namespace (enJ E) cx) fc v)"
    using same doc_key_region sch(2) by metis
  ultimately show ?thesis by (simp add: docs_def ns good)
qed

end

lemma user_collection_schema: "user_collection E cx a c \<Longrightarrow> user_collection E cx a c' \<Longrightarrow> c = c'"
  unfolding user_collection_def by (metis option.inject)

text \<open>A schema found in the request's context hides the others of the same name only.\<close>

lemma getSchema_other:
  assumes "getSchema E cx collection = Some (c, cx1)" "scCollection c = collection" "getSchema E cx a = Some (fc, cx')"
  shows "\<exists>cx2. getSchema E cx1 a = Some (fc, cx2)"
proof (cases "a = collection")
  case True
  with assms getSchema_again [OF assms(1,2)] show ?thesis by auto
next
  case False
  then have "schemaFromCtx cx1 a = schemaFromCtx cx a"
    using assms(1,2) by (auto simp: getSchema_def schemaFromCtx_def schemaToCtx_def split: option.splits)
  with assms(3) show ?thesis by (auto simp: getSchema_def split: option.splits)
qed

text \<open>The documents of a collection are stored apart from the secondary indexes of every collection.\<close>

lemma primary_apart:
  assumes "user_collection E cx collection c" "user_collection E cx a fc" "ns = namespace (enJ E) cx"
    and x: "x \<in> region ns a (iName (scPrimaryIndex fc))" and k: "k \<in> set (Indexing_map c)" "\<not> iPrimary k"
  shows "x \<notin> region ns collection (iName k)"
proof (cases "a = collection")
  case True
  then have "fc = c" using user_collection_schema assms(1,2) by metis
  moreover have "schema_wf c" using assms(1) by (simp add: user_collection_def plain_writes_def plain_reads_def)
  ultimately show ?thesis
    using region_disjoint [OF x [unfolded True], of "iName k"] secondary_names [of c k] primary_name_nul [of c] k
    by (auto simp: secondary_def)
next
  case False
  have "x \<in> coll_region ns a" using x region_coll by blast
  then have "x \<notin> coll_region ns collection"
    using coll_region_disjoint [of x ns a collection] False assms(1-3) by (auto simp: plain_writes_def user_collection_def)
  then show ?thesis using region_coll by blast
qed

text \<open>
  Between the steps of the loop the documents of a collection that is referred to are in step:
  they are those before the command or, in the collection itself, those after it.
\<close>

lemma reference_docs_ok:
  assumes put: "user_collection E cx collection c" "in_order E cx c t'" and ref: "user_collection E cx a fc" "in_order E cx fc t"
    and ns: "ns = namespace (enJ E) cx"
    and before: "\<forall>k. k \<notin> coll_region ns collection \<longrightarrow> mem.view (tKV tb) k = mem.view (tKV t) k"
    and around: "\<And>x. x \<in> region ns a (iName (scPrimaryIndex fc)) \<Longrightarrow>
      mem.view (tKV u) x = mem.view (tKV tb) x \<and> mem.view (tKV t') x = mem.view (tKV u) x"
    and name: "scCollection fc = a"
  shows "docs_ok E ns fc (mem.view (tKV u))"
proof (cases "a = collection")
  case True
  then have "fc = c" using user_collection_schema put(1) ref(1) by metis
  then have "docs_ok E ns fc (mem.view (tKV t'))" using in_order_docs [OF put(2)] ns by simp
  then show ?thesis by (rule docs_ok_cong [rotated]) (simp add: around name)
next
  case False
  have "mem.view (tKV t) x = mem.view (tKV u) x" if x: "x \<in> region ns a (iName (scPrimaryIndex fc))" for x
  proof -
    have "x \<in> coll_region ns a" using x region_coll by blast
    then have "x \<notin> coll_region ns collection"
      using coll_region_disjoint [of x ns a collection] False put(1) ref(1) ns by (auto simp: plain_writes_def user_collection_def)
    then show ?thesis using before around [OF x] by simp
  qed
  then show ?thesis by (intro docs_ok_cong [OF _ in_order_docs [OF ref(2), folded ns]]) (simp add: name)
qed

text \<open>What the loop leaves of the documents of another collection at the step that looks a reference up.\<close>

lemma reference_stepE:
  assumes coll: "user_collection E cx collection c" "getSchema E cx collection = Some (c, cx1)" and ref: "user_collection E cx a fc"
    and ns: "ns = namespace (enJ E) cx"
    and loop: "efold (index_step E (Suc n) cx1 collection docID old act d) (Indexing_map c) () tb = (Inr (), tc)"
    and puts: "act \<in> {SetAction, UpdateAction, CreateAction}" and i: "i \<in> set (Indexing_map c)" "foreign_ref E i d = Some (a, v)"
    and new: "doc_ref a v \<noteq> doc_ref collection docID" "doc_ref a v \<notin> set (tDocs tb)"
    and slash: "\<forall>j\<in>set (Indexing_map c). \<forall>b w. foreign_ref E j d = Some (b, w) \<longrightarrow> CHR ''/'' \<notin> set b"
  obtains j u u' where "j \<in> set (Indexing_map c)" "index_step E (Suc n) cx1 collection docID old act d j () u = (Inr (), u')"
    "foreign_ref E j d = Some (a, v)" "doc_ref a v \<notin> set (tDocs u)"
    "\<And>x. x \<in> region ns a (iName (scPrimaryIndex fc)) \<Longrightarrow> mem.view (tKV u) x = mem.view (tKV tb) x \<and> mem.view (tKV tc) x = mem.view (tKV u) x"
proof -
  from coll obtain g: "plain_writes E cx1 c" "namespace (enJ E) cx1 = ns"
    and kv: "enKV E = \<lparr>opGet = mem_get, opSet = mem_set, opDel = mem_delete, opIter = mem_iter\<rparr>"
    using ns by (elim user_collectionE) auto
  have named: "schemas_named E cx1" using g(1) by (simp add: plain_writes_def)
  from first_reference [OF loop named puts i new(2,1) slash] obtain xs j ys u u'
    where split: "Indexing_map c = xs @ j # ys"
      and steps: "efold (index_step E (Suc n) cx1 collection docID old act d) xs () tb = (Inr (), u)"
      "index_step E (Suc n) cx1 collection docID old act d j () u = (Inr (), u')"
      "efold (index_step E (Suc n) cx1 collection docID old act d) ys () u' = (Inr (), tc)"
      and fk: "foreign_ref E j d = Some (a, v)" "doc_ref a v \<notin> set (tDocs u)" by blast
  let ?A = "- region ns a (iName (scPrimaryIndex fc))"
  have own: "\<forall>k\<in>set (Indexing_map c). \<not> iPrimary k \<longrightarrow> region (namespace (enJ E) cx1) collection (iName k) \<subseteq> ?A"
    using primary_apart [OF coll(1) ref ns] by (auto simp: g(2))
  have tail: "efold (index_step E (Suc n) cx1 collection docID old act d) (j # ys) () u = (Inr (), tc)"
    using steps(2,3) by (simp add: ebind_Inr_iff)
  have "mem.view (tKV u) x = mem.view (tKV tb) x \<and> mem.view (tKV tc) x = mem.view (tKV u) x"
    if "x \<in> region ns a (iName (scPrimaryIndex fc))" for x
    using mem.steps_frame [OF kv _ steps(1), of ?A x] mem.steps_frame [OF kv _ tail, of ?A x] own that split by auto
  with that [of j u u'] split steps(2) fk show thesis by simp
qed


text \<open>Employees refer to other employees.\<close>

definition by_boss :: index_c where
  "by_boss = \<lparr>iName = ''by_boss'', iFields = [''boss''], iUnique = False, iPrimary = False,
     iForeignKey = Some \<lparr>fkCollection = ''emp'', fkCascade = False\<rparr>\<rparr>"

definition emp_schema :: "any kvs schema" where
  "emp_schema = plain_schema ''emp'' [(''by_boss'', by_boss)] False"

definition emp_env :: "(any kvs memtx, any kvs) env" where
  "emp_env = flat_env [(''emp'', emp_schema), (''system_cdc'', plain_schema ''system_cdc'' [] False)]"

definition emp_tx :: "(any kvs memtx, any kvs) txn" where
  "emp_tx = (snd (tx_Set emp_env (Suc (Suc 1)) user_ctx ''emp'' ann fresh_tx))\<lparr>tDocs := []\<rparr>"

definition clerk :: "string \<Rightarrow> any kvs" where
  "clerk boss = [(''_id'', AStr ''b''), (''boss'', AStr boss)]"

lemma emp_collection: "user_collection emp_env user_ctx ''emp'' emp_schema"
  by (simp add: user_collection_def emp_env_def flat_env_def getSchema_def schemaFromCtx_def user_ctx_def
      plain_writes_def plain_reads_def schemas_named_def schema_wf_def emp_schema_def plain_schema_def pk_index_def
      by_boss_def computed_reads_def keys_def cdcCollectionName_def namespace_def GetMetadataValue_def
      flat_json_cast flat_json_flatten)

lemma emp_run: "(case tx_Set emp_env 3 user_ctx ''emp'' ann fresh_tx of (r1, t1) \<Rightarrow>
    r1 = Inr ann \<and> fst (tx_Set emp_env 3 user_ctx ''emp'' (clerk ''a'') (t1\<lparr>tDocs := []\<rparr>)) = Inr (clerk ''a'') \<and>
    isl (fst (tx_Set emp_env 3 user_ctx ''emp'' (clerk ''x'') (t1\<lparr>tDocs := []\<rparr>))))"
  by code_simp

lemmas emp_runs = emp_run [unfolded case_prod_beta]

lemma emp_ids: "GetPrimaryKey (enJ emp_env) emp_schema ann = ''a''" "stored_doc emp_env emp_schema ''a'' ann"
  "GetPrimaryKey (enJ emp_env) emp_schema (clerk ''a'') = ''b''" "stored_doc emp_env emp_schema ''b'' (clerk ''a'')" "good_id ''b''"
  using witness_ids(1)
  by (simp_all add: good_id_def null_text_def HasPrefix_def selfRefPrefix_def stored_doc_def doc_valid_def GetPrimaryKey_def
      GetString_def doc_get_def emp_env_def flat_env_def flat_json_def PrimaryKey_def emp_schema_def plain_schema_def
      pk_index_def ann_def clerk_def)


text \<open>
  A document that refers to itself can be stored but never deleted: \<open>deleteDocument\<close> takes it out
  of the primary index first, the cascade then finds its index entry and fails to get it.
\<close>

lemma self_delete_fails:
  "isl (fst (Delete emp_env 9 user_ctx ''emp'' ''b'' (snd (tx_Set emp_env 3 user_ctx ''emp'' (clerk ''b'') fresh_tx))))"
  by code_simp

end
