(* ===== verification/DeleteFuel.thy ===== *)
theory DeleteFuel
  imports WriteFuel
begin

text \<open>
  The depth of a delete. \<open>cascadeDelete\<close> deletes the documents that refer to the deleted one
  with further calls of \<open>persistCommand\<close>, on the collections whose foreign keys name its
  collection. When these references do not go in circles, a rank of the collections bounds the
  depth; with a circle the calls go on as long as the stored documents refer to one another.
\<close>

definition ranked :: "('s, 'r) env \<Rightarrow> (string \<Rightarrow> nat) \<Rightarrow> bool" where
  "ranked E r \<longleftrightarrow> (\<forall>(k, c)\<in>set (enColl E). \<forall>i\<in>set (Indexing_map c).
     case iForeignKey i of Some fk \<Rightarrow> r (scCollection c) < r (fkCollection fk) | None \<Rightarrow> True)"

lemma rankedD:
  "ranked E r \<Longrightarrow> (k, c) \<in> set (enColl E) \<Longrightarrow> i \<in> set (Indexing_map c) \<Longrightarrow> iForeignKey i = Some fk \<Longrightarrow>
   r (scCollection c) < r (fkCollection fk)"
  by (fastforce simp: ranked_def)

lemma runs_delete_with:
  assumes "schemas_good E cx"
    and "\<And>cx' d ts m. schemas_good E cx' \<Longrightarrow> runs (per cx' \<lparr>pcCollection = collection, pcAction = DeleteAction,
      pcDocument = d, pcTimestamp = ts, pcMetadata = m\<rparr>)"
  shows "runs (tx_delete_with E per cx collection docID)"
  unfolding tx_delete_with_def nil_pointer_def
  using schemas_good_get(2) [OF assms(1)] assms(2)
  by (auto split: option.splits sum.splits intro!: runs_write_rules)

lemma runs_cascade:
  assumes "write_env E" "schemas_good E cx"
    and per: "\<And>k c i fk cx' d ts m. (k, c) \<in> set (enColl E) \<Longrightarrow> i \<in> set (Indexing_map c) \<Longrightarrow> iForeignKey i = Some fk \<Longrightarrow>
      fkCollection fk = collection \<Longrightarrow> schemas_good E cx' \<Longrightarrow> runs (per cx' \<lparr>pcCollection = scCollection c,
        pcAction = DeleteAction, pcDocument = d, pcTimestamp = ts, pcMetadata = m\<rparr>)"
  shows "runs (cascadeDelete E (Suc (Suc (Suc n))) per cx schema collection document)"
proof -
  have q: "query_env E" using assms(1) by (simp add: write_env_def)
  have "runs (if (case iForeignKey i of Some fk \<Rightarrow> fkCollection fk = collection | None \<Rightarrow> False)
      then (case iFields i of
          [] \<Rightarrow> lift_res (Inl (Panic ''index out of range''))
        | f # _ \<Rightarrow> ebind (tx_query E (Suc (Suc (Suc n))) cx (scCollection c) (empty_query\<lparr>qSelect := [select_field ''*''],
              qWhere := [\<lparr>wField = f, wOp = WEq, wValue = AStr (GetPrimaryKey (enJ E) schema document)\<rparr>]\<rparr>))
            (\<lambda>results. efold (\<lambda>d _. tx_delete_with E per cx (scCollection c) (GetPrimaryKey (enJ E) c d))
               (pgDocuments results) ()))
      else ret ())" if c: "(k, c) \<in> set (enColl E)" and i: "i \<in> set (Indexing_map c)" for k c i
  proof (cases "\<exists>fk. iForeignKey i = Some fk \<and> fkCollection fk = collection")
    case True
    then obtain fk where fk: "iForeignKey i = Some fk" "fkCollection fk = collection" by blast
    have "runs (tx_delete_with E per cx (scCollection c) docID)" for docID
      by (rule runs_delete_with [OF assms(2)]) (rule per [OF c i fk])
    then show ?thesis
      by (auto simp: fk simp del: tx_query.simps split: list.splits
          intro!: runs_write_rules runs_query [OF q assms(2)])
  qed (auto intro: runs_ret split: option.splits)
  then show ?thesis
    unfolding cascadeDelete_def by (auto intro!: runs_wrap runs_fold)
qed

lemma delete_runs:
  fixes E :: "('s, 'r) env" and cx :: "'r ctx"
  assumes env: "write_env E" and ranked: "ranked E r" and good: "schemas_good E cx"
  shows "runs (persistCommand E (Suc (Suc (Suc (Suc (Suc (n + r (pcCollection command))))))) cx command)"
  using good
proof (induction "r (pcCollection command)" arbitrary: n cx command rule: less_induct)
  case less
  let ?m = "n + r (pcCollection command)"
  let ?per = "persistCommand E (Suc (Suc (Suc (Suc ?m))))"
  have internal: "schemas_good E (SetIsInternal cx)"
    using less.prems by (simp add: schemas_good_def primary_marked_def schemas_of_def schemas_named_def)
  have cdc: "runs (?per (SetIsInternal cx) \<lparr>pcCollection = cdcCollectionName, pcAction = CreateAction,
      pcDocument = d, pcTimestamp = ts, pcMetadata = m\<rparr>)" for d ts m
    by (subst persistCommand.simps(2), rule runs_persist [OF env internal]) simp_all
  have cascade: "runs (cascadeDelete E (Suc (Suc (Suc (Suc ?m)))) ?per cx c (pcCollection command) d)" for c d
  proof (rule runs_cascade [OF env less.prems])
    fix k s i fk ts and cx' :: "'r ctx" and d :: 'r and m :: "'r option"
    assume c: "(k, s) \<in> set (enColl E)" "i \<in> set (Indexing_map s)" "iForeignKey i = Some fk"
      "fkCollection fk = pcCollection command" and good: "schemas_good E cx'"
    let ?cmd = "\<lparr>pcCollection = scCollection s, pcAction = DeleteAction, pcDocument = d, pcTimestamp = ts, pcMetadata = m\<rparr>"
    have lt: "r (pcCollection ?cmd) < r (pcCollection command)" using rankedD [OF ranked c(1-3)] c(4) by simp
    then have depth: "Suc (Suc (Suc (Suc ?m))) = Suc (Suc (Suc (Suc (Suc (n + (r (pcCollection command) - Suc (r (scCollection s))) +
        r (pcCollection ?cmd))))))"
      by simp
    show "runs (?per cx' ?cmd)" unfolding depth by (rule less.hyps [OF lt good])
  qed
  show ?case
    by (subst persistCommand.simps(2), rule runs_persist [OF env less.prems]) (rule cascade, rule cdc)
qed

text \<open>
  C20: every command ends, deletes with their cascades included, when foreign keys do not go in
  circles: with five levels of calls above the rank of the collection \<open>persistCommand\<close> returns
  a document, an error or a panic of the code, whatever is stored and whatever scripts answer.
\<close>

theorem delete_depth:
  assumes "enOpt E = Optimize" and "\<forall>opts s. \<exists>items. opIter (enKV E) opts s = Inr items"
    and "\<forall>k v s. opSet (enKV E) k v s \<noteq> Inl NoFuel" and "\<forall>k s. opDel (enKV E) k s \<noteq> Inl NoFuel"
    and "\<forall>e. enFromCDC E e \<noteq> Inl NoFuel"
    and "\<forall>c\<in>schemas_of E cx. iPrimary (scPrimaryIndex c)" and "schemas_named E cx" and "ranked E r"
  shows "fst (persistCommand E (n + r (pcCollection command) + 5) cx command t) \<noteq> Inl NoFuel"
proof -
  have env: "write_env E"
    using assms(1-5) unfolding write_env_def query_env_def fueled_def by (metis sum.distinct(1))
  have good: "schemas_good E cx" using assms(6,7) by (simp add: schemas_good_def primary_marked_def)
  from delete_runs [OF env assms(8) good, of n command] show ?thesis
    by (simp add: runs_def fueled_def numeral_eq_Suc del: persistCommand.simps)
qed

text \<open>Tasks refer to users, users to nothing.\<close>

definition task_schema :: "any kvs schema" where
  "task_schema = two_index\<lparr>scCollection := ''task'', scIndexing := [(''owner_idx'',
     no_index\<lparr>iName := ''owner_idx'', iFields := [''owner''], iForeignKey := Some \<lparr>fkCollection = ''user'', fkCascade = True\<rparr>\<rparr>)]\<rparr>"

definition task_rank :: "string \<Rightarrow> nat" where
  "task_rank a = (if a = ''user'' then 1 else 0)"

theorem delete_depth_witness:
  "fst (persistCommand (flat_env [(''user'', two_index), (''task'', task_schema)]) 6 user_ctx \<lparr>pcCollection = ''user'',
     pcAction = DeleteAction, pcDocument = [(''_id'', AStr ''a'')], pcTimestamp = 1, pcMetadata = None\<rparr>
     \<lparr>tKV = empty_mem, tCDC = [], tVM = no_globals, tDocs = [], tTick = 0\<rparr>) \<noteq> Inl NoFuel"
proof -
  let ?E = "flat_env [(''user'', two_index), (''task'', task_schema)]"
  let ?cmd = "\<lparr>pcCollection = ''user'', pcAction = DeleteAction, pcDocument = [(''_id'', AStr ''a'')], pcTimestamp = 1, pcMetadata = None\<rparr>"
  have "ranked ?E task_rank"
    by (simp add: ranked_def flat_env_def task_schema_def two_index_def Indexing_map_def task_rank_def no_index_def)
  then have "fst (persistCommand ?E (0 + task_rank (pcCollection ?cmd) + 5) user_ctx ?cmd
      \<lparr>tKV = empty_mem, tCDC = [], tVM = no_globals, tDocs = [], tTick = 0\<rparr>) \<noteq> Inl NoFuel"
    by (intro delete_depth)
      (simp_all add: flat_env_def mem_ops_def mem_iter_def mem_set_def mem_delete_def read_only_error_def schemas_of_def
        schemas_named_def user_ctx_def two_index_def task_schema_def)
  then show ?thesis by (simp add: task_rank_def del: persistCommand.simps)
qed

end
