(* ===== verification/KvDb.thy ===== *)
theory KvDb
  imports Kv Effects
begin

text \<open>
  The interface \<open>kv.DB\<close>: transactions run as a whole (\<open>kv/badger/badger.go\<close>,
  \<open>kv/tikv/tikv.go\<close>), and the registry of providers (\<open>kv/registry/registry.go\<close>). The record
  \<open>kv_db\<close> holds what a provider does: it starts a transaction from the committed state,
  commits it (a commit that fails also says what it leaves), rolls it back, and drops prefixes. The contract
  \<open>kv_store\<close> extends that of a transaction; the reference implementation stores an association
  list.
\<close>

record ('d, 's, 'r) kv_db =
  dbOps :: "('s, 'r) kv_ops"
  dbNewTx :: "txopts \<Rightarrow> 'd \<Rightarrow> 's res"
  dbCommit :: "'s \<Rightarrow> 'd \<Rightarrow> unit res \<times> 'd"
  dbRollback :: "'s \<Rightarrow> unit res"
  dbDropPrefix :: "bytes list \<Rightarrow> 'd \<Rightarrow> 'd res"

subsection \<open>Running a function in a transaction\<close>

text \<open>
  \<open>badgerKV.Tx\<close>: the error of a rollback is dropped. A panic of the function leaves the
  committed state as it is.
\<close>

definition badger_Tx :: "('d, 's, 'r, 'z) kv_db_scheme \<Rightarrow> txopts \<Rightarrow> ('s, 'a) eff \<Rightarrow> ('d, 'a) eff" where
  "badger_Tx K opts fn d = (case dbNewTx K opts d of
     Inl e \<Rightarrow> (Inl e, d)
   | Inr s \<Rightarrow> (case fn s of
       (Inl e, _) \<Rightarrow> (Inl e, d)
     | (Inr a, s') \<Rightarrow> (case dbCommit K s' d of (Inl e, d') \<Rightarrow> (Inl e, d') | (Inr _, d') \<Rightarrow> (Inr a, d'))))"

text \<open>\<open>tikvKV.Tx\<close>: the text of a failed rollback is added to the error of the function.\<close>

definition rollback_text :: "gerr \<Rightarrow> unit res \<Rightarrow> failure" where
  "rollback_text e r = (case r of
     Inl (Fail e') \<Rightarrow> Fail (Plain (error_text e @ '' - failed to rollback transaction: '' @ error_text e'))
   | Inl p \<Rightarrow> p
   | Inr _ \<Rightarrow> Fail e)"

definition tikv_Tx :: "('d, 's, 'r, 'z) kv_db_scheme \<Rightarrow> txopts \<Rightarrow> ('s, 'a) eff \<Rightarrow> ('d, 'a) eff" where
  "tikv_Tx K opts fn d = (case dbNewTx K opts d of
     Inl e \<Rightarrow> (Inl e, d)
   | Inr s \<Rightarrow> (case fn s of
       (Inl (Fail e), s') \<Rightarrow> (Inl (rollback_text e (dbRollback K s')), d)
     | (Inl p, _) \<Rightarrow> (Inl p, d)
     | (Inr a, s') \<Rightarrow> (case dbCommit K s' d of (Inl e, d') \<Rightarrow> (Inl e, d') | (Inr _, d') \<Rightarrow> (Inr a, d'))))"

lemma badger_Tx_Inr_iff: "badger_Tx K opts fn d = (Inr a, d') \<longleftrightarrow>
    (\<exists>s s'. dbNewTx K opts d = Inr s \<and> fn s = (Inr a, s') \<and> dbCommit K s' d = (Inr (), d'))"
  by (auto simp: badger_Tx_def split: sum.splits prod.splits)

lemma badger_Tx_Inl_iff: "badger_Tx K opts fn d = (Inl e, d') \<longleftrightarrow> dbNewTx K opts d = Inl e \<and> d' = d \<or>
    (\<exists>s s'. dbNewTx K opts d = Inr s \<and> (fn s = (Inl e, s') \<and> d' = d \<or> (\<exists>a. fn s = (Inr a, s') \<and> dbCommit K s' d = (Inl e, d'))))"
  by (auto simp: badger_Tx_def split: sum.splits prod.splits)

text \<open>The two providers agree on the committed state, and on when a transaction succeeds.\<close>

lemma tikv_Tx_badger:
  "snd (tikv_Tx K opts fn d) = snd (badger_Tx K opts fn d)"
  "fst (tikv_Tx K opts fn d) = Inr a \<longleftrightarrow> fst (badger_Tx K opts fn d) = Inr a"
  by (auto simp: tikv_Tx_def badger_Tx_def split: sum.splits prod.splits failure.splits)

subsection \<open>The registry\<close>

type_synonym ('p, 'db) registry = "(string \<times> ('p \<Rightarrow> 'db res)) list"

definition Register :: "string \<Rightarrow> ('p \<Rightarrow> 'db res) \<Rightarrow> ('p, 'db) registry \<Rightarrow> ('p, 'db) registry" where
  "Register name opener openers = AList.update name opener openers"

definition registry_Open :: "('p, 'db) registry \<Rightarrow> string \<Rightarrow> 'p \<Rightarrow> 'db res" where
  "registry_Open openers name params = (case map_of openers name of
     None \<Rightarrow> fail NotFound (name @ '' is not registered'')
   | Some opener \<Rightarrow> opener params)"

lemma registry_last: "registry_Open (Register name opener openers) name params = opener params"
  by (simp add: registry_Open_def Register_def update_conv')

subsection \<open>The contract of a database\<close>

locale kv_store = kv_tx kget kset kdel kiter items writable
  for kget :: "bytes \<Rightarrow> 's \<Rightarrow> 'v option res" and kset kdel kiter
    and items :: "'s \<Rightarrow> 'v kvs" and writable :: "'s \<Rightarrow> bool" +
  fixes newtx :: "txopts \<Rightarrow> 'd \<Rightarrow> 's res" and commit :: "'s \<Rightarrow> 'd \<Rightarrow> unit res \<times> 'd" and committed :: "'d \<Rightarrow> bytes \<Rightarrow> 'v option"
  assumes newtx_items: "newtx opts d = Inr s \<Longrightarrow> map_of (items s) = committed d \<and> (\<not> IsReadOnly opts \<longrightarrow> writable s)"
    and commit_items: "commit s d = (Inr u, d') \<Longrightarrow> committed d' = map_of (items s)"
    and commit_error: "commit s d = (Inl e, d') \<Longrightarrow> d' = d"
begin

lemma newtx_view: "newtx opts d = Inr s \<Longrightarrow> view s = committed d"
  by (simp add: view_def newtx_items)

lemma commit_view: "commit s d = (Inr u, d') \<Longrightarrow> committed d' = view s"
  by (simp add: view_def commit_items)

text \<open>
  A transaction is all or nothing: when it fails (the function, or the commit) the committed
  state is the one before.
\<close>

lemma Tx_atomic: "dbCommit K = commit \<Longrightarrow> badger_Tx K opts fn d = (Inl e, d') \<Longrightarrow> d' = d"
  unfolding badger_Tx_Inl_iff using commit_error by metis

text \<open>What a transaction that only reads leaves behind.\<close>

lemma Tx_keeps:
  assumes db: "dbNewTx K = newtx" "dbCommit K = commit"
    and run: "badger_Tx K opts fn d = (Inr a, d')" and fn: "\<And>s s'. fn s = (Inr a, s') \<Longrightarrow> view s' = view s"
  shows "committed d' = committed d"
  using run unfolding badger_Tx_Inr_iff db by (auto simp: commit_view newtx_view dest!: fn)

end

definition mem_db :: "('r kvs, 'r memtx, 'r) kv_db" where
  "mem_db = \<lparr>dbOps = mem_ops, dbNewTx = (\<lambda>opts d. Inr \<lparr>mt_opts = opts, mt_data = d\<rparr>),
     dbCommit = (\<lambda>s d. (Inr (), mt_data s)), dbRollback = (\<lambda>s. Inr ()),
     dbDropPrefix = (\<lambda>ps d. Inr (filter (\<lambda>kv. \<not> list_ex (\<lambda>p. prefix p (fst kv)) ps) d))\<rparr>"

interpretation mem_store: kv_store mem_get mem_set mem_delete mem_iter
  "\<lambda>s. sort_key fst (AList.clearjunk (mt_data s))" "\<lambda>s. \<not> IsReadOnly (mt_opts s)"
  "dbNewTx mem_db" "dbCommit mem_db" map_of
  by unfold_locales (auto simp: mem_db_def map_of_sort_clearjunk)

end
