(* ===== verification/Backends.thy ===== *)
theory Backends
  imports KvDb KvUtil Values
begin

text \<open>
  The two implementations of \<open>kv.Tx\<close>: \<open>kv/badger/tx.go\<close>, \<open>kv/badger/iter.go\<close>,
  \<open>kv/tikv/tx.go\<close>, \<open>kv/tikv/iter.go\<close>. The storage libraries (badger, the TiKV client, the Redis
  client) are parameters. A library iterator is the list of the items from its position on, in
  the direction of the scan; \<open>for it.Valid() { ...; it.Next() }\<close> takes items while the
  iterator's own test holds.
\<close>

subsection \<open>Badger\<close>

record ('d, 't, 'b, 'r) badger_lib =
  bNewTransaction :: "bool \<Rightarrow> 'd \<Rightarrow> 't"
  bTxnGet :: "bytes \<Rightarrow> 't \<Rightarrow> gerr + 'r"
  bTxnSetEntry :: "bytes \<Rightarrow> 'r \<Rightarrow> 't \<Rightarrow> gerr + 't"
  bTxnDelete :: "bytes \<Rightarrow> 't \<Rightarrow> gerr + 't"
  bTxnCommit :: "'t \<Rightarrow> 'd \<Rightarrow> gerr + 'd"
  bTxnIterator :: "bytes option \<Rightarrow> bool \<Rightarrow> bytes option \<Rightarrow> 't \<Rightarrow> 'r kvs"
  bNewWriteBatch :: "'d \<Rightarrow> 'b"
  bBatchSetEntry :: "bytes \<Rightarrow> 'r \<Rightarrow> 'b \<Rightarrow> gerr + 'b"
  bBatchDelete :: "bytes \<Rightarrow> 'b \<Rightarrow> gerr + 'b"
  bBatchFlush :: "'b \<Rightarrow> 'd \<Rightarrow> gerr + 'd"

definition ErrKeyNotFound :: gerr where
  "ErrKeyNotFound = Plain ''Key not found''"

record ('t, 'b, 'r) badgerTx =
  btOpts :: txopts
  btBatch :: "'b option"
  btTxn :: "'t option"
  btEntries :: "'r kvcdc list"

definition badger_NewTx :: "('d, 't, 'b, 'r) badger_lib \<Rightarrow> txopts \<Rightarrow> 'd \<Rightarrow> ('t, 'b, 'r) badgerTx" where
  "badger_NewTx L opts d = (if IsBatch opts
     then \<lparr>btOpts = opts, btBatch = Some (bNewWriteBatch L d), btTxn = None, btEntries = []\<rparr>
     else \<lparr>btOpts = opts, btBatch = None, btTxn = Some (bNewTransaction L (\<not> IsReadOnly opts) d), btEntries = []\<rparr>)"

text \<open>A batch has no transaction of its own: the first read starts one, on the committed state.\<close>

definition ensure_txn :: "('d, 't, 'b, 'r) badger_lib \<Rightarrow> 'd \<Rightarrow> ('t, 'b, 'r) badgerTx \<Rightarrow> 't \<times> ('t, 'b, 'r) badgerTx" where
  "ensure_txn L d b = (case btTxn b of
     Some t \<Rightarrow> (t, b)
   | None \<Rightarrow> (let t = bNewTransaction L (\<not> IsReadOnly (btOpts b)) d in (t, b\<lparr>btTxn := Some t\<rparr>)))"

definition badger_Get :: "('d, 't, 'b, 'r) badger_lib \<Rightarrow> 'd \<Rightarrow> bytes \<Rightarrow> (('t, 'b, 'r) badgerTx, 'r option) eff" where
  "badger_Get L d key b = (case ensure_txn L d b of (t, b) \<Rightarrow>
     (case bTxnGet L key t of
        Inl e \<Rightarrow> (if e = ErrKeyNotFound then Inr None else Inl (Fail e), b)
      | Inr v \<Rightarrow> (Inr (Some v), b)))"

definition badger_Set :: "('d, 't, 'b, 'r) badger_lib \<Rightarrow> bytes \<Rightarrow> 'r \<Rightarrow> (('t, 'b, 'r) badgerTx, unit) eff" where
  "badger_Set L key value b =
     (let b' = b\<lparr>btEntries := btEntries b @ [\<lparr>Operation = SETOP, Key = key, Val = Some value\<rparr>]\<rparr> in
      case btBatch b of
        Some w \<Rightarrow> (case bBatchSetEntry L key value w of
            Inl e \<Rightarrow> (Inl (Fail e), b) | Inr w' \<Rightarrow> (Inr (), b'\<lparr>btBatch := Some w'\<rparr>))
      | None \<Rightarrow> (case btTxn b of
            Some t \<Rightarrow> (case bTxnSetEntry L key value t of
              Inl e \<Rightarrow> (Inl (Fail e), b) | Inr t' \<Rightarrow> (Inr (), b'\<lparr>btTxn := Some t'\<rparr>))
          | None \<Rightarrow> (Inr (), b')))"

definition badger_Delete :: "('d, 't, 'b, 'r) badger_lib \<Rightarrow> bytes \<Rightarrow> (('t, 'b, 'r) badgerTx, unit) eff" where
  "badger_Delete L key b =
     (let b' = b\<lparr>btEntries := btEntries b @ [\<lparr>Operation = DELOP, Key = key, Val = None\<rparr>]\<rparr> in
      case btBatch b of
        Some w \<Rightarrow> (case bBatchDelete L key w of
            Inl e \<Rightarrow> (Inl (Fail e), b') | Inr w' \<Rightarrow> (Inr (), b'\<lparr>btBatch := Some w'\<rparr>))
      | None \<Rightarrow> (case btTxn b of
            Some t \<Rightarrow> (case bTxnDelete L key t of
              Inl e \<Rightarrow> (Inl (Fail e), b') | Inr t' \<Rightarrow> (Inr (), b'\<lparr>btTxn := Some t'\<rparr>))
          | None \<Rightarrow> (Inl (Panic ''invalid memory address or nil pointer dereference''), b')))"

text \<open>The position: an upper bound serves as the seek key of a backwards scan.\<close>

definition badger_seek :: "iteropts \<Rightarrow> bytes option" where
  "badger_seek kopts = (if Seek kopts = None \<and> UpperBound kopts \<noteq> None \<and> Reverse kopts then UpperBound kopts else Seek kopts)"

definition badger_Valid :: "iteropts \<Rightarrow> bytes \<Rightarrow> bool" where
  "badger_Valid opts k \<longleftrightarrow>
     (case Prefix opts of Some p \<Rightarrow> HasPrefix k p | None \<Rightarrow> True) \<and>
     (case UpperBound opts of Some u \<Rightarrow> \<not> u < k | None \<Rightarrow> True)"

definition badger_scan :: "('d, 't, 'b, 'r) badger_lib \<Rightarrow> 'd \<Rightarrow> iteropts \<Rightarrow> (('t, 'b, 'r) badgerTx, 'r kvs) eff" where
  "badger_scan L d kopts b = (case ensure_txn L d b of (t, b) \<Rightarrow>
     (Inr (takeWhile (\<lambda>kv. badger_Valid kopts (fst kv)) (bTxnIterator L (Prefix kopts) (Reverse kopts) (badger_seek kopts) t)), b))"

definition badger_Rollback :: "(('t, 'b, 'r) badgerTx, unit) eff" where
  "badger_Rollback b = (Inr (), b\<lparr>btEntries := []\<rparr>)"

text \<open>What a commit publishes on the change channel comes last; it keeps its record of the entries.\<close>

definition badger_Commit :: "('d, 't, 'b, 'r) badger_lib \<Rightarrow> ('t, 'b, 'r) badgerTx \<Rightarrow> 'd \<Rightarrow> ('d \<times> 'r kvcdc list) res" where
  "badger_Commit L b d = (case btBatch b of
     Some w \<Rightarrow> lift_err (case bBatchFlush L w d of Inl e \<Rightarrow> Inl e | Inr d' \<Rightarrow> Inr (d', btEntries b))
   | None \<Rightarrow> (case btTxn b of
       Some t \<Rightarrow> lift_err (case bTxnCommit L t d of Inl e \<Rightarrow> Inl e | Inr d' \<Rightarrow> Inr (d', btEntries b))
     | None \<Rightarrow> Inr (d, btEntries b)))"

text \<open>\<open>ChangeStream\<close> hands on the published changes below a prefix until the handler stops it.\<close>

fun ChangeStream :: "bytes \<Rightarrow> ('r kvcdc \<Rightarrow> 'a \<Rightarrow> (bool \<times> 'a) res) \<Rightarrow> 'r kvcdc list \<Rightarrow> 'a \<Rightarrow> 'a res" where
  "ChangeStream p fn [] a = Inr a"
| "ChangeStream p fn (c # cs) a =
     (if HasPrefix (Key c) p
      then rbind (fn c a) (\<lambda>(continue, a). if continue then ChangeStream p fn cs a else Inr a)
      else ChangeStream p fn cs a)"

subsection \<open>TiKV\<close>

text \<open>
  Values are texts, since the cache holds texts and reads the empty one as absent. \<open>tvIter\<close> and
  \<open>tvIterReverse\<close> are the client's iterators: from a key up to a bound, and downwards from below
  a bound.
\<close>

record ('d, 't, 'c) tikv_lib =
  tvGet :: "bytes \<Rightarrow> 't \<Rightarrow> gerr + string option"
  tvSet :: "bytes \<Rightarrow> string \<Rightarrow> 't \<Rightarrow> gerr + 't"
  tvDelete :: "bytes \<Rightarrow> 't \<Rightarrow> gerr + 't"
  tvCommit :: "'t \<Rightarrow> 'd \<Rightarrow> gerr + 'd"
  tvRollback :: "'t \<Rightarrow> gerr + unit"
  tvIter :: "bytes \<Rightarrow> bytes \<Rightarrow> 't \<Rightarrow> string kvs"
  tvIterReverse :: "bytes \<Rightarrow> 't \<Rightarrow> string kvs"
  rdGet :: "'c \<Rightarrow> bytes \<Rightarrow> string"
  rdDel :: "'c \<Rightarrow> bytes \<Rightarrow> 'c"
  rdMSet :: "'c \<Rightarrow> string kvs \<Rightarrow> gerr + 'c"

record ('t, 'c) tikvTx =
  ttTxn :: 't
  ttOpts :: txopts
  ttCache :: 'c
  ttEntries :: "string kvcdc list"

definition tikv_Get :: "('d, 't, 'c) tikv_lib \<Rightarrow> bytes \<Rightarrow> (('t, 'c) tikvTx, string option) eff" where
  "tikv_Get L key t = (let val = rdGet L (ttCache t) key in
     if val \<noteq> [] then (Inr (Some val), t) else (lift_err (tvGet L key (ttTxn t)), t))"

definition writes_forbidden :: gerr where
  "writes_forbidden = Plain ''writes forbidden in read-only transaction''"

definition tikv_Set :: "('d, 't, 'c) tikv_lib \<Rightarrow> bytes \<Rightarrow> string \<Rightarrow> (('t, 'c) tikvTx, unit) eff" where
  "tikv_Set L key value t = (if IsReadOnly (ttOpts t) then (Inl (Fail writes_forbidden), t)
     else (case tvSet L key value (ttTxn t) of
       Inl e \<Rightarrow> (Inl (Fail e), t)
     | Inr x \<Rightarrow> (Inr (), t\<lparr>ttTxn := x, ttEntries := ttEntries t @ [\<lparr>Operation = SETOP, Key = key, Val = Some value\<rparr>]\<rparr>)))"

definition tikv_Delete :: "('d, 't, 'c) tikv_lib \<Rightarrow> bytes \<Rightarrow> (('t, 'c) tikvTx, unit) eff" where
  "tikv_Delete L key t = (if IsReadOnly (ttOpts t) then (Inl (Fail writes_forbidden), t)
     else (case tvDelete L key (ttTxn t) of
       Inl e \<Rightarrow> (Inl (Fail e), t)
     | Inr x \<Rightarrow> (Inr (), t\<lparr>ttTxn := x, ttCache := rdDel L (ttCache t) key,
         ttEntries := ttEntries t @ [\<lparr>Operation = DELOP, Key = key, Val = None\<rparr>]\<rparr>)))"

definition nil_bytes :: "bytes option \<Rightarrow> bytes" where
  "nil_bytes b = (case b of Some k \<Rightarrow> k | None \<Rightarrow> [])"

definition tikv_Valid :: "iteropts \<Rightarrow> bytes \<Rightarrow> bool" where
  "tikv_Valid opts k \<longleftrightarrow>
     \<not> (case Prefix opts of None \<Rightarrow> False | Some p \<Rightarrow> \<not> HasPrefix k p) \<and>
     \<not> (case UpperBound opts of None \<Rightarrow> False | Some u \<Rightarrow> u < k)"

text \<open>The seek key is used by backwards scans only.\<close>

definition tikv_scan :: "('d, 't, 'c) tikv_lib \<Rightarrow> iteropts \<Rightarrow> ('t, 'c) tikvTx \<Rightarrow> string kvs" where
  "tikv_scan L kopts t = takeWhile (\<lambda>kv. tikv_Valid kopts (fst kv))
     (if Reverse kopts
      then (if Seek kopts = None then tvIterReverse L (NextPrefix (nil_bytes (UpperBound kopts))) (ttTxn t)
            else tvIterReverse L (NextPrefix (nil_bytes (Seek kopts))) (ttTxn t))
      else tvIter L (nil_bytes (Prefix kopts)) (NextPrefix (nil_bytes (UpperBound kopts))) (ttTxn t))"

definition tikv_Rollback :: "('d, 't, 'c) tikv_lib \<Rightarrow> (('t, 'c) tikvTx, unit) eff" where
  "tikv_Rollback L t = (lift_err (tvRollback L (ttTxn t)), t\<lparr>ttEntries := []\<rparr>)"

definition cache_update :: "string kvcdc list \<Rightarrow> string kvs" where
  "cache_update es = fold (\<lambda>e m. AList.update (Key e) (case Operation e of
     SETOP \<Rightarrow> nil_bytes (Val e) | DELOP \<Rightarrow> []) m) es []"

text \<open>The committed state afterwards, and the result the caller sees.\<close>

definition tikv_Commit :: "('d, 't, 'c) tikv_lib \<Rightarrow> ('t, 'c) tikvTx \<Rightarrow> 'd \<Rightarrow> unit res \<times> ('t, 'c) tikvTx \<times> 'd" where
  "tikv_Commit L t d = (case tvCommit L (ttTxn t) d of
     Inl e \<Rightarrow> (Inl (Fail e), t, d)
   | Inr d' \<Rightarrow> (case rdMSet L (ttCache t) (cache_update (ttEntries t)) of
       Inl e \<Rightarrow> (Inl (Fail e), t, d')
     | Inr c \<Rightarrow> (Inr (), t\<lparr>ttCache := c, ttEntries := []\<rparr>, d')))"

text \<open>\<open>DropPrefix\<close> asks the client to delete from the prefix up to nil, which is no bound.\<close>

definition tikv_DropPrefix :: "(bytes \<Rightarrow> bytes option \<Rightarrow> 'd \<Rightarrow> gerr + 'd) \<Rightarrow> bytes list \<Rightarrow> 'd \<Rightarrow> 'd res" where
  "tikv_DropPrefix delete_range ps d = rfold (\<lambda>p d. lift_err (delete_range p None d)) ps d"

text \<open>The messages of the cache are decoded without a look at the error.\<close>

definition tikv_ChangeStream ::
  "('m \<Rightarrow> string kvcdc) \<Rightarrow> bytes \<Rightarrow> (string kvcdc \<Rightarrow> 'a \<Rightarrow> (bool \<times> 'a) res) \<Rightarrow> 'm list \<Rightarrow> 'a \<Rightarrow> 'a res" where
  "tikv_ChangeStream unmarshal p fn messages = ChangeStream p fn (map unmarshal messages)"

definition deletes_ranges :: "(bytes \<Rightarrow> bytes option \<Rightarrow> 'd \<Rightarrow> gerr + 'd) \<Rightarrow> ('d \<Rightarrow> bytes \<Rightarrow> 'v option) \<Rightarrow> bool" where
  "deletes_ranges delete_range get \<longleftrightarrow> (\<forall>a b d d'. delete_range a b d = Inr d' \<longrightarrow>
     (\<forall>k. get d' k = (if a \<le> k \<and> (case b of None \<Rightarrow> True | Some u \<Rightarrow> k < u) then None else get d k)))"

lemma tikv_drops_everything_above:
  assumes "deletes_ranges delete_range get" "tikv_DropPrefix delete_range [p] d = Inr d'" "p \<le> k"
  shows "get d' k = None"
  using assms by (auto simp: tikv_DropPrefix_def deletes_ranges_def rbind_eq_Inr)

subsection \<open>The contract\<close>

text \<open>
  What the documentation of badger says of a transaction: reads see its own writes, a missing
  key is \<open>ErrKeyNotFound\<close>, and an iterator stands at the first key not below the seek key (not
  above it when it runs backwards).
\<close>

definition badger_laws :: "('d, 't, 'b, 'r) badger_lib \<Rightarrow> ('t \<Rightarrow> 'r kvs) \<Rightarrow> bool" where
  "badger_laws L titems \<longleftrightarrow>
     (\<forall>k t. bTxnGet L k t = (case map_of (titems t) k of Some v \<Rightarrow> Inr v | None \<Rightarrow> Inl ErrKeyNotFound)) \<and>
     (\<forall>k v t t'. bTxnSetEntry L k v t = Inr t' \<longrightarrow> map_of (titems t') = (map_of (titems t))(k \<mapsto> v)) \<and>
     (\<forall>k t t'. bTxnDelete L k t = Inr t' \<longrightarrow> map_of (titems t') = (map_of (titems t))(k := None)) \<and>
     (\<forall>p r k t. bTxnIterator L p r (Some k) t = (if r then dropWhile (\<lambda>kv. k < fst kv) (rev (titems t)) else dropWhile (\<lambda>kv. fst kv < k) (titems t))) \<and>
     (\<forall>p t. bTxnIterator L (Some p) False None t = dropWhile (\<lambda>kv. fst kv < p) (titems t))"

lemma badger_Valid_iff: "badger_Valid opts k \<longleftrightarrow> iter_valid opts k"
  by (auto simp: badger_Valid_def iter_valid_def HasPrefix_def prefix_def split: option.splits)

lemma badger_scan_kv_scan:
  assumes L: "badger_laws L titems" and b: "btTxn b = Some t" and start: "iter_start opts \<noteq> None"
  shows "badger_scan L d opts b = (Inr (kv_scan opts (titems t)), b)"
proof -
  have "bTxnIterator L (Prefix opts) (Reverse opts) (badger_seek opts) t = iter_from opts (titems t)"
    using L start
    by (auto simp: badger_laws_def badger_seek_def iter_from_def iter_start_def split: option.splits if_splits)
  then show ?thesis
    by (simp add: badger_scan_def ensure_txn_def b kv_scan_def badger_Valid_iff)
qed

text \<open>
  C38: on a transaction that is not a batch, \<open>badgerTx\<close> keeps the contract of \<open>kv.Tx\<close>: a read
  returns what the transaction holds (nil for an absent key) and changes nothing, a write is
  seen by the next read, and a scan visits the items from the seek key on, in order, while
  they carry the prefix.
\<close>

theorem badger_tx_contract:
  assumes "badger_laws L titems" and "btBatch b = None" and "btTxn b = Some t"
  shows "badger_Get L d key b = (Inr (map_of (titems t) key), b) \<and>
    (iter_start opts \<noteq> None \<longrightarrow> badger_scan L d opts b = (Inr (kv_scan opts (titems t)), b)) \<and>
    (\<forall>b'. badger_Set L key v b = (Inr (), b') \<longrightarrow> (\<forall>k. fst (badger_Get L d k b') = Inr (((map_of (titems t))(key \<mapsto> v)) k))) \<and>
    (\<forall>b'. badger_Delete L key b = (Inr (), b') \<longrightarrow> (\<forall>k. fst (badger_Get L d k b') = Inr (((map_of (titems t))(key := None)) k)))"
proof -
  have get: "badger_Get L d k c = (Inr (map_of (titems u) k), c)" if "btTxn c = Some u" for c k u
    using assms(1) that by (auto simp: badger_Get_def ensure_txn_def badger_laws_def split: option.splits)
  show ?thesis
  proof (intro conjI allI impI)
    show "badger_Get L d key b = (Inr (map_of (titems t) key), b)" by (rule get [OF assms(3)])
    show "iter_start opts \<noteq> None \<Longrightarrow> badger_scan L d opts b = (Inr (kv_scan opts (titems t)), b)"
      by (rule badger_scan_kv_scan [OF assms(1,3)])
  next
    fix b' k assume "badger_Set L key v b = (Inr (), b')"
    then obtain t' where "bTxnSetEntry L key v t = Inr t'" "btTxn b' = Some t'"
      using assms(2,3) by (auto simp: badger_Set_def Let_def split: sum.splits)
    then show "fst (badger_Get L d k b') = Inr (((map_of (titems t))(key \<mapsto> v)) k)"
      using get assms(1) by (simp add: badger_laws_def)
  next
    fix b' k assume "badger_Delete L key b = (Inr (), b')"
    then obtain t' where "bTxnDelete L key t = Inr t'" "btTxn b' = Some t'"
      using assms(2,3) by (auto simp: badger_Delete_def Let_def split: sum.splits)
    then show "fst (badger_Get L d k b') = Inr (((map_of (titems t))(key := None)) k)"
      using get assms(1) by (simp add: badger_laws_def)
  qed
qed

text \<open>A library that keeps the transaction and the batch as lists.\<close>

definition list_badger :: "(string kvs, string kvs, string kvs, string) badger_lib" where
  "list_badger = \<lparr>bNewTransaction = (\<lambda>u d. d),
     bTxnGet = (\<lambda>k t. case map_of t k of Some v \<Rightarrow> Inr v | None \<Rightarrow> Inl ErrKeyNotFound),
     bTxnSetEntry = (\<lambda>k v t. Inr (AList.update k v t)), bTxnDelete = (\<lambda>k t. Inr (AList.delete k t)),
     bTxnCommit = (\<lambda>t d. Inr t),
     bTxnIterator = (\<lambda>p r s t. case s of
        Some k \<Rightarrow> (if r then dropWhile (\<lambda>kv. k < fst kv) (rev t) else dropWhile (\<lambda>kv. fst kv < k) t)
      | None \<Rightarrow> (case p of Some q \<Rightarrow> dropWhile (\<lambda>kv. fst kv < q) t | None \<Rightarrow> t)),
     bNewWriteBatch = (\<lambda>d. []), bBatchSetEntry = (\<lambda>k v w. Inr (AList.update k v w)),
     bBatchDelete = (\<lambda>k w. Inr (AList.delete k w)), bBatchFlush = (\<lambda>w d. Inr (AList.merge d w))\<rparr>"

lemma list_badger_laws: "badger_laws list_badger (\<lambda>t. t)"
  by (auto simp: badger_laws_def list_badger_def update_conv' delete_conv' split: option.splits)

theorem badger_tx_contract_witness:
  "badger_Get list_badger [] ''k'' \<lparr>btOpts = \<lparr>IsReadOnly = False, IsBatch = False\<rparr>, btBatch = None,
     btTxn = Some [(''k'', ''v'')], btEntries = []\<rparr> = (Inr (Some ''v''), \<lparr>btOpts = \<lparr>IsReadOnly = False, IsBatch = False\<rparr>,
     btBatch = None, btTxn = Some [(''k'', ''v'')], btEntries = []\<rparr>)"
  using badger_tx_contract [OF list_badger_laws, of "\<lparr>btOpts = \<lparr>IsReadOnly = False, IsBatch = False\<rparr>, btBatch = None,
     btTxn = Some [(''k'', ''v'')], btEntries = []\<rparr>"] by simp

text \<open>
  In a batch the contract does not hold: a read never sees what the batch has written, it
  answers as if the write had not been made.
\<close>

lemma badger_batch_reads_miss:
  assumes "btBatch b = Some w" and "badger_Set L key v b = (Inr (), b')"
  shows "fst (badger_Get L d k b') = fst (badger_Get L d k b)"
proof -
  from assms have "btTxn b' = btTxn b" "btOpts b' = btOpts b"
    by (auto simp: badger_Set_def Let_def split: sum.splits)
  then show ?thesis
    by (auto simp: badger_Get_def ensure_txn_def Let_def split: option.splits sum.splits)
qed

lemma badger_batch_reads_miss_witness:
  "fst (badger_Get list_badger [] ''k'' (snd (badger_Set list_badger ''k'' ''v''
     (badger_NewTx list_badger \<lparr>IsReadOnly = False, IsBatch = True\<rparr> [])))) = Inr None"
proof -
  let ?b = "badger_NewTx list_badger \<lparr>IsReadOnly = False, IsBatch = True\<rparr> []"
  have "fst (badger_Get list_badger [] ''k'' (snd (badger_Set list_badger ''k'' ''v'' ?b))) = fst (badger_Get list_badger [] ''k'' ?b)"
    by (rule badger_batch_reads_miss [of _ "[]" _ "''k''" "''v''"])
      (simp_all add: badger_NewTx_def list_badger_def badger_Set_def Let_def)
  then show ?thesis
    by (simp add: badger_NewTx_def list_badger_def badger_Get_def ensure_txn_def Let_def)
qed

text \<open>
  \<open>tikvTx\<close> does not keep it either: as long as the cache holds a value for a key, a \<open>Get\<close>
  after a \<open>Set\<close> of the same transaction returns that value and not the one just written.
\<close>

lemma tikv_get_stale:
  assumes "rdGet L (ttCache t) key = cached" and "cached \<noteq> []" and "tikv_Set L key v t = (Inr (), t')"
  shows "fst (tikv_Get L key t') = Inr (Some cached)"
proof -
  from assms(3) have "ttCache t' = ttCache t" by (auto simp: tikv_Set_def split: if_splits sum.splits)
  with assms(1,2) show ?thesis by (simp add: tikv_Get_def Let_def)
qed

definition list_tikv :: "bool \<Rightarrow> (string kvs, string kvs, string kvs) tikv_lib" where
  "list_tikv redis_up = \<lparr>tvGet = (\<lambda>k t. Inr (map_of t k)), tvSet = (\<lambda>k v t. Inr (AList.update k v t)),
     tvDelete = (\<lambda>k t. Inr (AList.delete k t)), tvCommit = (\<lambda>t d. Inr t), tvRollback = (\<lambda>t. Inr ()),
     tvIter = (\<lambda>p u t. filter (\<lambda>kv. p \<le> fst kv) t), tvIterReverse = (\<lambda>u t. filter (\<lambda>kv. fst kv < u) (rev t)),
     rdGet = (\<lambda>c k. case map_of c k of Some v \<Rightarrow> v | None \<Rightarrow> []), rdDel = (\<lambda>c k. AList.delete k c),
     rdMSet = (\<lambda>c kvs. if redis_up then Inr (AList.merge c kvs) else Inl (Plain ''connection refused''))\<rparr>"

definition tikv_open :: "(string kvs, string kvs) tikvTx" where
  "tikv_open = \<lparr>ttTxn = [(''k'', ''old'')], ttOpts = \<lparr>IsReadOnly = False, IsBatch = False\<rparr>, ttCache = [(''k'', ''old'')], ttEntries = []\<rparr>"

lemma tikv_get_stale_witness:
  "fst (tikv_Get (list_tikv True) ''k'' (snd (tikv_Set (list_tikv True) ''k'' ''new'' tikv_open))) = Inr (Some ''old'')"
  by (rule tikv_get_stale [of _ tikv_open _ _ "''new''"])
    (simp_all add: list_tikv_def tikv_open_def tikv_Set_def)

lemma tikv_commit_fails_late:
  assumes "tvCommit L (ttTxn t) d = Inr d'" and "rdMSet L (ttCache t) (cache_update (ttEntries t)) = Inl e"
  shows "tikv_Commit L t d = (Inl (Fail e), t, d')"
  using assms by (simp add: tikv_Commit_def)

end
