(* ===== verification/Database.thy ===== *)
theory Database
  imports Operations Backends
begin

text \<open>
  The operations of the database itself (\<open>db.go\<close>): a function runs in a transaction that is
  committed when it succeeds and rolled back when it fails; \<open>Get\<close>, \<open>BatchGet\<close>, \<open>Query\<close> and
  \<open>ForEach\<close> are read-only transactions.
  The committed state and the counter of the clock and the id generator make up \<open>db_state\<close>; the
  JavaScript machine a transaction starts with comes from a pool and is an argument.
\<close>

record 'd db_state =
  stD :: 'd
  stTick :: nat

definition NewTx ::
  "('d, 's, 'r) kv_db \<Rightarrow> 'r globals \<Rightarrow> txopts \<Rightarrow> 'd db_state \<Rightarrow> ('s, 'r) txn res" where
  "NewTx K vm opts st = rbind (dbNewTx K opts (stD st)) (\<lambda>s.
     Inr \<lparr>tKV = s, tCDC = [], tVM = vm, tDocs = [], tTick = stTick st\<rparr>)"

text \<open>\<open>Commit\<close> and \<open>Rollback\<close> of a transaction; the recorded changes go when they succeed.\<close>

definition tx_Commit :: "('d, 's, 'r) kv_db \<Rightarrow> (('s, 'r) txn \<times> 'd, unit) eff" where
  "tx_Commit K td = (case td of (t, d) \<Rightarrow> (case dbCommit K (tKV t) d of
     (Inl e, d') \<Rightarrow> (Inl e, t, d') | (Inr _, d') \<Rightarrow> (Inr (), t\<lparr>tCDC := []\<rparr>, d')))"

definition tx_Rollback :: "('d, 's, 'r) kv_db \<Rightarrow> (('s, 'r) txn \<times> 'd, unit) eff" where
  "tx_Rollback K td = (case td of (t, d) \<Rightarrow> (case dbRollback K (tKV t) of
     Inl e \<Rightarrow> (Inl e, t, d) | Inr _ \<Rightarrow> (Inr (), t\<lparr>tCDC := []\<rparr>, d)))"

text \<open>The error after a rollback, which has an error of its own or not.\<close>

definition rolled_back :: "('d, 's, 'r) kv_db \<Rightarrow> string \<Rightarrow> gerr \<Rightarrow> ('s, 'r) txn \<Rightarrow> 'd \<Rightarrow> failure" where
  "rolled_back K msg e t d = (case tx_Rollback K (t, d) of
     (Inl (Fail re), _) \<Rightarrow> Fail (wrap e 0 (''failed to rollback transaction: '' @ error_text re))
   | (Inl p, _) \<Rightarrow> p
   | (Inr _, _) \<Rightarrow> Fail (wrap e 0 msg))"

text \<open>The function may run other transactions of the database: it also has the database's state.\<close>

definition Tx_over ::
  "('d, 's, 'r) kv_db \<Rightarrow> 'r globals \<Rightarrow> txopts \<Rightarrow> (('s, 'r) txn \<times> 'd db_state, 'a) eff \<Rightarrow> ('d db_state, 'a) eff" where
  "Tx_over K vm opts fn st = (case NewTx K vm opts st of
     Inl e \<Rightarrow> (Inl e, st)
   | Inr t \<Rightarrow> (case fn (t, st) of
       (Inl (Fail e), t', st') \<Rightarrow> (Inl (rolled_back K ''tx: rolled back transaction'' e t' (stD st')), st'\<lparr>stTick := tTick t'\<rparr>)
     | (Inl p, t', st') \<Rightarrow> (Inl p, st'\<lparr>stTick := tTick t'\<rparr>)
     | (Inr a, t', st') \<Rightarrow> (case tx_Commit K (t', stD st') of
         (Inl (Fail e), t'', d') \<Rightarrow>
           (Inl (rolled_back K ''tx: failed to commit transaction - rolled back'' e t'' d'), \<lparr>stD = d', stTick = tTick t''\<rparr>)
       | (Inl p, t'', d') \<Rightarrow> (Inl p, \<lparr>stD = d', stTick = tTick t''\<rparr>)
       | (Inr _, t'', d') \<Rightarrow> (Inr a, \<lparr>stD = d', stTick = tTick t''\<rparr>))))"

definition db_Tx ::
  "('d, 's, 'r) kv_db \<Rightarrow> 'r globals \<Rightarrow> txopts \<Rightarrow> ('s, 'r, 'a) tx \<Rightarrow> ('d db_state, 'a) eff" where
  "db_Tx K vm opts fn = Tx_over K vm opts (\<lambda>(t, st). case fn t of (r, t') \<Rightarrow> (r, t', st))"

lemma db_Tx_eq:
  "db_Tx K vm opts fn st = (case NewTx K vm opts st of
     Inl e \<Rightarrow> (Inl e, st)
   | Inr t \<Rightarrow> (case fn t of
       (Inl (Fail e), t') \<Rightarrow> (Inl (rolled_back K ''tx: rolled back transaction'' e t' (stD st)), st\<lparr>stTick := tTick t'\<rparr>)
     | (Inl p, t') \<Rightarrow> (Inl p, st\<lparr>stTick := tTick t'\<rparr>)
     | (Inr a, t') \<Rightarrow> (case tx_Commit K (t', stD st) of
         (Inl (Fail e), t'', d') \<Rightarrow>
           (Inl (rolled_back K ''tx: failed to commit transaction - rolled back'' e t'' d'), \<lparr>stD = d', stTick = tTick t''\<rparr>)
       | (Inl p, t'', d') \<Rightarrow> (Inl p, \<lparr>stD = d', stTick = tTick t''\<rparr>)
       | (Inr _, t'', d') \<Rightarrow> (Inr a, \<lparr>stD = d', stTick = tTick t''\<rparr>))))"
  by (simp add: db_Tx_def Tx_over_def split: sum.splits prod.splits failure.splits)

definition read_only :: txopts where
  "read_only = \<lparr>IsReadOnly = True, IsBatch = False\<rparr>"

definition read_write :: txopts where
  "read_write = \<lparr>IsReadOnly = False, IsBatch = False\<rparr>"

subsection \<open>Reads\<close>

definition db_Get ::
  "('s, 'r) env \<Rightarrow> ('d, 's, 'r) kv_db \<Rightarrow> nat \<Rightarrow> 'r globals \<Rightarrow> 'r ctx \<Rightarrow> string \<Rightarrow> string \<Rightarrow> ('d db_state, 'r) eff" where
  "db_Get E K n vm cx collection docID = db_Tx K vm read_only (tx_get E n cx collection docID)"

definition BatchGet ::
  "('s, 'r) env \<Rightarrow> ('d, 's, 'r) kv_db \<Rightarrow> nat \<Rightarrow> 'r globals \<Rightarrow> 'r ctx \<Rightarrow> string \<Rightarrow> string list \<Rightarrow> ('d db_state, 'r list) eff" where
  "BatchGet E K n vm cx collection ids = db_Tx K vm read_only
     (efold (\<lambda>docID documents. ebind (tx_get E n cx collection docID) (\<lambda>d. ret (documents @ [d]))) ids [])"

definition db_Query ::
  "('s, 'r) env \<Rightarrow> ('d, 's, 'r) kv_db \<Rightarrow> nat \<Rightarrow> 'r globals \<Rightarrow> 'r ctx \<Rightarrow> string \<Rightarrow> query \<Rightarrow> ('d db_state, 'r page) eff" where
  "db_Query E K n vm cx collection q = db_Tx K vm read_only (tx_query E n cx collection (with_select q))"

definition db_ForEach ::
  "('s, 'r) env \<Rightarrow> ('d, 's, 'r) kv_db \<Rightarrow> nat \<Rightarrow> 'r globals \<Rightarrow> 'r ctx \<Rightarrow> string \<Rightarrow> where_c list \<Rightarrow> join_c list
     \<Rightarrow> ('r \<Rightarrow> 'a \<Rightarrow> ('s, 'r, bool \<times> 'a) tx) \<Rightarrow> 'a \<Rightarrow> ('d db_state, explain \<times> 'a) eff" where
  "db_ForEach E K n vm cx collection ws js f a = db_Tx K vm read_only (ForEach E n cx collection ws js f a)"

subsection \<open>All or nothing\<close>

lemma db_Tx_Inr_iff: "db_Tx K vm opts fn st = (Inr a, st') \<longleftrightarrow>
    (\<exists>s t' d'. dbNewTx K opts (stD st) = Inr s \<and>
       fn \<lparr>tKV = s, tCDC = [], tVM = vm, tDocs = [], tTick = stTick st\<rparr> = (Inr a, t') \<and>
       dbCommit K (tKV t') (stD st) = (Inr (), d') \<and> st' = \<lparr>stD = d', stTick = tTick t'\<rparr>)"
  by (auto simp: db_Tx_eq NewTx_def tx_Commit_def rbind_def split: sum.splits prod.splits failure.splits)


lemma mem_commit_total: "\<forall>s d e d'. dbCommit mem_db s d = (Inl e, d') \<longrightarrow> d' = d"
  by (simp add: mem_db_def)


text \<open>TiKV as a database: the operations of its transactions, and a client that begins them.\<close>

definition tikv_ops :: "('d, 't, 'c) tikv_lib \<Rightarrow> (('t, 'c) tikvTx, string) kv_ops" where
  "tikv_ops L = \<lparr>opGet = (\<lambda>k t. fst (tikv_Get L k t)),
     opSet = (\<lambda>k v t. case tikv_Set L k v t of (Inl e, _) \<Rightarrow> Inl e | (Inr _, t') \<Rightarrow> Inr t'),
     opDel = (\<lambda>k t. case tikv_Delete L k t of (Inl e, _) \<Rightarrow> Inl e | (Inr _, t') \<Rightarrow> Inr t'),
     opIter = (\<lambda>opts t. Inr (tikv_scan L opts t))\<rparr>"

definition tikv_NewTx ::
  "('d \<Rightarrow> gerr + 't) \<Rightarrow> ('t \<Rightarrow> bool) \<Rightarrow> 'c \<Rightarrow> txopts \<Rightarrow> 'd \<Rightarrow> ('t, 'c) tikvTx res" where
  "tikv_NewTx begin_txn valid cache opts d = rbind (lift_err (begin_txn d)) (\<lambda>t.
     if \<not> valid t then Inl (Fail (Plain ''invalid transaction''))
     else Inr \<lparr>ttTxn = t, ttOpts = opts, ttCache = cache, ttEntries = []\<rparr>)"

definition tikv_db ::
  "('d, 't, 'c) tikv_lib \<Rightarrow> (txopts \<Rightarrow> 'd \<Rightarrow> ('t, 'c) tikvTx res) \<Rightarrow> (bytes \<Rightarrow> bytes option \<Rightarrow> 'd \<Rightarrow> gerr + 'd)
    \<Rightarrow> ('d, ('t, 'c) tikvTx, string) kv_db" where
  "tikv_db L begin_tx delete_range = \<lparr>dbOps = tikv_ops L, dbNewTx = begin_tx,
     dbCommit = (\<lambda>t d. case tikv_Commit L t d of (r, _, d') \<Rightarrow> (r, d')),
     dbRollback = (\<lambda>t. fst (tikv_Rollback L t)), dbDropPrefix = tikv_DropPrefix delete_range\<rparr>"

text \<open>
  Over TiKV a commit that fails can have committed: when the store commits and the cache
  then cannot be written, the caller is told that the transaction was rolled back, while its
  writes are in the committed state.
\<close>

lemma tikv_false_rollback:
  assumes "begin_tx opts (stD st) = Inr s"
    and "fn \<lparr>tKV = s, tCDC = [], tVM = vm, tDocs = [], tTick = stTick st\<rparr> = (Inr a, t)"
    and "tvCommit L (ttTxn (tKV t)) (stD st) = Inr d" and "tvRollback L (ttTxn (tKV t)) = Inr ()"
    and "rdMSet L (ttCache (tKV t)) (cache_update (ttEntries (tKV t))) = Inl e"
  shows "db_Tx (tikv_db L begin_tx delete_range) vm opts fn st =
    (Inl (Fail (wrap e 0 ''tx: failed to commit transaction - rolled back'')), \<lparr>stD = d, stTick = tTick t\<rparr>)"
  using assms tikv_commit_fails_late [OF assms(3,5)]
  by (simp add: db_Tx_eq NewTx_def tikv_db_def tx_Commit_def rolled_back_def tx_Rollback_def tikv_Rollback_def)

lemma tikv_false_rollback_witness:
  "snd (db_Tx (tikv_db (list_tikv False) (tikv_NewTx (\<lambda>d. Inr [(''k'', ''old'')]) (\<lambda>t. True) [(''k'', ''old'')]) (\<lambda>a b. Inr)) no_globals read_write
     (\<lambda>t. case tikv_Set (list_tikv False) ''k'' ''new'' (tKV t) of (r, s) \<Rightarrow> (r, t\<lparr>tKV := s\<rparr>)) \<lparr>stD = [], stTick = 0\<rparr>)
    = \<lparr>stD = [(''k'', ''new'')], stTick = 0\<rparr>"
proof -
  let ?fn = "\<lambda>t. case tikv_Set (list_tikv False) ''k'' ''new'' (tKV t) of (r, s) \<Rightarrow> (r, t\<lparr>tKV := s\<rparr>)"
  let ?t = "\<lparr>tKV = snd (tikv_Set (list_tikv False) ''k'' ''new'' tikv_open), tCDC = [], tVM = no_globals, tDocs = [], tTick = 0\<rparr> :: ((string kvs, string kvs) tikvTx, string) txn"
  have "db_Tx (tikv_db (list_tikv False) (tikv_NewTx (\<lambda>d. Inr [(''k'', ''old'')]) (\<lambda>t. True) [(''k'', ''old'')]) (\<lambda>a b. Inr)) no_globals read_write ?fn \<lparr>stD = [], stTick = 0\<rparr> =
    (Inl (Fail (wrap (Plain ''connection refused'') 0 ''tx: failed to commit transaction - rolled back'')),
     \<lparr>stD = [(''k'', ''new'')], stTick = tTick ?t\<rparr>)"
    by (rule tikv_false_rollback [where s = tikv_open and t = ?t and a = "()"])
      (simp_all add: list_tikv_def tikv_open_def tikv_Set_def tikv_NewTx_def read_write_def)
  then show ?thesis by simp
qed

subsection \<open>Reading back what was written\<close>

lemma mem_view_new: "mem.view \<lparr>mt_opts = opts, mt_data = d\<rparr> = map_of d"
  by (simp add: mem.view_def map_of_sort_clearjunk)

lemma mem_view_data: "map_of (mt_data s) = mem.view s"
  by (simp add: mem.view_def map_of_sort_clearjunk)

text \<open>The map from ids to documents that the committed state stands for, and its invariant.\<close>

definition db_docs :: "('r memtx, 'r) env \<Rightarrow> 'r ctx \<Rightarrow> 'r schema \<Rightarrow> 'r kvs db_state \<Rightarrow> string \<Rightarrow> 'r option" where
  "db_docs E cx c st = docs E (namespace (enJ E) cx) c (map_of (stD st))"

definition db_in_order :: "('r memtx, 'r) env \<Rightarrow> 'r ctx \<Rightarrow> 'r schema \<Rightarrow> 'r kvs db_state \<Rightarrow> bool" where
  "db_in_order E cx c st \<longleftrightarrow> consistent E (namespace (enJ E) cx) c (map_of (stD st))"

lemma db_Tx_mem:
  assumes "db_Tx mem_db vm opts fn st = (Inr a, st')"
  obtains t t' where "fn t = (Inr a, t')" "in_order E cx c t \<longleftrightarrow> db_in_order E cx c st" "stored E cx c t = db_docs E cx c st"
    "in_order E cx c t' \<longleftrightarrow> db_in_order E cx c st'" "stored E cx c t' = db_docs E cx c st'"
proof -
  from assms obtain s t' d' where s: "dbNewTx mem_db opts (stD st) = Inr s"
    "fn \<lparr>tKV = s, tCDC = [], tVM = vm, tDocs = [], tTick = stTick st\<rparr> = (Inr a, t')"
    "dbCommit mem_db (tKV t') (stD st) = (Inr (), d')" "st' = \<lparr>stD = d', stTick = tTick t'\<rparr>"
    unfolding db_Tx_Inr_iff by blast
  have v: "mem.view s = map_of (stD st)" "map_of d' = mem.view (tKV t')"
    using s(1,3) by (auto simp: mem_db_def mem_view_new mem_view_data)
  show thesis
    by (rule that [OF s(2)]) (simp_all add: in_order_def stored_def db_in_order_def db_docs_def v s(4))
qed

lemma db_Get_lookup:
  assumes "user_collection E cx collection c" "db_in_order E cx c st" "good_id docID"
  shows "fst (db_Get E mem_db (Suc n) vm cx collection docID st) = (case db_docs E cx c st docID of
    Some d \<Rightarrow> Inr d
  | None \<Rightarrow> Inl (Fail (wrap (New NotFound (docID @ '' not found'')) 0 ''tx: rolled back transaction'')))"
proof -
  let ?t = "\<lparr>tKV = \<lparr>mt_opts = read_only, mt_data = stD st\<rparr>, tCDC = [], tVM = vm, tDocs = [], tTick = stTick st\<rparr>"
  have ord: "in_order E cx c ?t" using assms(2) by (simp add: in_order_def db_in_order_def mem_view_new)
  obtain cx1 where g: "getSchema E cx collection = Some (c, cx1)" "scCollection c = collection"
    and kv: "enKV E = \<lparr>opGet = mem_get, opSet = mem_set, opDel = mem_delete, opIter = mem_iter\<rparr>"
    by (rule user_collectionE [OF assms(1)])
  have plain: "plain_reads E cx c" using assms(1) by (simp add: user_collection_def plain_writes_def)
  have "tx_get E (Suc n) cx collection docID ?t = (case db_docs E cx c st docID of
    Some d \<Rightarrow> (Inr d, ?t) | None \<Rightarrow> (fail NotFound (docID @ '' not found''), ?t))"
    using mem.tx_get_docs [OF kv g plain assms(3) in_order_docs [OF ord], of n]
    by (simp add: db_docs_def mem_view_new)
  then show ?thesis
    by (auto simp: db_Get_def db_Tx_eq NewTx_def mem_db_def tx_Commit_def rolled_back_def tx_Rollback_def fail_def
        split: option.splits)
qed

text \<open>
  C15: what a committed \<open>Set\<close> stored is what \<open>Get\<close> returns from then on, in a transaction of its
  own; a \<open>Get\<close> of every other id answers as before.
\<close>

theorem db_set_then_get:
  assumes "user_collection E cx collection c" and "db_in_order E cx c st"
    and "GetPrimaryKey (enJ E) c document = docID" and "good_id docID"
    and "db_Tx mem_db vm read_write (tx_Set E (Suc (Suc n)) cx collection document) st = (Inr d, st')"
    and "stored_doc E c docID d" and "good_id i"
  shows "fst (db_Get E mem_db (Suc m) vm' cx collection i st') =
    (if i = docID then Inr d else fst (db_Get E mem_db (Suc m) vm' cx collection i st))"
proof -
  obtain t t' where t: "tx_Set E (Suc (Suc n)) cx collection document t = (Inr d, t')" "in_order E cx c t" "stored E cx c t = db_docs E cx c st"
    "in_order E cx c t' \<longleftrightarrow> db_in_order E cx c st'" "stored E cx c t' = db_docs E cx c st'"
    using db_Tx_mem [OF assms(5), of E cx c] assms(2) by metis
  from set_put [OF assms(1) t(2) assms(3,4) t(1) assms(6)] t(3-5)
  have "db_docs E cx c st' = (db_docs E cx c st)(docID \<mapsto> d)" "db_in_order E cx c st'" by simp_all
  then show ?thesis
    by (simp add: db_Get_lookup [OF assms(1) _ assms(7)] assms(2))
qed

lemma db_set_ann: "fst (db_Tx mem_db no_globals read_write (tx_Set user_env 3 user_ctx ''user'' ann) \<lparr>stD = [], stTick = 0\<rparr>) = Inr ann"
  by code_simp

lemma empty_in_order: "db_in_order E cx c \<lparr>stD = [], stTick = n\<rparr>" "db_docs E cx c \<lparr>stD = [], stTick = n\<rparr> docID = None"
  by (simp_all add: db_in_order_def consistent_def docs_ok_def index_ok_def db_docs_def docs_def)

theorem db_set_then_get_witness:
  "fst (db_Get user_env mem_db (Suc 1) no_globals user_ctx ''user'' ''a''
     (snd (db_Tx mem_db no_globals read_write (tx_Set user_env (Suc (Suc 1)) user_ctx ''user'' ann) \<lparr>stD = [], stTick = 0\<rparr>))) = Inr ann"
proof -
  let ?run = "db_Tx mem_db no_globals read_write (tx_Set user_env (Suc (Suc 1)) user_ctx ''user'' ann) \<lparr>stD = [], stTick = 0\<rparr>"
  have run: "?run = (Inr ann, snd ?run)" using db_set_ann by (simp add: numeral_3_eq_3 prod_eq_iff)
  have pk: "GetPrimaryKey (enJ user_env) user_schema ann = ''a''" using witness_ids(2) by (simp add: user_env_def flat_env_def)
  from db_set_then_get [OF plain_schema_writes(1) empty_in_order(1) pk witness_ids(1) run witness_ids(4,1)] show ?thesis by simp
qed

subsection \<open>Histories\<close>

text \<open>
  Any sequence of transactions on a collection: sets, creates and deletes that are committed,
  queries, and transactions of any kind that fail.
\<close>

inductive history :: "('r memtx, 'r) env \<Rightarrow> 'r ctx \<Rightarrow> string \<Rightarrow> 'r schema \<Rightarrow> 'r kvs db_state \<Rightarrow> 'r kvs db_state \<Rightarrow> bool"
  for E cx collection c where
  start: "history E cx collection c st st"
| set_done: "history E cx collection c st st1 \<Longrightarrow> good_id (GetPrimaryKey (enJ E) c document) \<Longrightarrow>
    db_Tx mem_db vm opts (tx_Set E (Suc (Suc n)) cx collection document) st1 = (Inr d, st2) \<Longrightarrow>
    stored_doc E c (GetPrimaryKey (enJ E) c document) d \<Longrightarrow> history E cx collection c st st2"
| create_done: "history E cx collection c st st1 \<Longrightarrow> good_id (GetPrimaryKey (enJ E) c document) \<Longrightarrow>
    db_Tx mem_db vm opts (Create E (Suc (Suc n)) cx collection document) st1 = (Inr (docID, d), st2) \<Longrightarrow>
    stored_doc E c (GetPrimaryKey (enJ E) c document) d \<Longrightarrow> history E cx collection c st st2"
| delete_done: "history E cx collection c st st1 \<Longrightarrow> good_id docID \<Longrightarrow>
    NewDocumentFrom (enJ E) [(PrimaryKey c, AStr docID)] = Inr d0 \<Longrightarrow> GetPrimaryKey (enJ E) c d0 = docID \<Longrightarrow>
    db_Tx mem_db vm opts (Delete E (Suc (Suc n)) cx collection docID) st1 = (Inr (), st2) \<Longrightarrow> history E cx collection c st st2"
| query_done: "history E cx collection c st st1 \<Longrightarrow>
    db_Query E mem_db n vm cx' other q st1 = (r, st2) \<Longrightarrow> history E cx collection c st st2"
| failed: "history E cx collection c st st1 \<Longrightarrow> db_Tx mem_db vm opts (fn :: ('r memtx, 'r, unit) tx) st1 = (Inl e, st2) \<Longrightarrow> history E cx collection c st st2"

lemma failed_keeps: "db_Tx mem_db vm opts fn st = (Inl e, st') \<Longrightarrow> stD st' = stD st"
  by (auto simp: db_Tx_eq NewTx_def tx_Commit_def mem_db_def rbind_def split: sum.splits prod.splits failure.splits)

lemma query_keeps:
  assumes "db_Query E mem_db n vm cx collection q st = (Inr p, st')"
  shows "map_of (stD st') = map_of (stD st)"
proof -
  from assms obtain s t' d' where s: "dbNewTx mem_db read_only (stD st) = Inr s"
    "tx_query E n cx collection (with_select q) \<lparr>tKV = s, tCDC = [], tVM = vm, tDocs = [], tTick = stTick st\<rparr> = (Inr p, t')"
    "dbCommit mem_db (tKV t') (stD st) = (Inr (), d')" "st' = \<lparr>stD = d', stTick = tTick t'\<rparr>"
    unfolding db_Query_def db_Tx_Inr_iff by blast
  have "tKV t' = s" using same_kv.keeps_run [OF same_kv.keeps_query s(2)] by (simp add: kvrel_def)
  moreover have "mt_data s = stD st" using s(1) by (auto simp: mem_db_def)
  moreover have "d' = mt_data (tKV t')" using s(3) by (simp add: mem_db_def)
  ultimately show ?thesis using s(4) by simp
qed

text \<open>
  C8: after any history of transactions (committed sets, creates and deletes on the collection, queries on
  any, failed functions) that starts in order, as an empty database does, the collection is in
  order: every stored document can be found under its id, and every secondary index holds
  exactly one entry for every document.
\<close>

theorem history_in_order:
  assumes "user_collection E cx collection c" and "unreferenced E collection"
    and "history E cx collection c st st'" and "db_in_order E cx c st"
  shows "db_in_order E cx c st'"
  using assms(3,4)
proof (induction rule: history.induct)
  case (start st)
  then show ?case .
next
  case (set_done st st1 document vm opts n d st2)
  from set_done.IH [OF set_done.prems] db_Tx_mem [OF set_done.hyps(3), of E cx c]
    set_put [OF assms(1) _ refl set_done.hyps(2) _ set_done.hyps(4)]
  show ?case by metis
next
  case (create_done st st1 document vm opts n docID d st2)
  from create_done.IH [OF create_done.prems] db_Tx_mem [OF create_done.hyps(3), of E cx c]
    create_put [OF assms(1) _ refl create_done.hyps(2) _ create_done.hyps(4)]
  show ?case by metis
next
  case (delete_done st st1 docID d0 vm opts n st2)
  from delete_done.IH [OF delete_done.prems] db_Tx_mem [OF delete_done.hyps(5), of E cx c]
    delete_put [OF assms(1) _ assms(2) delete_done.hyps(3,4,2)]
  show ?case by metis
next
  case (query_done st st1 n vm cx' other q r st2)
  have "map_of (stD st2) = map_of (stD st1)"
  proof (cases r)
    case (Inl e)
    with query_done.hyps(2) show ?thesis by (simp add: db_Query_def failed_keeps)
  next
    case (Inr p)
    with query_done.hyps(2) show ?thesis using query_keeps by metis
  qed
  with query_done.IH [OF query_done.prems] show ?case by (simp add: db_in_order_def)
next
  case (failed st st1 vm opts fn e st2)
  then show ?case by (simp add: db_in_order_def failed_keeps)
qed

theorem history_in_order_witness:
  "db_in_order user_env user_ctx user_schema (snd (db_Tx mem_db no_globals read_write
     (tx_Set user_env (Suc (Suc 1)) user_ctx ''user'' ann) \<lparr>stD = [], stTick = 0\<rparr>))"
proof -
  let ?run = "db_Tx mem_db no_globals read_write (tx_Set user_env (Suc (Suc 1)) user_ctx ''user'' ann) \<lparr>stD = [], stTick = 0\<rparr>"
  have run: "?run = (Inr ann, snd ?run)" using db_set_ann by (simp add: numeral_3_eq_3 prod_eq_iff)
  have pk: "GetPrimaryKey (enJ user_env) user_schema ann = ''a''" using witness_ids(2) by (simp add: user_env_def flat_env_def)
  have "history user_env user_ctx ''user'' user_schema \<lparr>stD = [], stTick = 0\<rparr> (snd ?run)"
    by (rule history.set_done [OF history.start _ run]) (simp_all add: pk witness_ids)
  then show ?thesis
    by (rule history_in_order [OF plain_schema_writes(1) user_free _ empty_in_order(1)])
qed

end
