(* ===== verification/Locker.thy ===== *)
theory Locker
  imports KvDb Values
begin

text \<open>
  The distributed lock of \<open>kv/badger/locker.go\<close> (\<open>TikvLocker\<close> has that of \<open>kv/tikv/locker.go\<close>): a lock is a record under its key with the id of the holder and the time of the last
  renewal. The functions read the clock several times; every reading is an argument.
  \<open>encoding/json\<close> on the record is a parameter: \<open>lcUnmarshal\<close> is applied to what a \<open>Get\<close>
  returned, which is nil for an absent key (both back ends map the library's "not found" to
  nil). The goroutine that renews the lease is its two reactions, \<open>keepalive_renew\<close> to the
  ticker and \<open>keepalive_release\<close> to the unlock channel; \<open>LockProtocol\<close> composes them.
\<close>

subsection \<open>Times and durations\<close>

text \<open>A time is in nanoseconds since 1970; \<open>time.Since\<close> saturates, the zero time is in the year 1.\<close>

definition zero_time :: int where
  "zero_time = - 62135596800000000000"

definition time_Since :: "int \<Rightarrow> int \<Rightarrow> int" where
  "time_Since now t = max (- (2 ^ 63)) (min (2 ^ 63 - 1) (now - t))"

record lock =
  lkID :: string
  lkKey :: bytes
  lkLease :: int
  lkStart :: int

record lock_meta =
  lmID :: string
  lmStart :: int
  lmLastUpdate :: int
  lmKey :: bytes

definition zero_meta :: lock_meta where
  "zero_meta = \<lparr>lmID = [], lmStart = zero_time, lmLastUpdate = zero_time, lmKey = []\<rparr>"

record 'r lock_codec =
  lcMarshal :: "lock_meta \<Rightarrow> 'r"
  lcUnmarshal :: "'r option \<Rightarrow> gerr + lock_meta"

definition codec_laws :: "'r lock_codec \<Rightarrow> bool" where
  "codec_laws C \<longleftrightarrow> (\<forall>m. lcUnmarshal C (Some (lcMarshal C m)) = Inr m) \<and> (\<exists>e. lcUnmarshal C None = Inl e)"

subsection \<open>The operations\<close>

definition NewLocker :: "string \<Rightarrow> bytes \<Rightarrow> int \<Rightarrow> lock" where
  "NewLocker ksuid key leaseInterval = \<lparr>lkID = ksuid, lkKey = key, lkLease = leaseInterval, lkStart = zero_time\<rparr>"

text \<open>The error of the decoding is dropped, which leaves the zero record.\<close>

definition current_meta :: "'r lock_codec \<Rightarrow> 'r option \<Rightarrow> lock_meta" where
  "current_meta C val = (case lcUnmarshal C val of Inr m \<Rightarrow> m | Inl _ \<Rightarrow> zero_meta)"

definition lease_expired :: "lock \<Rightarrow> int \<Rightarrow> lock_meta \<Rightarrow> bool" where
  "lease_expired l now m \<longleftrightarrow> time_Since now (lmLastUpdate m) > int64 (4 * lkLease l) \<and> lmID m \<noteq> lkID l"

definition setLock :: "('s, 'r) kv_ops \<Rightarrow> 'r lock_codec \<Rightarrow> lock \<Rightarrow> int \<Rightarrow> ('s, unit) eff" where
  "setLock ops C l now s = (case opSet ops (lkKey l) (lcMarshal C
       \<lparr>lmID = lkID l, lmStart = lkStart l, lmLastUpdate = now, lmKey = lkKey l\<rparr>) s of
     Inl e \<Rightarrow> (Inl e, s) | Inr s' \<Rightarrow> (Inr (), s'))"

definition delLock :: "('s, 'r) kv_ops \<Rightarrow> lock \<Rightarrow> ('s, unit) eff" where
  "delLock ops l s = (case opDel ops (lkKey l) s of Inl e \<Rightarrow> (Inl e, s) | Inr s' \<Rightarrow> (Inr (), s'))"

definition getLock :: "('s, 'r) kv_ops \<Rightarrow> 'r lock_codec \<Rightarrow> lock \<Rightarrow> ('s, lock_meta) eff" where
  "getLock ops C l s = (rbind (opGet ops (lkKey l) s) (\<lambda>val. lift_err (lcUnmarshal C val)), s)"

text \<open>\<open>T\<close> is the \<open>Tx\<close> of the back end, \<open>nf\<close> its test for the library's "not found".\<close>

type_synonym ('d, 's, 'r, 'a) run_tx = "('d, 's, 'r) kv_db \<Rightarrow> txopts \<Rightarrow> ('s, 'a) eff \<Rightarrow> ('d, 'a) eff"

definition IsLocked ::
  "('d, 's, 'r, bool) run_tx \<Rightarrow> (gerr \<Rightarrow> bool) \<Rightarrow> ('d, 's, 'r) kv_db \<Rightarrow> 'r lock_codec \<Rightarrow> lock \<Rightarrow> int \<Rightarrow> ('d, bool) eff" where
  "IsLocked T nf K C l now = T K \<lparr>IsReadOnly = True, IsBatch = False\<rparr> (\<lambda>s. case opGet (dbOps K) (lkKey l) s of
     Inl (Fail e) \<Rightarrow> (if nf e then Inr False else Inl (Fail e), s)
   | Inl p \<Rightarrow> (Inl p, s)
   | Inr val \<Rightarrow> (Inr (\<not> lease_expired l now (current_meta C val)), s))"

definition TryLock ::
  "('d, 's, 'r, bool) run_tx \<Rightarrow> (gerr \<Rightarrow> bool) \<Rightarrow> ('d, 's, 'r) kv_db \<Rightarrow> 'r lock_codec \<Rightarrow> lock \<Rightarrow> int \<Rightarrow> int \<Rightarrow> int
     \<Rightarrow> ('d, bool) eff" where
  "TryLock T nf K C l0 start now later = (let l = l0\<lparr>lkStart := start\<rparr> in
     T K \<lparr>IsReadOnly = False, IsBatch = False\<rparr> (\<lambda>s. case opGet (dbOps K) (lkKey l) s of
       Inl (Fail e) \<Rightarrow> (if nf e then ebind (setLock (dbOps K) C l later) (\<lambda>_. ret True) s else (Inl (Fail e), s))
     | Inl p \<Rightarrow> (Inl p, s)
     | Inr val \<Rightarrow> (if lease_expired l now (current_meta C val)
         then ebind (setLock (dbOps K) C l later) (\<lambda>_. ret True) s else (Inr False, s))))"

definition keepalive_renew ::
  "('d, 's, 'r, unit) run_tx \<Rightarrow> ('d, 's, 'r) kv_db \<Rightarrow> 'r lock_codec \<Rightarrow> lock \<Rightarrow> int \<Rightarrow> ('d, unit) eff" where
  "keepalive_renew T K C l now = T K \<lparr>IsReadOnly = False, IsBatch = False\<rparr>
     (ebind (getLock (dbOps K) C l) (\<lambda>val. if lmID val = lkID l then setLock (dbOps K) C l now else ret ()))"

definition keepalive_release ::
  "('d, 's, 'r, unit) run_tx \<Rightarrow> ('d, 's, 'r) kv_db \<Rightarrow> 'r lock_codec \<Rightarrow> lock \<Rightarrow> ('d, unit) eff" where
  "keepalive_release T K C l = T K \<lparr>IsReadOnly = False, IsBatch = False\<rparr>
     (ebind (getLock (dbOps K) C l) (\<lambda>val. if lmID val = lkID l then delLock (dbOps K) l else ret ()))"

subsection \<open>What the operations do to the committed state\<close>

text \<open>The holder that the stored value names, with its last renewal.\<close>

definition lease_of :: "'r lock_codec \<Rightarrow> 'r option \<Rightarrow> (string \<times> int) option" where
  "lease_of C val = (case lcUnmarshal C val of Inr m \<Rightarrow> Some (lmID m, lmLastUpdate m) | Inl _ \<Rightarrow> None)"

lemma codec_round: "codec_laws C \<Longrightarrow> lcUnmarshal C (Some (lcMarshal C m)) = Inr m"
  by (simp add: codec_laws_def)

lemma lease_of_None: "codec_laws C \<Longrightarrow> lease_of C None = None"
  by (auto simp: codec_laws_def lease_of_def)

lemma lease_of_marshal: "codec_laws C \<Longrightarrow> lease_of C (Some (lcMarshal C m)) = Some (lmID m, lmLastUpdate m)"
  by (simp add: codec_laws_def lease_of_def)

context kv_store begin

lemma TryLock_effect:
  assumes K: "dbOps K = \<lparr>opGet = kget, opSet = kset, opDel = kdel, opIter = kiter\<rparr>" "dbNewTx K = newtx" "dbCommit K = commit"
    and C: "codec_laws C" and run: "TryLock badger_Tx nf K C l start now later d = (Inr got, d')"
  shows "got \<longleftrightarrow> lease_expired l now (current_meta C (committed d (lkKey l)))"
    and "\<not> got \<Longrightarrow> committed d' = committed d"
    and "got \<Longrightarrow> lease_of C (committed d' (lkKey l)) = Some (lkID l, later) \<and> (\<forall>k. k \<noteq> lkKey l \<longrightarrow> committed d' k = committed d k)"
proof -
  have e: "lease_expired (l\<lparr>lkStart := start\<rparr>) now m = lease_expired l now m" for m
    by (simp add: lease_expired_def)
  obtain s s' where s: "newtx \<lparr>IsReadOnly = False, IsBatch = False\<rparr> d = Inr s" "commit s' d = (Inr (), d')"
    and step: "(if lease_expired l now (current_meta C (view s (lkKey l)))
         then ebind (setLock (dbOps K) C (l\<lparr>lkStart := start\<rparr>) later) (\<lambda>_. ret True) s else (Inr False, s)) = (Inr got, s')"
    using run unfolding TryLock_def Let_def badger_Tx_Inr_iff K(2,3)
    by (auto simp: K(1) kget_items view_def e)
  show "got \<longleftrightarrow> lease_expired l now (current_meta C (committed d (lkKey l)))"
    using step newtx_view [OF s(1)] by (auto simp: ebind_Inr_iff split: if_splits)
  show "\<not> got \<Longrightarrow> committed d' = committed d"
    using step newtx_view [OF s(1)] commit_view [OF s(2)] by (auto simp: ebind_Inr_iff split: if_splits)
  show "got \<Longrightarrow> lease_of C (committed d' (lkKey l)) = Some (lkID l, later) \<and> (\<forall>k. k \<noteq> lkKey l \<longrightarrow> committed d' k = committed d k)"
    using step newtx_view [OF s(1)] commit_view [OF s(2)]
    by (auto simp: ebind_Inr_iff setLock_def K(1) view_set lease_of_marshal [OF C] split: if_splits sum.splits)
qed

lemma keepalive_effect:
  assumes K: "dbOps K = \<lparr>opGet = kget, opSet = kset, opDel = kdel, opIter = kiter\<rparr>" "dbNewTx K = newtx" "dbCommit K = commit"
    and C: "codec_laws C"
  shows "keepalive_renew badger_Tx K C l now d = (Inr u, d') \<Longrightarrow>
      (\<exists>id t. lease_of C (committed d (lkKey l)) = Some (id, t) \<and>
        (if id = lkID l then lease_of C (committed d' (lkKey l)) = Some (id, now) \<and> (\<forall>k. k \<noteq> lkKey l \<longrightarrow> committed d' k = committed d k)
         else committed d' = committed d))"
    and "keepalive_release badger_Tx K C l d = (Inr u, d') \<Longrightarrow>
      (\<exists>id t. lease_of C (committed d (lkKey l)) = Some (id, t) \<and>
        (if id = lkID l then lease_of C (committed d' (lkKey l)) = None \<and> (\<forall>k. k \<noteq> lkKey l \<longrightarrow> committed d' k = committed d k)
         else committed d' = committed d))"
proof -
  let ?o = "\<lparr>IsReadOnly = False, IsBatch = False\<rparr>"
  have get: "getLock (dbOps K) C l s = (lift_err (lcUnmarshal C (view s (lkKey l))), s)" for s
    by (simp add: getLock_def K(1) kget_items view_def)
  show "\<exists>id t. lease_of C (committed d (lkKey l)) = Some (id, t) \<and>
        (if id = lkID l then lease_of C (committed d' (lkKey l)) = Some (id, now) \<and> (\<forall>k. k \<noteq> lkKey l \<longrightarrow> committed d' k = committed d k)
         else committed d' = committed d)" if run: "keepalive_renew badger_Tx K C l now d = (Inr u, d')"
  proof -
    obtain s s' m where s: "newtx ?o d = Inr s" "commit s' d = (Inr (), d')" and m: "lcUnmarshal C (view s (lkKey l)) = Inr m"
      and step: "(if lmID m = lkID l then setLock (dbOps K) C l now else ret ()) s = (Inr u, s')"
      using run unfolding keepalive_renew_def badger_Tx_Inr_iff K(2,3) by (auto simp: ebind_Inr_iff get)
    show ?thesis
      using step m newtx_view [OF s(1)] commit_view [OF s(2)]
      by (auto simp: lease_of_def setLock_def K(1) view_set codec_round [OF C] split: if_splits sum.splits)
  qed
  show "\<exists>id t. lease_of C (committed d (lkKey l)) = Some (id, t) \<and>
        (if id = lkID l then lease_of C (committed d' (lkKey l)) = None \<and> (\<forall>k. k \<noteq> lkKey l \<longrightarrow> committed d' k = committed d k)
         else committed d' = committed d)" if run: "keepalive_release badger_Tx K C l d = (Inr u, d')"
  proof -
    obtain s s' m where s: "newtx ?o d = Inr s" "commit s' d = (Inr (), d')" and m: "lcUnmarshal C (view s (lkKey l)) = Inr m"
      and step: "(if lmID m = lkID l then delLock (dbOps K) l else ret ()) s = (Inr u, s')"
      using run unfolding keepalive_release_def badger_Tx_Inr_iff K(2,3) by (auto simp: ebind_Inr_iff get)
    show ?thesis
      using step m newtx_view [OF s(1)] commit_view [OF s(2)] lease_of_None [OF C]
      by (auto simp: lease_of_def delLock_def K(1) view_del split: if_splits sum.splits)
  qed
qed

end

end
