(* ===== verification/Loader.thy ===== *)
theory Loader
  imports Schema QueryOps
begin

text \<open>
  Loading a collection schema (\<open>schema.go\<close>): \<open>newCollectionSchema\<close> with \<open>loadProperties\<close> and
  \<open>loadRef\<close>, \<open>refreshSchema\<close>, the marshalling methods, \<open>Equals\<close> and the accessors;
  \<open>YAMLToJSON\<close>, \<open>JSONToYAML\<close> and \<open>ValidateStruct\<close> of \<open>util/util.go\<close>. The record \<open>schema_lib\<close>
  holds the third-party code: the YAML converter, the JSON schema compiler, the read access of
  \<open>gjson\<close> to a position \<open>'g\<close> of a text \<open>'r\<close>, \<open>mapstructure\<close> (\<open>util.Decode\<close>) and the struct
  validator. The loader builds the record in place, so the half-built schema is its state;
  \<open>scProperties\<close> holds the top level only, as nothing reads the nested \<open>Properties\<close> of a
  property: nested properties are found in \<open>scPropertyPaths\<close>.
\<close>

record ('r, 'g) schema_lib =
  slIsJSON :: "'r \<Rightarrow> bool"
  slFromYAML :: "'r \<Rightarrow> gerr + 'r"
  slToYAML :: "'r \<Rightarrow> gerr + 'r"
  slCompile :: "'r \<Rightarrow> gerr option"
  slParse :: "'r \<Rightarrow> 'g"
  gGet :: "'g \<Rightarrow> string \<Rightarrow> 'g"
  gExists :: "'g \<Rightarrow> bool"
  gString :: "'g \<Rightarrow> string"
  gBool :: "'g \<Rightarrow> bool"
  gValue :: "'g \<Rightarrow> any"
  gMap :: "'g \<Rightarrow> 'g kvs"
  gPath :: "'g \<Rightarrow> 'r \<Rightarrow> string"
  slCompute :: "any \<Rightarrow> gerr + computed"
  slForeign :: "any \<Rightarrow> gerr + foreign_key"
  slIndexes :: "any \<Rightarrow> gerr + string list kvs"
  slTrigger :: "any \<Rightarrow> trigger \<Rightarrow> gerr + trigger"
  slAuthz :: "any \<Rightarrow> gerr + authz_rule list"
  slCheckProperty :: "property \<Rightarrow> gerr option"
  slCheckIndex :: "index_c \<Rightarrow> gerr option"
  slCheckTrigger :: "trigger \<Rightarrow> gerr option"
  slCheckAuthz :: "authz_rule list \<Rightarrow> gerr option"
  slStrings :: "any \<Rightarrow> string list"
  slShow :: "string list \<Rightarrow> index_c \<Rightarrow> string"

subsection \<open>Conversions and checks\<close>

definition YAMLToJSON :: "('r, 'g, 'z) schema_lib_scheme \<Rightarrow> 'r \<Rightarrow> 'r res" where
  "YAMLToJSON S content = (if slIsJSON S content then Inr content else lift_err (slFromYAML S content))"

definition JSONToYAML :: "('r, 'g, 'z) schema_lib_scheme \<Rightarrow> 'r \<Rightarrow> 'r res" where
  "JSONToYAML S content = lift_err (slToYAML S content)"

definition ValidateStruct :: "('a \<Rightarrow> gerr option) \<Rightarrow> 'a \<Rightarrow> unit res" where
  "ValidateStruct check val = (case wrap_opt (check val) Validation [] of None \<Rightarrow> Inr () | Some e \<Rightarrow> Inl (Fail e))"

text \<open>\<open>strings.ReplaceAll\<close> for a text to replace that is not empty.\<close>

function ReplaceAll :: "string \<Rightarrow> string \<Rightarrow> string \<Rightarrow> string" where
  "ReplaceAll s old new =
     (if old \<noteq> [] \<and> prefix old s then new @ ReplaceAll (drop (length old) s) old new
      else case s of [] \<Rightarrow> [] | c # cs \<Rightarrow> c # ReplaceAll cs old new)"
  by pat_completeness auto
termination
  by (relation "measure (\<lambda>(s, _, _). length s)") (auto simp: prefix_def)

declare ReplaceAll.simps [simp del]

subsection \<open>Properties\<close>

definition refPrefix :: string where
  "refPrefix = ''common.''"

definition loadRef :: "('r, 'g, 'z) schema_lib_scheme \<Rightarrow> 'r schema \<Rightarrow> string \<Rightarrow> 'g res" where
  "loadRef S c ref = (let path = ReplaceAll (TrimPrefix ref ''#/'') ''/'' ''.'' in
     if \<not> HasPrefix path refPrefix
     then fail Validation (''references may only exist under #/common got: '' @ path)
     else Inr (gGet S (slParse S (scRaw c)) path))"

definition property_path :: "string \<Rightarrow> string" where
  "property_path position = TrimPrefix (ReplaceAll position ''properties.'' []) refPrefix"

definition set_index :: "index_c \<Rightarrow> 'r schema \<Rightarrow> 'r schema" where
  "set_index i c = c\<lparr>scIndexing := AList.update (iName i) i (scIndexing c)\<rparr>"

definition field_index :: "string \<Rightarrow> string list \<Rightarrow> index_c" where
  "field_index name fs = \<lparr>iName = name, iFields = fs, iUnique = False, iPrimary = False, iForeignKey = None\<rparr>"

text \<open>The decoded sections of one property.\<close>

definition property_of :: "('r, 'g, 'z) schema_lib_scheme \<Rightarrow> string \<Rightarrow> string \<Rightarrow> 'g \<Rightarrow> property" where
  "property_of S key path v = \<lparr>pPrimary = gBool S (gGet S v ''x-primary''), pName = key,
     pType = gString S (gGet S v ''type''), pPath = path, pImmutable = gBool S (gGet S v ''x-immutable''),
     pUnique = gBool S (gGet S v ''x-unique''), pForeignKey = None, pCompute = None,
     pDefault = (if gExists S (gGet S v ''default'') then Some (gValue S (gGet S v ''default'')) else None)\<rparr>"

definition load_compute :: "('r, 'g, 'z) schema_lib_scheme \<Rightarrow> 'g \<Rightarrow> computed option res" where
  "load_compute S v = (let x = gGet S v ''x-compute'' in
     if gExists S x
     then rbind (wrapping Validation ''failed to decode computed field'' (lift_err (slCompute S (gValue S x)))) (\<lambda>cf. Inr (Some cf))
     else Inr None)"

definition load_foreign :: "('r, 'g, 'z) schema_lib_scheme \<Rightarrow> 'g \<Rightarrow> string \<Rightarrow> foreign_key option res" where
  "load_foreign S v typ = (let x = gGet S v ''x-foreign'' in
     if gExists S x \<and> typ \<noteq> ''object''
     then rbind (wrapping Validation (''failed to decode foreignKey on property: '' @ gString S x)
        (lift_err (slForeign S (gValue S x)))) (\<lambda>fk. Inr (Some fk))
     else Inr None)"

definition load_indexes :: "('r, 'g, 'z) schema_lib_scheme \<Rightarrow> 'g \<Rightarrow> string \<Rightarrow> string \<Rightarrow> 'r schema \<Rightarrow> 'r schema res" where
  "load_indexes S v typ path c = (let x = gGet S v ''x-index'' in
     if gExists S x \<and> typ \<noteq> ''object''
     then rbind (wrapping Validation (''failed to decode index on property: '' @ gString S x) (lift_err (slIndexes S (gValue S x))))
        (\<lambda>indexing. Inr (fold (\<lambda>(name, more). set_index (field_index name (path # more))) indexing c))
     else Inr c)"

definition primary_index :: "string \<Rightarrow> index_c" where
  "primary_index path = \<lparr>iName = path @ ''.primaryidx'', iFields = [path], iUnique = True, iPrimary = True, iForeignKey = None\<rparr>"

definition unique_index :: "string \<Rightarrow> index_c" where
  "unique_index path = \<lparr>iName = path @ ''.uniqueidx'', iFields = [path], iUnique = True, iPrimary = False, iForeignKey = None\<rparr>"

definition foreign_index :: "string \<Rightarrow> property \<Rightarrow> index_c" where
  "foreign_index path p = \<lparr>iName = path @ ''.foreignidx'', iFields = [path], iUnique = pUnique p, iPrimary = False,
     iForeignKey = pForeignKey p\<rparr>"

text \<open>The \<open>switch\<close> at the end: the unique case falls through to the foreign one.\<close>

definition key_indexes :: "string \<Rightarrow> property \<Rightarrow> 'r schema \<Rightarrow> 'r schema res" where
  "key_indexes path p c =
     (if pPrimary p then
        (if iName (scPrimaryIndex c) \<noteq> [] then fail Validation ''multiple primary keys found''
         else Inr ((set_index (primary_index path) c)\<lparr>scPrimaryIndex := primary_index path\<rparr>))
      else if pUnique p then Inr (set_index (foreign_index path p) (set_index (unique_index path) c))
      else if pForeignKey p \<noteq> None then Inr (set_index (foreign_index path p) c)
      else Inr c)"

text \<open>One property: its value (which a reference replaces), what is nested in it, its entries.\<close>

definition resolve :: "('r, 'g, 'z) schema_lib_scheme \<Rightarrow> 'r schema \<Rightarrow> 'g \<Rightarrow> 'g res" where
  "resolve S c v = (if gExists S (gGet S v ''$ref'') then loadRef S c (gString S (gGet S v ''$ref'')) else Inr v)"

definition load_nested ::
  "('r, 'g, 'z) schema_lib_scheme \<Rightarrow> ('g \<Rightarrow> 'r schema \<Rightarrow> ('r schema \<times> property kvs) res) \<Rightarrow> 'g \<Rightarrow> string
     \<Rightarrow> 'r schema \<Rightarrow> 'r schema res" where
  "load_nested S rec v typ c = (let props = gGet S v ''properties'' in
     if gExists S props \<and> typ = ''object'' then rbind (rec props c) (\<lambda>(c, _). Inr c) else Inr c)"

definition register_property ::
  "('r, 'g, 'z) schema_lib_scheme \<Rightarrow> 'g \<Rightarrow> property \<Rightarrow> 'r schema \<Rightarrow> property kvs \<Rightarrow> ('r schema \<times> property kvs) res" where
  "register_property S v p c properties =
     rbind (load_foreign S v (pType p)) (\<lambda>foreign.
     rbind (load_indexes S v (pType p) (pPath p) c) (\<lambda>c.
       let p = p\<lparr>pForeignKey := foreign\<rparr>
       in rbind (key_indexes (pPath p) p (c\<lparr>scPropertyPaths := AList.update (pPath p) p (scPropertyPaths c)\<rparr>)) (\<lambda>c.
            Inr (c, AList.update (pName p) p properties))))"

definition load_property ::
  "('r, 'g, 'z) schema_lib_scheme \<Rightarrow> ('g \<Rightarrow> 'r schema \<Rightarrow> ('r schema \<times> property kvs) res) \<Rightarrow> string \<times> 'g
     \<Rightarrow> 'r schema \<times> property kvs \<Rightarrow> ('r schema \<times> property kvs) res" where
  "load_property S rec kv st = (case (kv, st) of ((key, value0), (c, properties)) \<Rightarrow>
     rbind (resolve S c value0) (\<lambda>v.
     let p = property_of S key (property_path (gPath S value0 (scRaw c))) v in
     rbind (load_compute S v) (\<lambda>compute.
     rbind (load_nested S rec v (pType p) c) (\<lambda>c.
       register_property S v (p\<lparr>pCompute := compute\<rparr>) c properties))))"

text \<open>The recursion follows nested properties and references; \<open>n\<close> bounds its depth.\<close>

fun loadProperties ::
  "('r, 'g, 'z) schema_lib_scheme \<Rightarrow> nat \<Rightarrow> 'g \<Rightarrow> 'r schema \<Rightarrow> ('r schema \<times> property kvs) res" where
  "loadProperties S 0 r c = (if \<not> gExists S r then Inr (c, []) else Inl NoFuel)"
| "loadProperties S (Suc n) r c =
     (if \<not> gExists S r then Inr (c, []) else rfold (load_property S (loadProperties S n)) (gMap S r) (c, []))"

subsection \<open>Triggers and the whole schema\<close>

definition load_trigger :: "('r, 'g, 'z) schema_lib_scheme \<Rightarrow> string \<times> 'g \<Rightarrow> trigger list \<Rightarrow> trigger list res" where
  "load_trigger S nt triggers = (case nt of (name, t) \<Rightarrow>
     rbind (wrapping Validation ''invalid trigger'' (lift_err (slTrigger S (gValue S t)
         \<lparr>trName = name, trOrder = 0, trEvents = [], trScript = []\<rparr>))) (\<lambda>trig.
     rbind (wrapping Validation (''invalid trigger: '' @ trName trig) (ValidateStruct (slCheckTrigger S) trig)) (\<lambda>_.
       Inr (triggers @ [trig]))))"

definition load_triggers :: "('r, 'g, 'z) schema_lib_scheme \<Rightarrow> 'g \<Rightarrow> trigger list res" where
  "load_triggers S r = (let t = gGet S r ''x-triggers'' in
     rbind (if gExists S t then rfold (load_trigger S) (gMap S t) [] else Inr [])
       (sort_Slice (\<lambda>a b. Inr (trOrder a < trOrder b))))"

definition load_authz :: "('r, 'g, 'z) schema_lib_scheme \<Rightarrow> 'g \<Rightarrow> authz_rule list res" where
  "load_authz S r = (let a = gGet S r ''x-authorization'' in
     if gExists S a
     then rbind (wrapping Validation ''invalid x-authorization'' (lift_err (slAuthz S (gValue S a)))) (\<lambda>rules.
          rbind (wrapping Validation ''invalid x-authorization'' (ValidateStruct (slCheckAuthz S) rules)) (\<lambda>_. Inr rules))
     else Inr [])"

definition blank_schema :: "('r, 'g, 'z) schema_lib_scheme \<Rightarrow> 'r \<Rightarrow> 'r schema" where
  "blank_schema S json = (let r = slParse S json in
     \<lparr>scCollection = gString S (gGet S r ''x-collection''), scPrimaryIndex = no_index,
      scImmutable = gBool S (gGet S r ''x-immutable''), scPreventDeletes = gBool S (gGet S r ''x-prevent-deletes''),
      scIndexing = [], scProperties = [], scPropertyPaths = [], scTriggers = [],
      scReadOnly = gBool S (gGet S r ''x-read-only''), scAuthz = [],
      scRequireIndex = gBool S (gGet S r ''x-require-index''), scRaw = json\<rparr>)"

definition check_all :: "('a \<Rightarrow> gerr option) \<Rightarrow> 'a kvs \<Rightarrow> unit res" where
  "check_all check m = rfold (\<lambda>(_, f) _. ValidateStruct check f) m ()"

text \<open>What follows the loading of the properties.\<close>

definition finish_schema :: "('r, 'g, 'z) schema_lib_scheme \<Rightarrow> 'g \<Rightarrow> 'r schema \<times> property kvs \<Rightarrow> 'r schema res" where
  "finish_schema S r cp = (case cp of (c, properties) \<Rightarrow>
     rbind (check_all (slCheckProperty S) (scPropertyPaths c)) (\<lambda>_.
     rbind (check_all (slCheckIndex S) (scIndexing c)) (\<lambda>_.
     if iFields (scPrimaryIndex c) = [] then fail Validation ''primary index is required'' else
     rbind (load_triggers S r) (\<lambda>triggers.
     let required = slStrings S (gValue S (gGet S r ''required'')) in
     if PrimaryKey c \<notin> set required
     then fail Validation (''primary key is required: '' @ scCollection c @ '' '' @ slShow S required (scPrimaryIndex c)) else
     rbind (load_authz S r) (\<lambda>rules.
       Inr (c\<lparr>scProperties := properties, scTriggers := triggers, scAuthz := rules\<rparr>))))))"

definition newCollectionSchema :: "('r, 'g, 'z) schema_lib_scheme \<Rightarrow> nat \<Rightarrow> 'r option \<Rightarrow> 'r schema res" where
  "newCollectionSchema S n content = (case content of
     None \<Rightarrow> fail Validation ''empty schema content''
   | Some yamlContent \<Rightarrow>
       rbind (YAMLToJSON S yamlContent) (\<lambda>json.
       rbind (case slCompile S json of None \<Rightarrow> Inr () | Some e \<Rightarrow> Inl (Fail (wrap e Validation ''invalid json schema''))) (\<lambda>_.
       let r = slParse S json in
       rbind (loadProperties S n (gGet S r ''properties'') (blank_schema S json)) (finish_schema S r))))"

text \<open>\<open>refreshSchema\<close> replaces every field but the name of the collection.\<close>

definition refreshSchema :: "('r, 'g, 'z) schema_lib_scheme \<Rightarrow> nat \<Rightarrow> 'r option \<Rightarrow> 'r schema \<Rightarrow> 'r schema res" where
  "refreshSchema S n content c = rbind (newCollectionSchema S n content) (\<lambda>s.
     Inr (s\<lparr>scCollection := scCollection c\<rparr>))"

definition MarshalJSON :: "'r schema \<Rightarrow> 'r" where
  "MarshalJSON c = scRaw c"

definition UnmarshalJSON :: "('r, 'g, 'z) schema_lib_scheme \<Rightarrow> nat \<Rightarrow> 'r option \<Rightarrow> 'r schema \<Rightarrow> 'r schema res" where
  "UnmarshalJSON S n bits c = refreshSchema S n bits c"

definition MarshalYAML :: "('r, 'g, 'z) schema_lib_scheme \<Rightarrow> 'r schema \<Rightarrow> 'r res" where
  "MarshalYAML S c = wrapping 0 (''failed to convert schema to yaml: '' @ scCollection c) (JSONToYAML S (scRaw c))"

definition UnmarshalYAML :: "('r, 'g, 'z) schema_lib_scheme \<Rightarrow> nat \<Rightarrow> 'r \<Rightarrow> 'r schema \<Rightarrow> 'r schema res" where
  "UnmarshalYAML S n bits c = rbind (YAMLToJSON S bits) (\<lambda>json. refreshSchema S n (Some json) c)"

text \<open>\<open>Equals\<close> decodes both texts and compares the values with \<open>reflect.DeepEqual\<close>.\<close>

definition schema_Equals :: "('r, 'z) json_lib_scheme \<Rightarrow> 'r schema \<Rightarrow> 'r schema \<Rightarrow> bool" where
  "schema_Equals J c s = DeepEqual (gjValue J (MarshalJSON c)) (gjValue J (MarshalJSON s))"

end
