(* ===== verification/Dag.thy ===== *)
theory Dag
  imports Schema
begin

text \<open>
  The graph of the collections and their foreign keys (\<open>dag.go\<close>). \<open>github.com/autom8ter/dagger\<close>
  keeps the nodes with their schemas and the edges; the order in which its two sorts visit the
  nodes is a parameter. Foreign keys of nested properties are not part of the graph.
\<close>

record 'r dag =
  dgNodes :: "'r schema kvs"
  dgEdges :: "(string \<times> string \<times> string) list"

record dag_lib =
  dgSorted :: "string list \<Rightarrow> (string \<times> string \<times> string) list \<Rightarrow> string list"
  dgReversed :: "string list \<Rightarrow> (string \<times> string \<times> string) list \<Rightarrow> string list"

definition newCollectionDag :: "'r dag" where
  "newCollectionDag = \<lparr>dgNodes = [], dgEdges = []\<rparr>"

definition SetNode :: "'r schema \<Rightarrow> 'r dag \<Rightarrow> 'r dag" where
  "SetNode schema g = g\<lparr>dgNodes := AList.update (scCollection schema) schema (dgNodes g)\<rparr>"

text \<open>The sorts look every visited node up again.\<close>

definition visit_nodes :: "'r dag \<Rightarrow> string list \<Rightarrow> 'r schema list res" where
  "visit_nodes g ids = rfold (\<lambda>h schemas. case map_of (dgNodes g) h of
     None \<Rightarrow> fail Validation (''schema not found: '' @ h)
   | Some schema \<Rightarrow> Inr (schemas @ [schema])) ids []"

definition TopologicalSort :: "dag_lib \<Rightarrow> 'r dag \<Rightarrow> 'r schema list res" where
  "TopologicalSort G g = visit_nodes g (dgSorted G (keys (dgNodes g)) (dgEdges g))"

definition ReverseTopologicalSort :: "dag_lib \<Rightarrow> 'r dag \<Rightarrow> 'r schema list res" where
  "ReverseTopologicalSort G g = visit_nodes g (dgReversed G (keys (dgNodes g)) (dgEdges g))"

definition set_edge :: "'r schema \<Rightarrow> string \<times> property \<Rightarrow> 'r dag \<Rightarrow> 'r dag res" where
  "set_edge schema kf g = (case pForeignKey (snd kf) of
     None \<Rightarrow> Inr g
   | Some fk \<Rightarrow>
       if fkCollection fk \<notin> set (keys (dgNodes g))
       then fail Validation (''foreign key collection not found: '' @ fkCollection fk)
       else Inr (g\<lparr>dgEdges := dgEdges g @ [(scCollection schema, pName (snd kf), fkCollection fk)]\<rparr>))"

definition SetSchemas :: "dag_lib \<Rightarrow> 'r schema list \<Rightarrow> 'r dag res" where
  "SetSchemas G schemas =
     rbind (rfold (\<lambda>schema. rfold (set_edge schema) (scProperties schema)) schemas (fold SetNode schemas newCollectionDag)) (\<lambda>g.
     rbind (TopologicalSort G g) (\<lambda>_.
     rbind (ReverseTopologicalSort G g) (\<lambda>_. Inr g)))"

subsection \<open>Which sets of schemas are accepted\<close>

text \<open>The documentation of the library: a sort visits every node once.\<close>

definition dag_laws :: "dag_lib \<Rightarrow> bool" where
  "dag_laws G \<longleftrightarrow> (\<forall>ns es. mset (dgSorted G ns es) = mset ns \<and> mset (dgReversed G ns es) = mset ns)"

lemma visit_nodes_ok: "set ids \<subseteq> set (keys (dgNodes g)) \<Longrightarrow> visit_nodes g ids = Inr (map (\<lambda>h. the (map_of (dgNodes g) h)) ids)"
proof -
  have "set ids \<subseteq> set (keys (dgNodes g)) \<Longrightarrow> rfold (\<lambda>h schemas. case map_of (dgNodes g) h of
     None \<Rightarrow> fail Validation (''schema not found: '' @ h)
   | Some schema \<Rightarrow> Inr (schemas @ [schema])) ids acc = Inr (acc @ map (\<lambda>h. the (map_of (dgNodes g) h)) ids)" for acc
    by (induction ids arbitrary: acc) (auto simp flip: map_of_keys)
  then show "set ids \<subseteq> set (keys (dgNodes g)) \<Longrightarrow> ?thesis" by (simp add: visit_nodes_def)
qed

lemma sorts_ok:
  assumes "dag_laws G"
  shows "\<exists>ss. TopologicalSort G g = Inr ss \<and> mset ss = mset (map (\<lambda>h. the (map_of (dgNodes g) h)) (keys (dgNodes g)))"
    "\<exists>ss. ReverseTopologicalSort G g = Inr ss \<and> mset ss = mset (map (\<lambda>h. the (map_of (dgNodes g) h)) (keys (dgNodes g)))"
proof -
  have m: "mset (dgSorted G ns es) = mset ns" "mset (dgReversed G ns es) = mset ns" for ns es
    using assms by (simp_all add: dag_laws_def)
  then have "set (dgSorted G ns es) = set ns" "set (dgReversed G ns es) = set ns" for ns es
    by (metis set_mset_mset)+
  then show "\<exists>ss. TopologicalSort G g = Inr ss \<and> mset ss = mset (map (\<lambda>h. the (map_of (dgNodes g) h)) (keys (dgNodes g)))"
    "\<exists>ss. ReverseTopologicalSort G g = Inr ss \<and> mset ss = mset (map (\<lambda>h. the (map_of (dgNodes g) h)) (keys (dgNodes g)))"
    by (simp_all add: TopologicalSort_def ReverseTopologicalSort_def visit_nodes_ok m)
qed

text \<open>The collections that the top-level foreign keys of a schema name.\<close>

definition foreign_collections :: "'r schema \<Rightarrow> string set" where
  "foreign_collections c = {fkCollection fk | k p fk. (k, p) \<in> set (scProperties c) \<and> pForeignKey p = Some fk}"

lemma set_edges_nodes: "rfold (set_edge schema) ps g = Inr g' \<Longrightarrow> dgNodes g' = dgNodes g"
  by (rule rfold_invariant [where P = "\<lambda>h. dgNodes h = dgNodes g"]) (auto simp: set_edge_def split: option.splits if_splits)

lemma all_edges_nodes: "rfold (\<lambda>schema. rfold (set_edge schema) (scProperties schema)) schemas g = Inr g' \<Longrightarrow> dgNodes g' = dgNodes g"
  by (rule rfold_invariant [where P = "\<lambda>h. dgNodes h = dgNodes g"]) (auto dest: set_edges_nodes)

lemma set_edges_ok:
  "(\<exists>g'. rfold (set_edge schema) ps g = Inr g') \<longleftrightarrow>
     (\<forall>(k, p)\<in>set ps. \<forall>fk. pForeignKey p = Some fk \<longrightarrow> fkCollection fk \<in> set (keys (dgNodes g)))"
proof (induction ps arbitrary: g)
  case (Cons kp ps)
  obtain k p where kp: "kp = (k, p)" by fastforce
  show ?case
  proof (cases "\<exists>fk. pForeignKey p = Some fk \<and> fkCollection fk \<notin> set (keys (dgNodes g))")
    case True
    then have "\<nexists>g1. set_edge schema kp g = Inr g1" by (auto simp: kp set_edge_def)
    with True show ?thesis by (auto simp: kp rbind_eq_Inr)
  next
    case False
    then obtain g1 where g1: "set_edge schema kp g = Inr g1" "dgNodes g1 = dgNodes g"
      by (cases "pForeignKey p") (auto simp: kp set_edge_def)
    with Cons [of g1] False show ?thesis by (auto simp: kp)
  qed
qed simp

lemma all_edges_ok:
  "(\<exists>g'. rfold (\<lambda>schema. rfold (set_edge schema) (scProperties schema)) schemas g = Inr g') \<longleftrightarrow>
     (\<forall>c\<in>set schemas. foreign_collections c \<subseteq> set (keys (dgNodes g)))"
proof (induction schemas arbitrary: g)
  case (Cons c schemas)
  have "(\<exists>g'. rfold (set_edge c) (scProperties c) g = Inr g') \<longleftrightarrow> foreign_collections c \<subseteq> set (keys (dgNodes g))"
    unfolding set_edges_ok foreign_collections_def by blast
  moreover have "(\<exists>g''. rfold (\<lambda>schema. rfold (set_edge schema) (scProperties schema)) schemas g' = Inr g'') \<longleftrightarrow>
     (\<forall>c\<in>set schemas. foreign_collections c \<subseteq> set (keys (dgNodes g)))" if "rfold (set_edge c) (scProperties c) g = Inr g'" for g'
    using Cons [of g'] set_edges_nodes [OF that] by simp
  ultimately show ?case by (auto simp: rbind_eq_Inr)
qed simp

lemma fold_SetNode: "map_of (dgNodes (fold SetNode schemas g)) = map_of (map (\<lambda>c. (scCollection c, c)) (rev schemas) @ dgNodes g)"
  by (induction schemas arbitrary: g) (auto simp: SetNode_def update_conv' map_add_def fun_eq_iff split: option.splits)

lemma fold_SetNode_keys: "set (keys (dgNodes (fold SetNode schemas g))) = scCollection ` set schemas \<union> set (keys (dgNodes g))"
  by (induction schemas arbitrary: g) (auto simp: SetNode_def keys_def dom_update)

lemma SetSchemas_edges:
  assumes "dag_laws G"
  shows "SetSchemas G schemas =
    rfold (\<lambda>schema. rfold (set_edge schema) (scProperties schema)) schemas (fold SetNode schemas newCollectionDag)"
proof (cases "rfold (\<lambda>schema. rfold (set_edge schema) (scProperties schema)) schemas (fold SetNode schemas newCollectionDag)")
  case (Inr g)
  with sorts_ok [OF assms, of g] show ?thesis by (auto simp: SetSchemas_def)
qed (simp add: SetSchemas_def)

lemma SetSchemas_ok:
  "dag_laws G \<Longrightarrow> (\<exists>g. SetSchemas G schemas = Inr g) \<longleftrightarrow> (\<forall>c\<in>set schemas. foreign_collections c \<subseteq> scCollection ` set schemas)"
  by (simp add: SetSchemas_edges all_edges_ok fold_SetNode_keys newCollectionDag_def)

lemma rfold_error:
  assumes "rfold f xs s = Inl p" and "\<And>x s p. f x s = Inl p \<Longrightarrow> Q p"
  shows "Q p"
  using assms(1) by (induction xs arbitrary: s) (auto simp: rbind_eq_Inl intro: assms(2))

lemma SetSchemas_refuses:
  assumes "dag_laws G" "c \<in> set schemas" "f \<in> foreign_collections c" "f \<notin> scCollection ` set schemas"
  shows "\<exists>e. SetSchemas G schemas = Inl (Fail e)"
proof -
  have "\<nexists>g. SetSchemas G schemas = Inr g" using SetSchemas_ok [OF assms(1)] assms(2-4) by blast
  then obtain p where p: "SetSchemas G schemas = Inl p" by (cases "SetSchemas G schemas") auto
  have "\<exists>e. p = Fail e" using p [unfolded SetSchemas_edges [OF assms(1)]]
  proof (rule rfold_error [where Q = "\<lambda>p. \<exists>e. p = Fail e"])
    fix x and s :: "'a dag" and p assume "rfold (set_edge x) (scProperties x) s = Inl p"
    then show "\<exists>e. p = Fail e"
      by (rule rfold_error [where Q = "\<lambda>p. \<exists>e. p = Fail e"]) (auto simp: set_edge_def fail_def split: option.splits if_splits)
  qed
  with p show ?thesis by blast
qed

text \<open>
  C36: a set of schemas makes a graph exactly if every collection that a top-level foreign key
  names is in the set; its nodes are the collections, each with the last schema of that name.
\<close>

theorem SetSchemas_iff:
  assumes "dag_laws G"
  shows "(\<exists>g. SetSchemas G schemas = Inr g) = (\<forall>c\<in>set schemas. foreign_collections c \<subseteq> scCollection ` set schemas) \<and>
    (\<forall>g. SetSchemas G schemas = Inr g \<longrightarrow> map_of (dgNodes g) = map_of (map (\<lambda>c. (scCollection c, c)) (rev schemas)))"
  using SetSchemas_ok [OF assms, of schemas]
  by (auto simp: SetSchemas_edges [OF assms] fold_SetNode newCollectionDag_def dest!: all_edges_nodes)

definition visit_all :: dag_lib where
  "visit_all = \<lparr>dgSorted = (\<lambda>ns es. ns), dgReversed = (\<lambda>ns es. rev ns)\<rparr>"

lemma visit_all_laws: "dag_laws visit_all"
  by (simp add: dag_laws_def visit_all_def)

definition linked_schema :: "string \<Rightarrow> string \<Rightarrow> any kvs schema" where
  "linked_schema name foreign = \<lparr>scCollection = name, scPrimaryIndex = no_index, scImmutable = False, scPreventDeletes = False,
     scIndexing = [], scProperties = [(''owner'', \<lparr>pPrimary = False, pName = ''owner'', pType = ''string'', pPath = ''owner'',
       pImmutable = False, pUnique = False, pForeignKey = Some \<lparr>fkCollection = foreign, fkCascade = False\<rparr>,
       pCompute = None, pDefault = None\<rparr>)], scPropertyPaths = [], scTriggers = [], scReadOnly = False, scAuthz = [],
     scRequireIndex = False, scRaw = []\<rparr>"

theorem SetSchemas_iff_witness:
  "(\<exists>g. SetSchemas visit_all [linked_schema ''task'' ''user'', linked_schema ''user'' ''user''] = Inr g) \<and>
    \<not> (\<exists>g. SetSchemas visit_all [linked_schema ''task'' ''user''] = Inr g)"
  using SetSchemas_iff [OF visit_all_laws, of "[linked_schema ''task'' ''user'', linked_schema ''user'' ''user'']"]
    SetSchemas_iff [OF visit_all_laws, of "[linked_schema ''task'' ''user'']"]
  by (auto simp: linked_schema_def foreign_collections_def)

end
