(* ===== verification/Configure.thy ===== *)
theory Configure
  imports Database Locker Loader Dag
begin

text \<open>
  The configuration of a database (\<open>db.go\<close>, \<open>db_util.go\<close>): schemas are stored under
  configuration keys, cached in a map and arranged in a graph; a plan is the difference between
  the graph and the wanted schemas; applying it drops, creates and replaces collections under a
  lock. The state \<open>conf\<close> is the committed store, the cache \<open>collections\<close> and \<open>collectionDag\<close>.
  The transactions of the store are those of \<open>kv/badger\<close> (the text of an error apart, those of
  \<open>kv/tikv\<close>: \<open>tikv_Tx_badger\<close>). What the lock's goroutine does meanwhile, the renewals, touches
  its record only and is left to \<open>LockProtocol\<close>. \<open>text/template\<close> and the YAML decoder are parameters.
\<close>

record ('d, 's, 'r, 'g, 't) conf_env =
  ceE :: "('s, 'r) env"
  ceK :: "('d, 's, 'r) kv_db"
  ceS :: "('r, 'g) schema_lib"
  ceDag :: dag_lib
  ceCodec :: "'r lock_codec"
  ceNotFound :: "gerr \<Rightarrow> bool"
  ceVM :: "'r globals"
  ceQuery :: nat
  ceWrite :: nat
  ceLoad :: nat
  ceShow :: "'r schema \<Rightarrow> string"
  ceYAMLJSON :: "string \<Rightarrow> gerr + string"
  ceUnmarshal :: "string \<Rightarrow> any kvs \<Rightarrow> gerr + any kvs"
  ceYAMLUnmarshal :: "string \<Rightarrow> any kvs \<Rightarrow> gerr + any kvs"
  ceTemplate :: "string \<Rightarrow> 't option"
  ceExecute :: "'t \<Rightarrow> any kvs \<Rightarrow> gerr + 'r option"

record ('d, 'r) conf =
  cfDb :: "'d db_state"
  cfColl :: "'r schema kvs"
  cfDag :: "'r dag"

text \<open>The environment of a transaction: the cached schemas at this moment.\<close>

definition env_at :: "('d, 's, 'r, 'g, 't) conf_env \<Rightarrow> ('d, 'r) conf \<Rightarrow> ('s, 'r) env" where
  "env_at X cf = (ceE X)\<lparr>enColl := cfColl cf\<rparr>"

definition on_db :: "('d db_state, 'a) eff \<Rightarrow> (('d, 'r) conf, 'a) eff" where
  "on_db m cf = (case m (cfDb cf) of (r, st) \<Rightarrow> (r, cf\<lparr>cfDb := st\<rparr>))"

definition on_store :: "('d, 'a) eff \<Rightarrow> (('d, 'r) conf, 'a) eff" where
  "on_store m = on_db (\<lambda>st. case m (stD st) of (r, d) \<Rightarrow> (r, st\<lparr>stD := d\<rparr>))"

definition conf_draw :: "(nat \<Rightarrow> 'a) \<Rightarrow> (('d, 'r) conf, 'a) eff" where
  "conf_draw f = on_db (\<lambda>st. (Inr (f (stTick st)), st\<lparr>stTick := Suc (stTick st)\<rparr>))"

definition with_env :: "(('s, 'r) env \<Rightarrow> (('d, 'r) conf, 'a) eff) \<Rightarrow> ('d, 's, 'r, 'g, 't) conf_env \<Rightarrow> (('d, 'r) conf, 'a) eff" where
  "with_env f X cf = f (env_at X cf) cf"

definition kv_put :: "('s, 'r) kv_ops \<Rightarrow> bytes \<Rightarrow> 'r \<Rightarrow> ('s, unit) eff" where
  "kv_put ops k v s = (case opSet ops k v s of Inl e \<Rightarrow> (Inl e, s) | Inr s' \<Rightarrow> (Inr (), s'))"

definition kv_remove :: "('s, 'r) kv_ops \<Rightarrow> bytes \<Rightarrow> ('s, unit) eff" where
  "kv_remove ops k s = (case opDel ops k s of Inl e \<Rightarrow> (Inl e, s) | Inr s' \<Rightarrow> (Inr (), s'))"

definition drop_prefix :: "('d, 's, 'r) kv_db \<Rightarrow> bytes \<Rightarrow> ('d, unit) eff" where
  "drop_prefix K p d = (case dbDropPrefix K [p] d of Inl e \<Rightarrow> (Inl e, d) | Inr d' \<Rightarrow> (Inr (), d'))"

subsection \<open>Locks\<close>

definition lock_key :: "string \<Rightarrow> bytes" where
  "lock_key collection = ''cache.internal.locks.'' @ collection"

definition minute :: int where
  "minute = 60 * 10 ^ 9"

definition lockCollection :: "('d, 's, 'r, 'g, 't) conf_env \<Rightarrow> string \<Rightarrow> (('d, 'r) conf, lock) eff" where
  "lockCollection X collection =
     ebind (conf_draw (enKsuid (ceE X))) (\<lambda>ksuid.
     ebind (conf_draw (enClock (ceE X))) (\<lambda>start.
     ebind (conf_draw (enClock (ceE X))) (\<lambda>now.
     ebind (conf_draw (enClock (ceE X))) (\<lambda>later.
     let l = NewLocker ksuid (lock_key collection) minute in
     ebind (wrap_eff Internal (''failed to acquire lock on collection '' @ collection)
         (on_store (TryLock badger_Tx (ceNotFound X) (ceK X) (ceCodec X) l start now later))) (\<lambda>gotLock.
       if \<not> gotLock then throw Forbidden (''collection: '' @ collection @ '' is locked'')
       else ret (l\<lparr>lkStart := start\<rparr>))))))"

text \<open>\<open>Unlock\<close> waits for the goroutine, which drops the error of its transaction.\<close>

definition unlock :: "('d, 's, 'r, 'g, 't) conf_env \<Rightarrow> lock \<Rightarrow> ('d, 'r) conf \<Rightarrow> ('d, 'r) conf" where
  "unlock X l cf = snd (on_store (keepalive_release badger_Tx (ceK X) (ceCodec X) l) cf)"

definition with_lock :: "('d, 's, 'r, 'g, 't) conf_env \<Rightarrow> string \<Rightarrow> (('d, 'r) conf, 'a) eff \<Rightarrow> (('d, 'r) conf, 'a) eff" where
  "with_lock X collection body = ebind (lockCollection X collection) (\<lambda>l cf. case body cf of (r, cf') \<Rightarrow> (r, unlock X l cf'))"

definition collectionIsLocked :: "('d, 's, 'r, 'g, 't) conf_env \<Rightarrow> string \<Rightarrow> (('d, 'r) conf, bool) eff" where
  "collectionIsLocked X collection =
     ebind (conf_draw (enKsuid (ceE X))) (\<lambda>ksuid.
     ebind (conf_draw (enClock (ceE X))) (\<lambda>now.
     ebind (attempt (on_store (IsLocked badger_Tx (ceNotFound X) (ceK X) (ceCodec X) (NewLocker ksuid (lock_key collection) minute) now)))
       (\<lambda>r. ret (case r of Some b \<Rightarrow> b | None \<Rightarrow> False))))"

subsection \<open>Stored schemas\<close>

definition collectionConfigPrefix :: bytes where
  "collectionConfigPrefix = ''cache.internal.collections.''"

definition collectionConfigKey :: "string \<Rightarrow> bytes" where
  "collectionConfigKey collection = ''cache.internal.collections.'' @ collection"

definition persistCollectionConfig :: "('d, 's, 'r, 'g, 't) conf_env \<Rightarrow> 'r schema \<Rightarrow> (('d, 'r) conf, unit) eff" where
  "persistCollectionConfig X val =
     ebind (on_store (badger_Tx (ceK X) read_write (kv_put (dbOps (ceK X)) (collectionConfigKey (scCollection val)) (MarshalJSON val))))
       (\<lambda>_ cf. (Inr (), cf\<lparr>cfColl := AList.update (scCollection val) val (cfColl cf)\<rparr>))"

definition deleteCollectionConfig :: "('d, 's, 'r, 'g, 't) conf_env \<Rightarrow> string \<Rightarrow> (('d, 'r) conf, unit) eff" where
  "deleteCollectionConfig X collection =
     ebind (on_store (badger_Tx (ceK X) read_write (kv_remove (dbOps (ceK X)) (collectionConfigKey collection))))
       (\<lambda>_ cf. (Inr (), cf\<lparr>cfColl := AList.delete collection (cfColl cf)\<rparr>))"

text \<open>A stored text is never empty, so every item of the scan is loaded.\<close>

definition getPersistedCollections :: "('d, 's, 'r, 'g, 't) conf_env \<Rightarrow> (('d, 'r) conf, 'r schema list) eff" where
  "getPersistedCollections X = on_store (badger_Tx (ceK X) read_only (\<lambda>s.
     (rbind (opIter (dbOps (ceK X)) \<lparr>Prefix = Some collectionConfigPrefix, UpperBound = None, Seek = None, Reverse = False\<rparr> s)
        (\<lambda>items. rfold (\<lambda>(k, bits) existing. rbind (newCollectionSchema (ceS X) (ceLoad X) (Some bits)) (\<lambda>cfg.
           Inr (existing @ [cfg]))) items []), s)))"

definition getPersistedCollection :: "('d, 's, 'r, 'g, 't) conf_env \<Rightarrow> string \<Rightarrow> (('d, 'r) conf, 'r schema) eff" where
  "getPersistedCollection X collection = on_store (badger_Tx (ceK X) read_only (\<lambda>s.
     (rbind (opGet (dbOps (ceK X)) (collectionConfigKey collection) s) (newCollectionSchema (ceS X) (ceLoad X)), s)))"

definition getCachedCollections :: "('d, 'r) conf \<Rightarrow> 'r schema list" where
  "getCachedCollections cf = map snd (cfColl cf)"

definition Collections :: "('d, 'r) conf \<Rightarrow> string list" where
  "Collections cf = keys (cfColl cf)"

definition GetSchema :: "('d, 's, 'r, 'g, 't) conf_env \<Rightarrow> ('d, 'r) conf \<Rightarrow> 'r ctx \<Rightarrow> string \<Rightarrow> 'r schema option" where
  "GetSchema X cf cx collection = map_option fst (getSchema (env_at X cf) cx collection)"

definition HasCollection :: "('d, 's, 'r, 'g, 't) conf_env \<Rightarrow> ('d, 'r) conf \<Rightarrow> 'r ctx \<Rightarrow> string \<Rightarrow> bool" where
  "HasCollection X cf cx collection = (case GetSchema X cf cx collection of None \<Rightarrow> False | Some s \<Rightarrow> scCollection s \<noteq> [])"

subsection \<open>Indexes\<close>

text \<open>
  \<open>addIndex\<close> stores the schema and rewrites every document: the documents come from a read
  transaction of their own, inside the one that stores them; both draw on one clock.
\<close>

definition set_in :: "('s, 'r) env \<Rightarrow> nat \<Rightarrow> 'r ctx \<Rightarrow> string \<Rightarrow> 'r \<Rightarrow> ('s, 'r) txn \<Rightarrow> ('s, 'r, bool \<times> ('s, 'r) txn) tx" where
  "set_in E n cx collection doc outer inner = (case tx_Set E n cx collection doc (outer\<lparr>tTick := tTick inner\<rparr>) of
     (Inl e, outer') \<Rightarrow> (Inl e, inner\<lparr>tTick := tTick outer'\<rparr>)
   | (Inr _, outer') \<Rightarrow> (Inr (True, outer'), inner\<lparr>tTick := tTick outer'\<rparr>))"

definition reindex ::
  "('d, 's, 'r, 'g, 't) conf_env \<Rightarrow> ('s, 'r) env \<Rightarrow> 'r ctx \<Rightarrow> string \<Rightarrow> (('s, 'r) txn \<times> 'd db_state, unit) eff" where
  "reindex X E cx collection ts = (case ts of (t, st) \<Rightarrow>
     (case db_ForEach E (ceK X) (ceQuery X) (ceVM X) cx collection [] [] (set_in E (ceWrite X) cx collection) t (st\<lparr>stTick := tTick t\<rparr>) of
        (Inl e, st') \<Rightarrow> (Inl e, t\<lparr>tTick := stTick st'\<rparr>, st')
      | (Inr (_, t'), st') \<Rightarrow> (Inr (), t'\<lparr>tTick := stTick st'\<rparr>, st')))"

definition indexing_ctx :: "'r ctx \<Rightarrow> 'r ctx" where
  "indexing_ctx cx = cx\<lparr>cxIndexing := True, cxInternal := True\<rparr>"

definition addIndex :: "('d, 's, 'r, 'g, 't) conf_env \<Rightarrow> 'r ctx \<Rightarrow> string \<Rightarrow> index_c \<Rightarrow> (('d, 'r) conf, unit) eff" where
  "addIndex X cx0 collection index =
     (if iName index = [] then throw Validation (collection @ '' - empty index name'')
      else with_env (\<lambda>E. case getSchema E cx0 collection of
          None \<Rightarrow> lift_res nil_pointer
        | Some (schema, cx) \<Rightarrow> ebind (persistCollectionConfig X schema) (\<lambda>_.
            if iPrimary index then ret ()
            else wrap_eff 0 (''indexing: failed to add index '' @ collection @ '' - '' @ iName index)
              (with_env (\<lambda>E. on_db (Tx_over (ceK X) (ceVM X) read_write (reindex X E (indexing_ctx cx) collection))) X))) X)"

definition removeIndex :: "('d, 's, 'r, 'g, 't) conf_env \<Rightarrow> 'r ctx \<Rightarrow> string \<Rightarrow> index_c \<Rightarrow> (('d, 'r) conf, unit) eff" where
  "removeIndex X cx0 collection index = with_env (\<lambda>E. case getSchema E cx0 collection of
     None \<Rightarrow> lift_res nil_pointer
   | Some (schema, cx) \<Rightarrow> wrap_eff 0 (''indexing: failed to remove index '' @ collection @ '' - '' @ iName index)
       (on_store (drop_prefix (ceK X) (indexPrefix (namespace (enJ E) cx) (scCollection schema) (iName index))))) X"

definition each :: "('x \<Rightarrow> ('s, unit) eff) \<Rightarrow> 'x list \<Rightarrow> ('s, unit) eff" where
  "each f xs = efold (\<lambda>x _. f x) xs ()"

definition configureCollection :: "('d, 's, 'r, 'g, 't) conf_env \<Rightarrow> 'r ctx \<Rightarrow> 'r schema \<Rightarrow> (('d, 'r) conf, unit) eff" where
  "configureCollection X cx0 c =
     (let cx = indexing_ctx cx0; name = scCollection c in
      with_lock X name (
        ebind (persistCollectionConfig X c) (\<lambda>_.
        ebind (attempt (getPersistedCollection X name)) (\<lambda>existing.
        let diff = getIndexDiff (scIndexing c) (case existing of None \<Rightarrow> [] | Some s \<Rightarrow> scIndexing s) in
        ebind (each (\<lambda>i. ebind (removeIndex X cx name i) (\<lambda>_. addIndex X cx name i)) (toUpdate diff)) (\<lambda>_.
        ebind (each (removeIndex X cx name) (toRemove diff)) (\<lambda>_.
        ebind (each (addIndex X cx name) (toAdd diff)) (\<lambda>_.
          persistCollectionConfig X c)))))))"

text \<open>The documents are deleted one by one, then whatever is left under the prefix.\<close>

definition delete_each :: "('s, 'r) env \<Rightarrow> nat \<Rightarrow> nat \<Rightarrow> 'r ctx \<Rightarrow> 'r schema \<Rightarrow> ('s, 'r, unit) tx" where
  "delete_each E n m cx c = ebind (ForEach E n cx (scCollection c) [] []
     (\<lambda>d a. ebind (Delete E m cx (scCollection c) (GetPrimaryKey (enJ E) c d)) (\<lambda>_. ret (True, a))) ()) (\<lambda>_. ret ())"

definition dropCollection :: "('d, 's, 'r, 'g, 't) conf_env \<Rightarrow> 'r ctx \<Rightarrow> 'r schema \<Rightarrow> (('d, 'r) conf, unit) eff" where
  "dropCollection X cx c = with_lock X (scCollection c) (
     ebind (with_env (\<lambda>E. on_db (db_Tx (ceK X) (ceVM X) \<lparr>IsReadOnly = False, IsBatch = True\<rparr>
        (delete_each E (ceQuery X) (ceWrite X) cx c))) X) (\<lambda>_.
     ebind (wrap_eff Internal (''failed to remove collection '' @ ceShow X c)
        (on_store (drop_prefix (ceK X) (collectionPrefix (namespace (enJ (ceE X)) cx) (scCollection c))))) (\<lambda>_.
       wrap_eff Internal (''failed to remove collection '' @ ceShow X c) (deleteCollectionConfig X (scCollection c)))))"

end
