(* ===== verification/Plan.thy ===== *)
theory Plan
  imports Configure
begin

text \<open>
  Plans (\<open>db.go\<close>): \<open>calcConfigPlan\<close> compares the stored schemas with the wanted ones,
  \<open>Plan\<close> renders and loads the wanted ones, \<open>ConfigurePlan\<close> applies a plan, \<open>Configure\<close> does
  both; opening a database and the refresh that runs every three seconds; \<open>ChangeStream\<close>.
\<close>

record collection_plan =
  cpCollection :: string
  cpDiff :: "field_op list"

record config_plan =
  plDelete :: "collection_plan list"
  plCreate :: "collection_plan list"
  plReplace :: "collection_plan list"

definition empty_plan :: config_plan where
  "empty_plan = \<lparr>plDelete = [], plCreate = [], plReplace = []\<rparr>"

subsection \<open>Calculating a plan\<close>

text \<open>The map from names to schemas that the first loop builds; its keys are the set.\<close>

definition named_schemas :: "'r schema list \<Rightarrow> 'r schema kvs" where
  "named_schemas schemas = fold (\<lambda>c. AList.update (scCollection c) c) schemas []"

text \<open>\<open>doc, _ := NewDocumentFromBytes(bits)\<close>: the document is nil after an error.\<close>

definition doc_or_nil :: "('r, 'z) json_lib_scheme \<Rightarrow> 'r \<Rightarrow> 'r option" where
  "doc_or_nil J bits = (case NewDocumentFromBytes J bits of Inr d \<Rightarrow> Some d | Inl _ \<Rightarrow> None)"

definition diff_of :: "('r, 'z) json_lib_scheme \<Rightarrow> 'r option \<Rightarrow> 'r option \<Rightarrow> field_op list res" where
  "diff_of J d before = (case d of None \<Rightarrow> nil_pointer | Some d \<Rightarrow> Inr (Diff J d before))"

definition plan_each :: "(string \<Rightarrow> field_op list res) \<Rightarrow> string list \<Rightarrow> collection_plan list res" where
  "plan_each f names = rfold (\<lambda>name plans. rbind (f name) (\<lambda>diff. Inr (plans @ [\<lparr>cpCollection = name, cpDiff = diff\<rparr>]))) names []"

definition calcConfigPlan :: "('r, 'z) json_lib_scheme \<Rightarrow> 'r schema list \<Rightarrow> 'r schema list \<Rightarrow> config_plan res" where
  "calcConfigPlan J existingSchema newSchema =
     (let existing = named_schemas existingSchema; new = named_schemas newSchema;
          bits = (\<lambda>m name. MarshalJSON (the (map_of m name))) in
      if set (keys existing) = set (keys new) then Inr empty_plan else
      let toDelete = filter (\<lambda>name. name \<notin> set (keys new) \<and> name \<noteq> cdcCollectionName) (keys existing);
          toCreate = filter (\<lambda>name. name \<notin> set (keys existing)) (keys new);
          toEdit = filter (\<lambda>name. name \<in> set (keys new)) (keys existing);
          changed = filter (\<lambda>name. \<not> schema_Equals J (the (map_of existing name)) (the (map_of new name))) toEdit in
      rbind (plan_each (\<lambda>name. diff_of J (Some (emptyJSON J)) (doc_or_nil J (bits existing name))) toDelete) (\<lambda>del.
      rbind (plan_each (\<lambda>name. diff_of J (doc_or_nil J (bits new name)) (Some (emptyJSON J))) toCreate) (\<lambda>cre.
      rbind (plan_each (\<lambda>name. diff_of J (doc_or_nil J (bits new name)) (doc_or_nil J (bits existing name))) changed) (\<lambda>rep.
        Inr \<lparr>plDelete = del, plCreate = cre, plReplace = rep\<rparr>))))"

definition parse_values :: "('d, 's, 'r, 'g, 't) conf_env \<Rightarrow> string \<Rightarrow> any kvs res" where
  "parse_values X valuesYaml = wrapping Validation ''failed to parse values''
     (rbind (if valuesYaml \<noteq> []
             then rbind (lift_err (ceYAMLJSON X valuesYaml)) (\<lambda>bits. lift_err (ceUnmarshal X bits []))
             else Inr []) (\<lambda>values. lift_err (ceYAMLUnmarshal X valuesYaml values)))"

text \<open>The error of parsing a template is dropped: executing the nil template panics.\<close>

definition render_schema :: "('d, 's, 'r, 'g, 't) conf_env \<Rightarrow> any kvs \<Rightarrow> string \<Rightarrow> 'r schema res" where
  "render_schema X values c = (case ceTemplate X c of
     None \<Rightarrow> nil_pointer
   | Some t \<Rightarrow> rbind (wrapping Validation ''failed to execute template'' (lift_err (ceExecute X t values)))
       (newCollectionSchema (ceS X) (ceLoad X)))"

definition rmap :: "('a \<Rightarrow> 'b res) \<Rightarrow> 'a list \<Rightarrow> 'b list res" where
  "rmap f xs = rfold (\<lambda>x ys. rbind (f x) (\<lambda>y. Inr (ys @ [y]))) xs []"

definition Plan :: "('d, 's, 'r, 'g, 't) conf_env \<Rightarrow> string \<Rightarrow> string list \<Rightarrow> ('d, 'r) conf \<Rightarrow> config_plan res" where
  "Plan X valuesYaml yamlSchemas cf =
     rbind (parse_values X valuesYaml) (\<lambda>values.
     rbind (rmap (render_schema X values) yamlSchemas) (\<lambda>newSchemas.
     rbind (wrapping Validation ''failed to set plan configuration'' (SetSchemas (ceDag X) newSchemas)) (\<lambda>_.
     rbind (wrapping Internal ''failed to topological sort collections'' (TopologicalSort (ceDag X) (cfDag cf))) (\<lambda>sorted.
       calcConfigPlan (enJ (ceE X)) sorted newSchemas))))"

subsection \<open>Applying a plan\<close>

text \<open>The schemas that a plan creates or replaces, from its diffs.\<close>

definition created_schema :: "('d, 's, 'r, 'g, 't) conf_env \<Rightarrow> collection_plan \<Rightarrow> 'r schema res" where
  "created_schema X p =
     rbind (wrapping Internal ''failed to apply diff'' (ApplyOps (enJ (ceE X)) (cpDiff p) (emptyJSON (enJ (ceE X))))) (\<lambda>doc.
       newCollectionSchema (ceS X) (ceLoad X) (Some doc))"

definition replaced_schema ::
  "('d, 's, 'r, 'g, 't) conf_env \<Rightarrow> ('d, 'r) conf \<Rightarrow> 'r ctx \<Rightarrow> collection_plan \<Rightarrow> 'r schema res" where
  "replaced_schema X cf cx p = (case GetSchema X cf cx (cpCollection p) of
     None \<Rightarrow> fail Validation (''collection '' @ cpCollection p @ '' not found'')
   | Some s \<Rightarrow>
       if scCollection s = [] then fail Validation (''collection '' @ cpCollection p @ '' not found'') else
       (case doc_or_nil (enJ (ceE X)) (MarshalJSON s) of
          None \<Rightarrow> nil_pointer
        | Some doc \<Rightarrow> rbind (wrapping Internal ''failed to apply diff'' (ApplyOps (enJ (ceE X)) (cpDiff p) doc)) (\<lambda>doc.
            newCollectionSchema (ceS X) (ceLoad X) (Some doc))))"

definition planned_schemas ::
  "('d, 's, 'r, 'g, 't) conf_env \<Rightarrow> ('d, 'r) conf \<Rightarrow> 'r ctx \<Rightarrow> config_plan \<Rightarrow> 'r schema list res" where
  "planned_schemas X cf cx plan =
     rbind (rmap (created_schema X) (plCreate plan)) (\<lambda>created.
     rbind (rmap (replaced_schema X cf cx) (plReplace plan)) (\<lambda>replaced. Inr (created @ replaced)))"

definition check_configure :: "('d, 's, 'r, 'g, 't) conf_env \<Rightarrow> 'r ctx \<Rightarrow> 'r schema \<Rightarrow> (('d, 'r) conf, unit) eff" where
  "check_configure X cx schema =
     ebind (lift_res (authorizeConfigure (enJ (ceE X)) (enJS (ceE X)) (enScripts (ceE X)) cx schema (ceVM X))) (\<lambda>(pass, _).
       if \<not> pass then throw Forbidden ''not authorized: configure'' else ret ())"

definition drop_planned :: "('d, 's, 'r, 'g, 't) conf_env \<Rightarrow> 'r ctx \<Rightarrow> config_plan \<Rightarrow> (('d, 'r) conf, unit) eff" where
  "drop_planned X cx plan cf =
     ebind (lift_res (wrapping Internal ''failed to topological sort collections'' (TopologicalSort (ceDag X) (cfDag cf))))
       (each (\<lambda>schema. if scCollection schema \<in> cpCollection ` set (plDelete plan)
          then ebind (check_configure X cx schema) (\<lambda>_. dropCollection X cx schema) else ret ())) cf"

definition configure_planned :: "('d, 's, 'r, 'g, 't) conf_env \<Rightarrow> 'r ctx \<Rightarrow> 'r schema \<Rightarrow> (('d, 'r) conf, unit) eff" where
  "configure_planned X cx schema cf = (case GetSchema X cf cx (scCollection schema) of
     None \<Rightarrow> configureCollection X cx schema cf
   | Some before \<Rightarrow>
       if schema_Equals (enJ (ceE X)) before schema then (Inr (), cf)
       else ebind (check_configure X cx before) (\<lambda>_. configureCollection X cx schema) cf)"

definition reload_dag :: "('d, 's, 'r, 'g, 't) conf_env \<Rightarrow> (('d, 'r) conf, 'r schema list) eff" where
  "reload_dag X = ebind (getPersistedCollections X) (\<lambda>collections.
     ebind (lift_res (SetSchemas (ceDag X) collections)) (\<lambda>g cf. (Inr collections, cf\<lparr>cfDag := g\<rparr>)))"

definition ConfigurePlan :: "('d, 's, 'r, 'g, 't) conf_env \<Rightarrow> 'r ctx \<Rightarrow> config_plan \<Rightarrow> (('d, 'r) conf, unit) eff" where
  "ConfigurePlan X cx plan cf =
     (if plDelete plan = [] \<and> plCreate plan = [] \<and> plReplace plan = [] then (Inr (), cf) else
      ebind (lift_res (planned_schemas X cf cx plan)) (\<lambda>newSchemas.
      if newSchemas = [] then throw Validation ''no schemas to configure'' else
      ebind (lift_res (wrapping Validation ''failed to set configure schemas'' (SetSchemas (ceDag X) newSchemas))) (\<lambda>g.
      ebind (drop_planned X cx plan) (\<lambda>_.
      ebind (lift_res (wrapping Internal ''failed to reverse topological collections'' (ReverseTopologicalSort (ceDag X) g))) (\<lambda>reversed.
      ebind (each (configure_planned X cx) reversed) (\<lambda>_.
      ebind (reload_dag X) (\<lambda>_. ret ())))))) cf)"

definition Configure_db :: "('d, 's, 'r, 'g, 't) conf_env \<Rightarrow> 'r ctx \<Rightarrow> string \<Rightarrow> string list \<Rightarrow> (('d, 'r) conf, unit) eff" where
  "Configure_db X cx valuesYaml yamlSchemas cf =
     ebind (lift_res (Plan X valuesYaml yamlSchemas cf)) (ConfigurePlan X cx) cf"

subsection \<open>Opening a database\<close>

text \<open>The state of a database object before its goroutines start: the cache is empty.\<close>

definition Open_db :: "('d, 's, 'r, 'g, 't) conf_env \<Rightarrow> 'r ctx \<Rightarrow> string \<Rightarrow> 'd db_state \<Rightarrow> unit res \<times> ('d, 'r) conf" where
  "Open_db X cx cdcSchema st =
     ebind (reload_dag X) (\<lambda>existing.
       if existing = [] then wrap_eff Internal ''failed to configure cdc collection'' (Configure_db X (SetIsInternal cx) [] [cdcSchema])
       else ret ()) \<lparr>cfDb = st, cfColl = [], cfDag = newCollectionDag\<rparr>"

text \<open>The refresh: the cached collections are loaded from the store; an error leaves everything as it is.\<close>

definition refresh :: "('d, 's, 'r, 'g, 't) conf_env \<Rightarrow> (('d, 'r) conf, unit) eff" where
  "refresh X cf =
     ebind (efold (\<lambda>c found. ebind (attempt (getPersistedCollection X c)) (\<lambda>coll. ret (found @ [coll]))) (Collections cf) [])
       (\<lambda>found cf. if None \<in> set found then (Inr (), cf) else
          let existing = map the found;
              cf = cf\<lparr>cfColl := fold (\<lambda>c. AList.update (scCollection c) c) existing (cfColl cf)\<rparr>
          in (Inr (), case SetSchemas (ceDag X) existing of Inr g \<Rightarrow> cf\<lparr>cfDag := g\<rparr> | Inl _ \<Rightarrow> cf)) cf"

subsection \<open>The change stream\<close>

text \<open>
  Who may listen, and to which prefix; then what becomes of one change of the store: it is
  handed on when the change record in it passes the filter and is of the collection.
\<close>

definition stream_prefix ::
  "('d, 's, 'r, 'g, 't) conf_env \<Rightarrow> 'r ctx \<Rightarrow> string \<Rightarrow> where_c list \<Rightarrow> ('d, 'r) conf \<Rightarrow> bytes res" where
  "stream_prefix X cx collection wfilter cf =
     (if collection \<noteq> ''*'' \<and> \<not> HasCollection X cf cx collection
      then fail Validation (''collection does not exist: '' @ collection) else
      let pfx = indexPrefix (namespace (enJ (ceE X)) cx) cdcCollectionName ''_id.primaryidx'' in
      if collection = ''*'' \<and> cxInternal cx then Inr pfx
      else if \<not> HasCollection X cf cx collection then fail Validation (''collection does not exist: '' @ collection)
      else rbind (authorizeChangeStream (enJ (ceE X)) (enJS (ceE X)) (enScripts (ceE X)) cx (the (GetSchema X cf cx collection)) wfilter (ceVM X))
        (\<lambda>(pass, _). if \<not> pass then fail Forbidden ''not authorized: changeStream'' else Inr pfx))"

definition stream_item ::
  "('r, 'z) json_lib_scheme \<Rightarrow> ('r \<Rightarrow> gerr + 'r cdc) \<Rightarrow> string \<Rightarrow> where_c list \<Rightarrow> ('r cdc \<Rightarrow> 'a \<Rightarrow> (bool \<times> 'a) res)
     \<Rightarrow> 'r kvcdc \<Rightarrow> 'a \<Rightarrow> (bool \<times> 'a) res" where
  "stream_item J scan collection wfilter fn cdc a = (case Val cdc of
     None \<Rightarrow> nil_pointer
   | Some bits \<Rightarrow> (case doc_or_nil J bits of
       None \<Rightarrow> nil_pointer
     | Some doc \<Rightarrow> rbind (doc_where J doc wfilter) (\<lambda>pass.
         if pass then rbind (wrapping Internal ''failed to unmarshal cdc'' (lift_err (scan doc))) (\<lambda>c.
           if cdcCollection c = collection \<or> collection = ''*'' then fn c a else Inr (True, a))
         else Inr (True, a))))"

end
