(* ===== verification/LoaderLaws.thy ===== *)
theory LoaderLaws
  imports Loader
begin

text \<open>
  What loading a schema establishes: the maps it fills are keyed by name, at most one index is
  primary, every property is registered under its path with the indexes its flags ask for; a
  loaded schema loads again from its own text; and the recursion ends on a schema whose
  references are well-founded, and never on one that refers to itself.
\<close>

subsection \<open>The invariant of a schema under construction\<close>

definition loading :: "'r schema \<Rightarrow> bool" where
  "loading c \<longleftrightarrow> distinct (keys (scIndexing c)) \<and> distinct (keys (scPropertyPaths c)) \<and>
     (\<forall>k i. map_of (scIndexing c) k = Some i \<longrightarrow> iName i = k \<and> (iPrimary i \<longrightarrow> i = scPrimaryIndex c)) \<and>
     (scPrimaryIndex c = no_index \<or> (\<exists>path. scPrimaryIndex c = primary_index path))"

lemma distinct_update [simp]: "distinct (keys m) \<Longrightarrow> distinct (keys (AList.update k v m))"
  unfolding keys_def by (rule distinct_update)

lemma set_index_simps [simp]:
  "scPrimaryIndex (set_index i c) = scPrimaryIndex c" "scPropertyPaths (set_index i c) = scPropertyPaths c"
  "scRaw (set_index i c) = scRaw c" "scCollection (set_index i c) = scCollection c"
  "map_of (scIndexing (set_index i c)) = (map_of (scIndexing c))(iName i \<mapsto> i)"
  by (simp_all add: set_index_def update_conv')

lemma blank_simps [simp]: "scRaw (blank_schema S json) = json"
  by (simp add: blank_schema_def Let_def)

lemma loading_blank: "loading (blank_schema S json)"
  by (simp add: loading_def blank_schema_def Let_def)

lemma loading_set_index: "loading c \<Longrightarrow> \<not> iPrimary i \<Longrightarrow> loading (set_index i c)"
  unfolding loading_def by (auto simp: set_index_def update_conv')

lemma loading_indexes:
  assumes "load_indexes S v typ path c = Inr c'" "loading c"
  shows "loading c'"
proof -
  have fold: "loading (fold (\<lambda>(name, more). set_index (field_index name (path # more))) l c)" if "loading c"
    for l :: "string list kvs" and c :: "'a schema"
    using that by (induction l arbitrary: c) (auto simp: field_index_def loading_set_index)
  show ?thesis using assms by (auto simp: load_indexes_def Let_def rbind_eq_Inr fold split: if_splits)
qed

lemma loading_keys:
  assumes "key_indexes path p c = Inr c'" "loading c"
  shows "loading c'"
proof (cases "pPrimary p")
  case True
  with assms(1) have c': "c' = (set_index (primary_index path) c)\<lparr>scPrimaryIndex := primary_index path\<rparr>"
    and none: "iName (scPrimaryIndex c) = []" by (auto simp: key_indexes_def split: if_splits)
  from none assms(2) have "scPrimaryIndex c = no_index" by (auto simp: loading_def primary_index_def)
  have "\<not> iPrimary i" if "map_of (scIndexing c) k = Some i" for k i
  proof
    assume i: "iPrimary i"
    with assms(2) that \<open>scPrimaryIndex c = no_index\<close> have "i = no_index" by (auto simp: loading_def)
    with i show False by (simp add: no_index_def)
  qed
  with assms(2) show ?thesis unfolding c' loading_def
    by (auto simp: set_index_def update_conv' primary_index_def)
next
  case False
  have "\<not> iPrimary (foreign_index path p)" "\<not> iPrimary (unique_index path)"
    by (simp_all add: foreign_index_def unique_index_def)
  with False assms show ?thesis
    by (auto simp: key_indexes_def loading_set_index split: if_splits)
qed

lemma raw_indexes: "load_indexes S v typ path c = Inr c' \<Longrightarrow> scRaw c' = scRaw c \<and> scCollection c' = scCollection c"
proof -
  have "scRaw (fold (\<lambda>(name, more). set_index (field_index name (path # more))) l c) = scRaw c \<and>
    scCollection (fold (\<lambda>(name, more). set_index (field_index name (path # more))) l c) = scCollection c" for l :: "string list kvs" and c :: "'a schema"
    by (induction l arbitrary: c) auto
  then show "load_indexes S v typ path c = Inr c' \<Longrightarrow> scRaw c' = scRaw c \<and> scCollection c' = scCollection c"
    by (auto simp: load_indexes_def Let_def rbind_eq_Inr split: if_splits)
qed

lemma raw_keys: "key_indexes path p c = Inr c' \<Longrightarrow> scRaw c' = scRaw c \<and> scCollection c' = scCollection c"
  by (auto simp: key_indexes_def split: if_splits)

lemma rbindE:
  assumes "rbind m f = Inr b"
  obtains a where "m = Inr a" "f a = Inr b"
  using assms by (auto simp: rbind_eq_Inr)

lemma registerE:
  assumes "register_property S v p c ps = Inr (c', ps')"
  obtains c1 q where "load_indexes S v (pType p) (pPath p) c = Inr c1" "pName q = pName p" "pPath q = pPath p"
    "key_indexes (pPath q) q (c1\<lparr>scPropertyPaths := AList.update (pPath q) q (scPropertyPaths c1)\<rparr>) = Inr c'"
    "ps' = AList.update (pName q) q ps"
proof -
  from assms obtain foreign where "rbind (load_indexes S v (pType p) (pPath p) c) (\<lambda>c.
       rbind (key_indexes (pPath (p\<lparr>pForeignKey := foreign\<rparr>)) (p\<lparr>pForeignKey := foreign\<rparr>)
         (c\<lparr>scPropertyPaths := AList.update (pPath (p\<lparr>pForeignKey := foreign\<rparr>)) (p\<lparr>pForeignKey := foreign\<rparr>) (scPropertyPaths c)\<rparr>)) (\<lambda>c.
            Inr (c, AList.update (pName (p\<lparr>pForeignKey := foreign\<rparr>)) (p\<lparr>pForeignKey := foreign\<rparr>) ps))) = Inr (c', ps')"
    unfolding register_property_def Let_def by (rule rbindE)
  then show thesis
  proof (elim rbindE)
    fix c1 c2
    assume "load_indexes S v (pType p) (pPath p) c = Inr c1"
      "key_indexes (pPath (p\<lparr>pForeignKey := foreign\<rparr>)) (p\<lparr>pForeignKey := foreign\<rparr>)
         (c1\<lparr>scPropertyPaths := AList.update (pPath (p\<lparr>pForeignKey := foreign\<rparr>)) (p\<lparr>pForeignKey := foreign\<rparr>) (scPropertyPaths c1)\<rparr>) = Inr c2"
      "Inr (c2, AList.update (pName (p\<lparr>pForeignKey := foreign\<rparr>)) (p\<lparr>pForeignKey := foreign\<rparr>) ps) = Inr (c', ps')"
    then show thesis by (intro that [of c1 "p\<lparr>pForeignKey := foreign\<rparr>"]) simp_all
  qed
qed

lemma load_propertyE:
  assumes "load_property S rec (key, value0) (c, ps) = Inr (c', ps')"
  obtains v c1 p where "resolve S c value0 = Inr v" "load_nested S rec v (pType p) c = Inr c1"
    "register_property S v p c1 ps = Inr (c', ps')" "pName p = key" "pPath p = property_path (gPath S value0 (scRaw c))"
  using assms unfolding load_property_def Let_def prod.case
proof (elim rbindE)
  fix v compute c1
  let ?p = "property_of S key (property_path (gPath S value0 (scRaw c))) v"
  assume that: "\<And>v p c1. resolve S c value0 = Inr v \<Longrightarrow> load_nested S rec v (pType p) c = Inr c1 \<Longrightarrow>
      register_property S v p c1 ps = Inr (c', ps') \<Longrightarrow> pName p = key \<Longrightarrow> pPath p = property_path (gPath S value0 (scRaw c)) \<Longrightarrow> thesis"
    and v: "resolve S c value0 = Inr v" and n: "load_nested S rec v (pType ?p) c = Inr c1"
    and r: "register_property S v (?p\<lparr>pCompute := compute\<rparr>) c1 ps = Inr (c', ps')"
  show thesis by (rule that [OF v _ r]) (use n in \<open>simp_all add: property_of_def\<close>)
qed

definition keeps_loading :: "'r schema \<Rightarrow> 'r schema \<Rightarrow> bool" where
  "keeps_loading c c' \<longleftrightarrow> (loading c \<longrightarrow> loading c') \<and> scRaw c' = scRaw c \<and> scCollection c' = scCollection c"

lemma register_keeps:
  assumes "register_property S v p c ps = Inr (c', ps')"
  shows "keeps_loading c c'"
  using assms
proof (rule registerE)
  fix c1 q
  assume 1: "load_indexes S v (pType p) (pPath p) c = Inr c1"
    and 2: "key_indexes (pPath q) q (c1\<lparr>scPropertyPaths := AList.update (pPath q) q (scPropertyPaths c1)\<rparr>) = Inr c'"
  have "loading c1 \<Longrightarrow> loading (c1\<lparr>scPropertyPaths := AList.update (pPath q) q (scPropertyPaths c1)\<rparr>)" by (simp add: loading_def)
  with loading_indexes [OF 1] loading_keys [OF 2] raw_indexes [OF 1] raw_keys [OF 2]
  show ?thesis by (simp add: keeps_loading_def)
qed

lemma load_property_keeps:
  assumes run: "load_property S rec kv (c, ps) = Inr (c', ps')"
    and rec: "\<And>r c c' ps. rec r c = Inr (c', ps) \<Longrightarrow> keeps_loading c c'"
  shows "keeps_loading c c'"
proof -
  obtain key value0 where kv: "kv = (key, value0)" by fastforce
  from run [unfolded kv] show ?thesis
  proof (rule load_propertyE)
    fix v c1 p
    assume n: "load_nested S rec v (pType p) c = Inr c1" and r: "register_property S v p c1 ps = Inr (c', ps')"
    have "keeps_loading c c1"
      using n rec by (auto simp: load_nested_def Let_def rbind_eq_Inr keeps_loading_def split: if_splits)
    with register_keeps [OF r] show ?thesis by (simp add: keeps_loading_def)
  qed
qed

lemma loadProperties_keeps: "loadProperties S n r c = Inr (c', ps) \<Longrightarrow> keeps_loading c c'"
proof (induction n arbitrary: r c c' ps)
  case 0
  then show ?case by (auto simp: keeps_loading_def split: if_splits)
next
  case (Suc n)
  show ?case
  proof (cases "gExists S r")
    case False
    with Suc.prems show ?thesis by (simp add: keeps_loading_def)
  next
    case True
    have "keeps_loading c (fst (c', ps))"
    proof (rule rfold_invariant [where P = "\<lambda>st. keeps_loading c (fst st)" and f = "load_property S (loadProperties S n)"
          and xs = "gMap S r" and s = "(c, [])"])
      show "rfold (load_property S (loadProperties S n)) (gMap S r) (c, []) = Inr (c', ps)" using Suc.prems True by simp
      show "keeps_loading c (fst (c, []))" by (simp add: keeps_loading_def)
      fix x and s t :: "'a schema \<times> property kvs"
      assume s: "keeps_loading c (fst s)" and run: "load_property S (loadProperties S n) x s = Inr t"
      have "keeps_loading (fst s) (fst t)"
        by (rule load_property_keeps [of S "loadProperties S n" x "fst s" "snd s" "fst t" "snd t"])
          (use run Suc.IH in auto)
      with s show "keeps_loading c (fst t)" by (simp add: keeps_loading_def)
    qed
    then show ?thesis by simp
  qed
qed

lemma finishE:
  assumes "finish_schema S r (c0, ps) = Inr c"
  obtains triggers rules where "c = c0\<lparr>scProperties := ps, scTriggers := triggers, scAuthz := rules\<rparr>"
    "iFields (scPrimaryIndex c0) \<noteq> []" "PrimaryKey c0 \<in> set (slStrings S (gValue S (gGet S r ''required'')))"
  using assms unfolding finish_schema_def Let_def prod.case
  by (elim rbindE) (simp split: if_splits, elim rbindE, simp split: if_splits, elim rbindE, auto)

lemma newCollectionSchemaE:
  assumes "newCollectionSchema S n (Some y) = Inr c"
  obtains json c0 ps where "YAMLToJSON S y = Inr json" "slCompile S json = None"
    "loadProperties S n (gGet S (slParse S json) ''properties'') (blank_schema S json) = Inr (c0, ps)"
    "finish_schema S (slParse S json) (c0, ps) = Inr c"
  using assms unfolding newCollectionSchema_def Let_def option.case
  by (elim rbindE) (auto split: option.splits elim!: rbindE)

lemma newCollectionSchema_loading:
  assumes "newCollectionSchema S n content = Inr c"
  shows "loading c \<and> (\<exists>path. scPrimaryIndex c = primary_index path)"
proof -
  from assms obtain y where y: "content = Some y" by (auto simp: newCollectionSchema_def split: option.splits)
  from assms [unfolded y] show ?thesis
  proof (rule newCollectionSchemaE)
    fix json c0 ps
    assume run: "loadProperties S n (gGet S (slParse S json) ''properties'') (blank_schema S json) = Inr (c0, ps)"
      and fin: "finish_schema S (slParse S json) (c0, ps) = Inr c"
    obtain triggers rules where c: "c = c0\<lparr>scProperties := ps, scTriggers := triggers, scAuthz := rules\<rparr>"
      and f: "iFields (scPrimaryIndex c0) \<noteq> []" by (rule finishE [OF fin])
    have "loading c0" using loadProperties_keeps [OF run] by (simp add: keeps_loading_def loading_blank)
    moreover have "scPrimaryIndex c0 \<noteq> no_index" using f by (auto simp: no_index_def)
    ultimately show ?thesis by (auto simp: loading_def c)
  qed
qed


subsection \<open>A small JSON reader for the witnesses\<close>

text \<open>Texts are JSON objects, positions carry their path.\<close>

fun dots :: "string \<Rightarrow> string list" where
  "dots [] = [[]]"
| "dots (c # cs) = (if c = CHR ''.'' then [] # dots cs else (case dots cs of [] \<Rightarrow> [[c]] | s # ss \<Rightarrow> (c # s) # ss))"

fun walk :: "any \<Rightarrow> string list \<Rightarrow> any option" where
  "walk v [] = Some v"
| "walk (AMap m) (p # ps) = (case map_of m p of None \<Rightarrow> None | Some v \<Rightarrow> walk v ps)"
| "walk v (p # ps) = None"

definition under :: "string \<Rightarrow> string \<Rightarrow> string" where
  "under pos key = (if pos = [] then key else pos @ ''.'' @ key)"

definition members :: "any \<Rightarrow> any kvs" where
  "members v = (case v of AMap m \<Rightarrow> m | _ \<Rightarrow> [])"

definition text_of :: "any \<Rightarrow> string" where
  "text_of v = (case v of AStr s \<Rightarrow> s | _ \<Rightarrow> [])"

definition member :: "any \<Rightarrow> string \<Rightarrow> any" where
  "member v key = (case map_of (members v) key of None \<Rightarrow> ANil | Some x \<Rightarrow> x)"

definition texts_of :: "any \<Rightarrow> string list" where
  "texts_of v = (case v of ASlice xs \<Rightarrow> map text_of xs | _ \<Rightarrow> [])"

definition tree_lib :: "(any kvs, string \<times> any option) schema_lib" where
  "tree_lib = \<lparr>slIsJSON = (\<lambda>_. True), slFromYAML = Inr, slToYAML = Inr, slCompile = (\<lambda>_. None),
     slParse = (\<lambda>r. ([], Some (AMap r))),
     gGet = (\<lambda>(pos, v) p. (under pos p, case v of None \<Rightarrow> None | Some x \<Rightarrow> walk x (dots p))),
     gExists = (\<lambda>(pos, v). v \<noteq> None), gString = (\<lambda>(pos, v). case v of Some x \<Rightarrow> text_of x | None \<Rightarrow> []),
     gBool = (\<lambda>(pos, v). v = Some (ABool True)), gValue = (\<lambda>(pos, v). case v of Some x \<Rightarrow> x | None \<Rightarrow> ANil),
     gMap = (\<lambda>(pos, v). case v of Some x \<Rightarrow> map (\<lambda>(k, y). (k, (under pos k, Some y))) (members x) | None \<Rightarrow> []),
     gPath = (\<lambda>(pos, v) r. pos),
     slCompute = (\<lambda>v. Inr \<lparr>cRead = member v ''read'' = ABool True, cWrite = member v ''write'' = ABool True, cExpr = text_of (member v ''expr'')\<rparr>),
     slForeign = (\<lambda>v. Inr \<lparr>fkCollection = text_of (member v ''collection''), fkCascade = member v ''cascade'' = ABool True\<rparr>),
     slIndexes = (\<lambda>v. Inr (map (\<lambda>(k, x). (k, texts_of (member x ''additional_fields''))) (members v))),
     slTrigger = (\<lambda>v t. Inr (t\<lparr>trScript := text_of (member v ''script'')\<rparr>)), slAuthz = (\<lambda>v. Inr []),
     slCheckProperty = (\<lambda>_. None), slCheckIndex = (\<lambda>_. None), slCheckTrigger = (\<lambda>_. None), slCheckAuthz = (\<lambda>_. None),
     slStrings = texts_of, slShow = (\<lambda>required i. [])\<rparr>"

definition text_property :: any where
  "text_property = AMap [(''type'', AStr ''string'')]"

definition key_property :: any where
  "key_property = AMap [(''type'', AStr ''string''), (''x-primary'', ABool True)]"

definition user_text :: "any kvs" where
  "user_text = [(''type'', AStr ''object''), (''x-collection'', AStr ''user''), (''required'', ASlice [AStr ''_id'']),
     (''properties'', AMap [(''_id'', key_property),
        (''contact'', AMap [(''type'', AStr ''object''), (''properties'', AMap [(''email'', AMap [(''type'', AStr ''string''), (''x-unique'', ABool True)])])]),
        (''account'', AMap [(''type'', AStr ''string''), (''x-foreign'', AMap [(''collection'', AStr ''account''), (''cascade'', ABool True)])])])]"

definition user_loaded :: "any kvs schema" where
  "user_loaded = (case newCollectionSchema tree_lib 3 (Some user_text) of Inr c \<Rightarrow> c | Inl _ \<Rightarrow> blank_schema tree_lib [])"

lemma user_loads: "newCollectionSchema tree_lib 3 (Some user_text) = Inr user_loaded"
proof -
  have "case newCollectionSchema tree_lib 3 (Some user_text) of Inr c \<Rightarrow> True | Inl _ \<Rightarrow> False" by code_simp
  then show ?thesis by (simp add: user_loaded_def split: sum.splits)
qed


subsection \<open>Reloading\<close>

lemma stored_reload:
  assumes "newCollectionSchema S n (Some y) = Inr c" and "\<And>y json. slFromYAML S y = Inr json \<Longrightarrow> slIsJSON S json"
  shows "newCollectionSchema S n (Some (MarshalJSON c)) = Inr c"
  using assms(1)
proof (rule newCollectionSchemaE)
  fix json c0 ps
  assume y: "YAMLToJSON S y = Inr json" and comp: "slCompile S json = None"
    and run: "loadProperties S n (gGet S (slParse S json) ''properties'') (blank_schema S json) = Inr (c0, ps)"
    and fin: "finish_schema S (slParse S json) (c0, ps) = Inr c"
  have "scRaw c0 = json" using loadProperties_keeps [OF run] by (simp add: keeps_loading_def)
  then have raw: "MarshalJSON c = json" using fin by (auto simp: MarshalJSON_def elim!: finishE)
  have "slIsJSON S json" using y assms(2) by (auto simp: YAMLToJSON_def split: if_splits)
  then have "YAMLToJSON S json = Inr json" by (simp add: YAMLToJSON_def)
  then show ?thesis by (simp add: raw newCollectionSchema_def comp run fin)
qed

text \<open>
  A loaded schema loads again from the text that it is stored as, and to the same schema
  (the conversion of YAML gives JSON). Decoded into another schema object the same text gives
  the same schema under the old name of that object.
\<close>

lemma stored_schema_reloads:
  assumes "newCollectionSchema S n (Some y) = Inr c" and "\<forall>y json. slFromYAML S y = Inr json \<longrightarrow> slIsJSON S json"
  shows "newCollectionSchema S n (Some (MarshalJSON c)) = Inr c \<and>
    UnmarshalJSON S n (Some (MarshalJSON c)) old = Inr (c\<lparr>scCollection := scCollection old\<rparr>)"
  using stored_reload [OF assms(1)] assms(2) by (simp add: UnmarshalJSON_def refreshSchema_def)

lemma stored_schema_reloads_witness:
  "newCollectionSchema tree_lib 3 (Some (MarshalJSON user_loaded)) = Inr user_loaded"
  using stored_schema_reloads [OF user_loads] by (simp add: tree_lib_def)

subsection \<open>What a property gets\<close>

text \<open>
  A property that loads is registered under its key and under its path; a primary property
  makes the primary index, any other one that is unique or a foreign key has its own indexes,
  and the last of them is the one that enforces the foreign key.
\<close>

lemma property_registered:
  assumes "register_property S v p c properties = Inr (c', properties')"
  shows "\<exists>q. pName q = pName p \<and> pPath q = pPath p \<and> map_of properties' (pName p) = Some q \<and>
    map_of (scPropertyPaths c') (pPath p) = Some q \<and>
    (pPrimary q \<longrightarrow> scPrimaryIndex c' = primary_index (pPath p)) \<and>
    (\<not> pPrimary q \<and> pUnique q \<longrightarrow> map_of (scIndexing c') (pPath p @ ''.uniqueidx'') = Some (unique_index (pPath p))) \<and>
    (\<not> pPrimary q \<and> (pUnique q \<or> pForeignKey q \<noteq> None) \<longrightarrow>
       map_of (scIndexing c') (pPath p @ ''.foreignidx'') = Some (foreign_index (pPath p) q))"
  using assms
proof (rule registerE)
  fix c1 q
  assume q: "pName q = pName p" "pPath q = pPath p" and ps: "properties' = AList.update (pName q) q properties"
    and k: "key_indexes (pPath q) q (c1\<lparr>scPropertyPaths := AList.update (pPath q) q (scPropertyPaths c1)\<rparr>) = Inr c'"
  have "scPropertyPaths c' = AList.update (pPath q) q (scPropertyPaths c1)"
    "pPrimary q \<longrightarrow> scPrimaryIndex c' = primary_index (pPath p)"
    "\<not> pPrimary q \<and> pUnique q \<longrightarrow> map_of (scIndexing c') (pPath p @ ''.uniqueidx'') = Some (unique_index (pPath p))"
    "\<not> pPrimary q \<and> (pUnique q \<or> pForeignKey q \<noteq> None) \<longrightarrow>
       map_of (scIndexing c') (pPath p @ ''.foreignidx'') = Some (foreign_index (pPath p) q)"
    using k q(2) by (auto simp: key_indexes_def unique_index_def foreign_index_def split: if_splits)
  with q ps show ?thesis by (intro exI [of _ q]) (simp add: update_conv')
qed

lemma property_registered_witness:
  "map_of (scPropertyPaths (fst (projr (register_property tree_lib ([], Some text_property)
     \<lparr>pPrimary = False, pName = ''email'', pType = ''string'', pPath = ''contact.email'', pImmutable = False, pUnique = True,
       pForeignKey = None, pCompute = None, pDefault = None\<rparr> (blank_schema tree_lib user_text) [])))) ''contact.email'' \<noteq> None"
proof -
  let ?p = "\<lparr>pPrimary = False, pName = ''email'', pType = ''string'', pPath = ''contact.email'', pImmutable = False, pUnique = True,
       pForeignKey = None, pCompute = None, pDefault = None\<rparr>"
  let ?run = "register_property tree_lib ([], Some text_property) ?p (blank_schema tree_lib user_text) []"
  have "case ?run of Inr _ \<Rightarrow> True | Inl _ \<Rightarrow> False" by code_simp
  then have "?run = Inr (fst (projr ?run), snd (projr ?run))" by (simp split: sum.splits)
  from property_registered [OF this] show ?thesis by auto
qed

text \<open>
  The path of a nested property is where its value stands in the text. Under a reference that is
  in the common section, whatever the key of the referring property; and a key that ends in
  \<open>properties\<close> loses that part.
\<close>

definition odd_text :: "any kvs" where
  "odd_text = [(''x-collection'', AStr ''odd''), (''required'', ASlice [AStr ''_id'']),
     (''properties'', AMap [(''_id'', key_property), (''home'', AMap [(''$ref'', AStr ''#/common/address'')]),
        (''subproperties'', AMap [(''type'', AStr ''object''), (''properties'', AMap [(''size'', text_property)])])]),
     (''common'', AMap [(''address'', AMap [(''type'', AStr ''object''), (''properties'', AMap [(''city'', text_property)])])])]"

lemma odd_paths: "(case newCollectionSchema tree_lib 3 (Some odd_text) of Inr c \<Rightarrow> keys (scPropertyPaths c) | Inl _ \<Rightarrow> [])
    = [''_id'', ''address.city'', ''home'', ''subsize'', ''subproperties'']"
  by code_simp

subsection \<open>Termination\<close>

lemma fueled_parts [simp]:
  "fueled (load_compute S v)" "fueled (load_foreign S v typ)" "fueled (load_indexes S v typ path c)" "fueled (key_indexes path p c)"
  "fueled (resolve S c v)"
  by (auto simp: load_compute_def load_foreign_def load_indexes_def key_indexes_def resolve_def loadRef_def Let_def)

lemma fueled_register [simp]: "fueled (register_property S v p c ps)"
  unfolding register_property_def Let_def by (intro fueled_rbind) auto

lemma fueled_check_all [simp]: "fueled (check_all check m)"
  unfolding check_all_def by (rule fueled_rfold) (auto simp: ValidateStruct_def split: option.splits prod.splits)

lemma fueled_finish [simp]: "fueled (finish_schema S r cp)"
  unfolding finish_schema_def load_triggers_def load_authz_def sort_Slice_def Let_def
  by (auto simp: load_trigger_def ValidateStruct_def fueled_sort_insert split: option.splits prod.splits)

text \<open>More fuel gives the same result, once there is one.\<close>

lemma load_nested_more:
  assumes "\<And>r c. fueled (rec r c) \<Longrightarrow> rec' r c = rec r c" and "fueled (load_nested S rec v typ c)"
  shows "load_nested S rec' v typ c = load_nested S rec v typ c"
  using assms by (auto simp: load_nested_def Let_def fueled_def rbind_eq_Inl)

lemma load_property_more:
  assumes rec: "\<And>r c. fueled (rec r c) \<Longrightarrow> rec' r c = rec r c" and run: "fueled (load_property S rec kv st)"
  shows "load_property S rec' kv st = load_property S rec kv st"
proof -
  obtain key v0 c ps where st: "kv = (key, v0)" "st = (c, ps)" by (cases kv; cases st) auto
  show ?thesis
  proof (cases "resolve S c v0")
    case (Inl e)
    then show ?thesis by (simp add: load_property_def st)
  next
    case (Inr v)
    let ?kind = "pType (property_of S key (property_path (gPath S v0 (scRaw c))) v)"
    show ?thesis
    proof (cases "load_compute S v")
      case (Inl e)
      with Inr show ?thesis by (simp add: load_property_def st Let_def)
    next
      case compute: (Inr cf)
      with Inr run have "fueled (load_nested S rec v ?kind c)"
        by (auto simp: load_property_def st Let_def fueled_def)
      from load_nested_more [of rec rec', OF rec this] Inr compute show ?thesis by (simp add: load_property_def st Let_def)
    qed
  qed
qed

lemma rfold_more:
  assumes "\<And>x s. x \<in> set xs \<Longrightarrow> fueled (f x s) \<Longrightarrow> g x s = f x s" and "fueled (rfold f xs s)"
  shows "rfold g xs s = rfold f xs s"
  using assms
proof (induction xs arbitrary: s)
  case Nil
  then show ?case by simp
next
  case (Cons x xs)
  from Cons.prems(2) have "fueled (f x s)" by (auto simp: fueled_def)
  with Cons.prems(1) have g: "g x s = f x s" by simp
  show ?case
  proof (cases "f x s")
    case (Inl e)
    with g show ?thesis by simp
  next
    case (Inr t)
    with Cons g show ?thesis by simp
  qed
qed

lemma loadProperties_more: "fueled (loadProperties S n r c) \<Longrightarrow> loadProperties S (Suc n) r c = loadProperties S n r c"
proof (induction n arbitrary: r c)
  case 0
  then show ?case by (auto simp: fueled_def split: if_splits)
next
  case (Suc n)
  show ?case
  proof (cases "gExists S r")
    case True
    have "rfold (load_property S (loadProperties S (Suc n))) (gMap S r) (c, []) = rfold (load_property S (loadProperties S n)) (gMap S r) (c, [])"
      by (rule rfold_more, rule load_property_more [of "loadProperties S n"], rule Suc.IH) (use Suc.prems True in auto)
    then show ?thesis using True by (simp del: loadProperties.simps(2) add: loadProperties.simps(2) [of S "Suc n"] loadProperties.simps(2) [of S n])
  qed simp
qed

lemma loadProperties_enough:
  assumes "fueled (loadProperties S n r c)" "n \<le> m"
  shows "loadProperties S m r c = loadProperties S n r c"
  using assms(2)
proof (induction m rule: dec_induct)
  case (step m)
  then have "fueled (loadProperties S m r c)" using assms(1) by simp
  from loadProperties_more [OF this] step.IH show ?case by simp
qed simp

text \<open>The references of a text are well-founded when what is nested in a property lies lower.\<close>

definition refs_descend :: "('r, 'g, 'z) schema_lib_scheme \<Rightarrow> 'r \<Rightarrow> ('g \<Rightarrow> nat) \<Rightarrow> bool" where
  "refs_descend S json h \<longleftrightarrow> (\<forall>r k v0 v. gExists S r \<longrightarrow> (k, v0) \<in> set (gMap S r) \<longrightarrow> resolve S (blank_schema S json) v0 = Inr v \<longrightarrow>
     gExists S (gGet S v ''properties'') \<longrightarrow> h (gGet S v ''properties'') < h r)"

lemma loadRef_raw: "loadRef S c ref = loadRef S (blank_schema S (scRaw c)) ref"
  by (simp add: loadRef_def blank_schema_def Let_def)

lemma resolve_raw: "resolve S c v = resolve S (blank_schema S (scRaw c)) v"
  by (simp add: resolve_def loadRef_raw [of S c])

lemma load_property_fueled:
  assumes "\<And>v. resolve S c v0 = Inr v \<Longrightarrow> gExists S (gGet S v ''properties'') \<Longrightarrow> fueled (rec (gGet S v ''properties'') c)"
  shows "fueled (load_property S rec (key, v0) (c, ps))"
  unfolding load_property_def Let_def prod.case
  by (intro fueled_rbind) (auto simp: load_nested_def Let_def intro!: assms)

lemma loadProperties_fueled:
  assumes "refs_descend S json h"
  shows "scRaw c = json \<Longrightarrow> h r < n \<Longrightarrow> fueled (loadProperties S n r c)"
proof (induction n arbitrary: r c)
  case 0
  then show ?case by simp
next
  case (Suc n)
  show ?case
  proof (cases "gExists S r")
    case True
    have "fueled (rfold (load_property S (loadProperties S n)) xs (c, ps))"
      if "set xs \<subseteq> set (gMap S r)" "scRaw c = json" for xs c ps
      using that
    proof (induction xs arbitrary: c ps)
      case (Cons kv xs)
      obtain key v0 where kv: "kv = (key, v0)" by fastforce
      have "fueled (load_property S (loadProperties S n) kv (c, ps))" unfolding kv
      proof (rule load_property_fueled)
        fix v assume v: "resolve S c v0 = Inr v" and ex: "gExists S (gGet S v ''properties'')"
        have "h (gGet S v ''properties'') < h r"
          using assms True v ex Cons.prems resolve_raw [of S c v0] unfolding refs_descend_def by (auto simp: kv)
        then show "fueled (loadProperties S n (gGet S v ''properties'') c)" using Suc Cons.prems by simp
      qed
      moreover have "fueled (rfold (load_property S (loadProperties S n)) xs st)"
        if run: "load_property S (loadProperties S n) kv (c, ps) = Inr st" for st
      proof -
        obtain c' ps' where st: "st = (c', ps')" by fastforce
        have "keeps_loading c c'"
          by (rule load_property_keeps [OF run [unfolded st]]) (rule loadProperties_keeps)
        then show ?thesis unfolding st using Cons by (simp add: keeps_loading_def)
      qed
      ultimately show ?case by (simp only: rfold.simps) (rule fueled_rbind)
    qed simp
    with True Suc.prems show ?thesis by simp
  qed simp
qed

text \<open>
  C35: when the references of a schema are well-founded, loading ends: a depth above that of its
  properties is enough, and any more gives the same result.
\<close>

theorem loading_ends:
  assumes "YAMLToJSON S y = Inr json" and "refs_descend S json h"
    and "h (gGet S (slParse S json) ''properties'') < n" and "n \<le> m"
  shows "newCollectionSchema S n (Some y) \<noteq> Inl NoFuel \<and> newCollectionSchema S m (Some y) = newCollectionSchema S n (Some y)"
proof -
  let ?r = "gGet S (slParse S json) ''properties''"
  have ok: "fueled (loadProperties S n ?r (blank_schema S json))"
    by (rule loadProperties_fueled [where h = h, OF assms(2) blank_simps assms(3)])
  have "fueled (newCollectionSchema S n (Some y))"
    unfolding newCollectionSchema_def Let_def option.case assms(1) rbind_Inr
  proof (rule fueled_rbind)
    show "fueled (case slCompile S json of None \<Rightarrow> Inr () | Some e \<Rightarrow> Inl (Fail (wrap e Validation ''invalid json schema'')))"
      by (cases "slCompile S json") simp_all
    show "fueled (rbind (loadProperties S n ?r (blank_schema S json)) (finish_schema S (slParse S json)))"
      by (rule fueled_rbind [OF ok fueled_finish])
  qed
  moreover have "newCollectionSchema S m (Some y) = newCollectionSchema S n (Some y)"
    unfolding newCollectionSchema_def Let_def option.case assms(1) rbind_Inr loadProperties_enough [OF ok assms(4)] ..
  ultimately show ?thesis by (simp add: fueled_def)
qed

lemma walk_size: "walk x ps = Some y \<Longrightarrow> size y \<le> size x"
proof (induction x ps rule: walk.induct)
  case (2 m p ps)
  then obtain v where v: "map_of m p = Some v" "walk v ps = Some y" by (auto split: option.splits)
  have "size v \<le> size_list (size_prod (\<lambda>x. 0) size) m"
    by (rule size_list_estimation' [OF map_of_SomeD [OF v(1)]]) (simp add: size_prod_simp)
  with 2(1) [OF v(1,2)] show ?case by simp
qed simp_all

lemma tree_descends:
  assumes "\<And>p. walk (AMap json) (''common'' # p) = None"
  shows "refs_descend tree_lib json (\<lambda>(pos, v). case v of None \<Rightarrow> 0 | Some x \<Rightarrow> size x)"
  unfolding refs_descend_def
proof (intro allI impI)
  fix r v0 v :: "string \<times> any option" and k
  assume in_map: "(k, v0) \<in> set (gMap tree_lib r)" and res: "resolve tree_lib (blank_schema tree_lib json) v0 = Inr v"
    and props: "gExists tree_lib (gGet tree_lib v ''properties'')"
  from in_map obtain pos m y where r: "r = (pos, Some (AMap m))" and y: "v0 = (under pos k, Some y)" "(k, y) \<in> set m"
    by (cases r) (auto simp: tree_lib_def members_def split: option.splits any.splits)
  have "v = v0"
  proof (rule ccontr)
    assume "v \<noteq> v0"
    with res obtain path where "HasPrefix path refPrefix" "v = gGet tree_lib (slParse tree_lib json) path"
      by (auto simp: resolve_def loadRef_def Let_def blank_schema_def split: if_splits)
    moreover from this obtain rest where "dots path = ''common'' # rest"
      by (auto simp: HasPrefix_def refPrefix_def prefix_def)
    ultimately show False using props assms by (auto simp: tree_lib_def)
  qed
  with props y obtain z where z: "walk y (dots ''properties'') = Some z" "gGet tree_lib v ''properties'' = (under (under pos k) ''properties'', Some z)"
    by (auto simp: tree_lib_def)
  have "size y \<le> size_list (size_prod (\<lambda>x. 0) size) m"
    by (rule size_list_estimation' [OF y(2)]) (simp add: size_prod_simp)
  with walk_size [OF z(1)] show "(case gGet tree_lib v ''properties'' of (pos, v) \<Rightarrow> case v of None \<Rightarrow> 0 | Some x \<Rightarrow> size x)
      < (case r of (pos, v) \<Rightarrow> case v of None \<Rightarrow> 0 | Some x \<Rightarrow> size x)"
    by (simp add: z(2) r)
qed

theorem loading_ends_witness:
  "newCollectionSchema tree_lib 200 (Some user_text) \<noteq> Inl NoFuel \<and> newCollectionSchema tree_lib 300 (Some user_text) = newCollectionSchema tree_lib 200 (Some user_text)"
proof (rule loading_ends)
  show "YAMLToJSON tree_lib user_text = Inr user_text" by (simp add: YAMLToJSON_def tree_lib_def)
  show "refs_descend tree_lib user_text (\<lambda>(pos, v). case v of None \<Rightarrow> 0 | Some x \<Rightarrow> size x)"
    by (rule tree_descends) (simp add: user_text_def)
  show "(case gGet tree_lib (slParse tree_lib user_text) ''properties'' of (pos, v) \<Rightarrow> case v of None \<Rightarrow> 0 | Some x \<Rightarrow> size x) < (200 :: nat)"
    by code_simp
qed simp

text \<open>
  A property that refers to a common type which holds it again is loaded without end,
  whatever the depth (in the code the stack overflows, which ends the process).
\<close>

lemma self_reference_diverges:
  assumes "gExists S r" and "gMap S r = (key, v0) # others" and "gExists S (gGet S v0 ''$ref'')"
    and "loadRef S (blank_schema S json) (gString S (gGet S v0 ''$ref'')) = Inr v"
    and "\<not> gExists S (gGet S v ''x-compute'')" and "gString S (gGet S v ''type'') = ''object''"
    and "gGet S v ''properties'' = r" and "scRaw c = json"
  shows "loadProperties S n r c = Inl NoFuel"
proof (induction n)
  case 0
  then show ?case using assms(1) by simp
next
  case (Suc n)
  have "resolve S c v0 = Inr v" using assms(3,4,8) loadRef_raw [of S c] by (simp add: resolve_def)
  moreover have "load_compute S v = Inr None" using assms(5) by (simp add: load_compute_def)
  moreover have "pType (property_of S key path v) = ''object''" for path using assms(6) by (simp add: property_of_def)
  ultimately have "load_property S (loadProperties S n) (key, v0) (c, []) = Inl NoFuel"
    using Suc assms(1,7) by (simp add: load_property_def Let_def load_nested_def)
  then show ?case using assms(1,2) by simp
qed

definition loop_text :: "any kvs" where
  "loop_text = [(''common'', AMap [(''node'', AMap [(''type'', AStr ''object''),
     (''properties'', AMap [(''parent'', AMap [(''$ref'', AStr ''#/common/node'')])])])])]"

lemma self_reference_diverges_witness:
  "\<forall>n. loadProperties tree_lib n (gGet tree_lib (slParse tree_lib loop_text) ''common.node.properties'') (blank_schema tree_lib loop_text) = Inl NoFuel"
proof (rule allI, rule self_reference_diverges)
  let ?at = "\<lambda>p. gGet tree_lib (slParse tree_lib loop_text) p"
  show "gExists tree_lib (?at ''common.node.properties'')" by code_simp
  show "gMap tree_lib (?at ''common.node.properties'') = [(''parent'', ?at ''common.node.properties.parent'')]" by code_simp
  show "gExists tree_lib (gGet tree_lib (?at ''common.node.properties.parent'') ''$ref'')" by code_simp
  show "loadRef tree_lib (blank_schema tree_lib loop_text) (gString tree_lib (gGet tree_lib (?at ''common.node.properties.parent'') ''$ref''))
      = Inr (?at ''common.node'')" by code_simp
  show "\<not> gExists tree_lib (gGet tree_lib (?at ''common.node'') ''x-compute'')" by code_simp
  show "gString tree_lib (gGet tree_lib (?at ''common.node'') ''type'') = ''object''" by code_simp
  show "gGet tree_lib (?at ''common.node'') ''properties'' = ?at ''common.node.properties''" by code_simp
  show "scRaw (blank_schema tree_lib loop_text) = loop_text" by (simp add: blank_schema_def Let_def)
qed

end
