(* ===== verification/ConfigLaws.thy ===== *)
theory ConfigLaws
  imports Plan LoaderLaws
begin

text \<open>
  What the configuration operations do, over the reference store: a stored schema is read back;
  a collection that is locked is left alone; configuring a collection stores its schema and
  touches no index; dropping one removes everything under its prefix; which plans are refused;
  and what opening a database that has collections leaves in the cache.
\<close>

definition conf_mem :: "('r kvs, 'r memtx, 'r, 'g, 't) conf_env \<Rightarrow> bool" where
  "conf_mem X \<longleftrightarrow> ceK X = mem_db \<and> codec_laws (ceCodec X) \<and> (\<forall>y json. slFromYAML (ceS X) y = Inr json \<longrightarrow> slIsJSON (ceS X) json)"

abbreviation cdata :: "('d, 'r) conf \<Rightarrow> 'd" where
  "cdata cf \<equiv> stD (cfDb cf)"

definition set_data :: "'d \<Rightarrow> ('d, 'r) conf \<Rightarrow> ('d, 'r) conf" where
  "set_data d cf = cf\<lparr>cfDb := (cfDb cf)\<lparr>stD := d\<rparr>\<rparr>"

named_theorems conf_simps "evaluation of configuration steps over the reference store"

lemma mem_db_simps [simp]:
  "dbOps mem_db = mem_ops" "dbNewTx mem_db opts d = Inr \<lparr>mt_opts = opts, mt_data = d\<rparr>" "dbCommit mem_db s d = (Inr (), mt_data s)"
  "dbRollback mem_db s = Inr ()" "dbDropPrefix mem_db ps d = Inr (filter (\<lambda>kv. \<not> list_ex (\<lambda>p. prefix p (fst kv)) ps) d)"
  by (simp_all add: mem_db_def)

lemma badger_Tx_mem [conf_simps]: "badger_Tx mem_db opts fn d = (case fn \<lparr>mt_opts = opts, mt_data = d\<rparr> of
    (Inl e, _) \<Rightarrow> (Inl e, d) | (Inr a, s) \<Rightarrow> (Inr a, mt_data s))"
  by (simp add: badger_Tx_def split: sum.splits prod.splits)

lemma on_store_run [conf_simps]: "on_store m cf = (case m (cdata cf) of (r, d) \<Rightarrow> (r, set_data d cf))"
  by (simp add: on_store_def on_db_def set_data_def split: prod.splits)

lemma set_data_simps [simp]:
  "cdata (set_data d cf) = d" "cfColl (set_data d cf) = cfColl cf" "cfDag (set_data d cf) = cfDag cf"
  "stTick (cfDb (set_data d cf)) = stTick (cfDb cf)" "set_data (cdata cf) cf = cf" "set_data d (set_data d' cf) = set_data d cf"
  by (simp_all add: set_data_def)

lemma conf_draw_run [conf_simps]: "conf_draw f cf =
    (Inr (f (stTick (cfDb cf))), cf\<lparr>cfDb := (cfDb cf)\<lparr>stTick := Suc (stTick (cfDb cf))\<rparr>\<rparr>)"
  by (simp add: conf_draw_def on_db_def)

subsection \<open>Stored schemas\<close>

definition put_data :: "bytes \<Rightarrow> 'r \<Rightarrow> 'r kvs \<Rightarrow> 'r kvs" where
  "put_data k v d = AList.update k v (AList.clearjunk d)"

lemma put_data_view [simp]: "map_of (put_data k v d) = (map_of d)(k \<mapsto> v)"
  by (simp add: put_data_def update_conv' map_of_clearjunk)

lemma put_Tx [conf_simps]: "badger_Tx mem_db read_write (kv_put mem_ops k v) d = (Inr (), put_data k v d)"
  by (simp add: badger_Tx_mem kv_put_def mem_ops_def mem_set_def read_write_def put_data_def)

lemma remove_Tx [conf_simps]: "badger_Tx mem_db read_write (kv_remove mem_ops k) d = (Inr (), AList.delete k d)"
  by (simp add: badger_Tx_mem kv_remove_def mem_ops_def mem_delete_def read_write_def)

lemma persist_run: "ceK X = mem_db \<Longrightarrow> persistCollectionConfig X c cf = (Inr (),
    (set_data (put_data (collectionConfigKey (scCollection c)) (MarshalJSON c) (cdata cf)) cf)
      \<lparr>cfColl := AList.update (scCollection c) c (cfColl cf)\<rparr>)"
  by (simp add: persistCollectionConfig_def ebind_def on_store_run put_Tx)

lemma get_persisted_run: "ceK X = mem_db \<Longrightarrow> getPersistedCollection X name cf =
    (newCollectionSchema (ceS X) (ceLoad X) (map_of (cdata cf) (collectionConfigKey name)), cf)"
  by (simp add: getPersistedCollection_def conf_simps mem_ops_def mem_get_def split: sum.splits)

text \<open>
  A schema that was loaded and is stored is cached, and reading it back gives the same schema.
\<close>

lemma persisted_reads_back:
  assumes "conf_mem X" and "newCollectionSchema (ceS X) (ceLoad X) (Some y) = Inr c"
  shows "fst (getPersistedCollection X (scCollection c) (snd (persistCollectionConfig X c cf))) = Inr c \<and>
    map_of (cfColl (snd (persistCollectionConfig X c cf))) (scCollection c) = Some c"
proof -
  have "newCollectionSchema (ceS X) (ceLoad X) (Some (MarshalJSON c)) = Inr c"
    by (rule stored_reload [OF assms(2)]) (use assms(1) in \<open>simp add: conf_mem_def\<close>)
  with assms(1) show ?thesis by (simp add: persist_run get_persisted_run conf_mem_def update_conv')
qed

subsection \<open>A configuration for the witnesses\<close>

definition tree_codec :: "any kvs lock_codec" where
  "tree_codec = \<lparr>lcMarshal = (\<lambda>m. [(''id'', AStr (lmID m)), (''start'', ATime (lmStart m)),
        (''last'', ATime (lmLastUpdate m)), (''key'', AStr (lmKey m))]),
     lcUnmarshal = (\<lambda>v. case v of
        Some [(_, AStr h), (_, ATime a), (_, ATime b), (_, AStr k)] \<Rightarrow> Inr \<lparr>lmID = h, lmStart = a, lmLastUpdate = b, lmKey = k\<rparr>
      | _ \<Rightarrow> Inl (Plain ''unexpected end of JSON input''))\<rparr>"

definition tree_conf :: "(any kvs kvs, any kvs memtx, any kvs, string \<times> any option, any kvs) conf_env" where
  "tree_conf = \<lparr>ceE = flat_env [], ceK = mem_db, ceS = tree_lib, ceDag = visit_all, ceCodec = tree_codec, ceNotFound = (\<lambda>_. False),
     ceVM = no_globals, ceQuery = 3, ceWrite = 5, ceLoad = 3, ceShow = scCollection, ceYAMLJSON = Inr,
     ceUnmarshal = (\<lambda>_ _. Inr []), ceYAMLUnmarshal = (\<lambda>_ _. Inr []),
     ceTemplate = (\<lambda>name. if name = ''user.yaml'' then Some user_text else None), ceExecute = (\<lambda>t _. Inr (Some t))\<rparr>"

definition empty_conf :: "(any kvs kvs, any kvs) conf" where
  "empty_conf = \<lparr>cfDb = \<lparr>stD = [], stTick = 0\<rparr>, cfColl = [], cfDag = newCollectionDag\<rparr>"

lemma tree_codec_laws: "codec_laws tree_codec"
  by (simp add: codec_laws_def tree_codec_def)

lemma tree_conf_mem: "conf_mem tree_conf"
  by (simp add: conf_mem_def tree_conf_def tree_codec_laws) (simp add: tree_lib_def)

lemma persisted_reads_back_witness:
  "fst (getPersistedCollection tree_conf ''user'' (snd (persistCollectionConfig tree_conf user_loaded empty_conf))) = Inr user_loaded"
proof -
  have y: "newCollectionSchema (ceS tree_conf) (ceLoad tree_conf) (Some user_text) = Inr user_loaded"
    by (simp add: tree_conf_def user_loads)
  have "scCollection user_loaded = ''user''" by code_simp
  with persisted_reads_back [OF tree_conf_mem y, of empty_conf] show ?thesis by simp
qed

subsection \<open>Locked collections\<close>

lemma lock_run:
  assumes "ceK X = mem_db" "stTick (cfDb cf) = tk"
  shows "lockCollection X name cf = (let l = (NewLocker (enKsuid (ceE X) tk) (lock_key name) minute)\<lparr>lkStart := enClock (ceE X) (Suc tk)\<rparr>;
       cf' = cf\<lparr>cfDb := \<lparr>stD = cdata cf, stTick = tk + 4\<rparr>\<rparr> in
     if lease_expired l (enClock (ceE X) (tk + 2)) (current_meta (ceCodec X) (map_of (cdata cf) (lock_key name)))
     then (Inr l, set_data (put_data (lock_key name) (lcMarshal (ceCodec X) \<lparr>lmID = lkID l, lmStart = lkStart l,
         lmLastUpdate = enClock (ceE X) (tk + 3), lmKey = lock_key name\<rparr>) (cdata cf)) cf')
     else (fail Forbidden (''collection: '' @ name @ '' is locked''), cf'))"
  using assms
  by (simp add: lockCollection_def ebind_def conf_simps wrap_eff_def TryLock_def Let_def mem_ops_def mem_get_def setLock_def
      mem_set_def NewLocker_def lease_expired_def put_data_def set_data_def numeral_eq_Suc)

text \<open>
  While another holder's lease on a collection is not over, configuring or dropping the
  collection is refused and the store stays as it is.
\<close>

lemma locked_collection_refused:
  assumes "ceK X = mem_db" and "lcUnmarshal (ceCodec X) (map_of (cdata cf) (lock_key (scCollection c))) = Inr m"
    and "time_Since (enClock (ceE X) (stTick (cfDb cf) + 2)) (lmLastUpdate m) \<le> 4 * minute"
  shows "fst (configureCollection X cx c cf) = fail Forbidden (''collection: '' @ scCollection c @ '' is locked'') \<and>
    fst (dropCollection X cx c cf) = fail Forbidden (''collection: '' @ scCollection c @ '' is locked'') \<and>
    cdata (snd (configureCollection X cx c cf)) = cdata cf \<and> cdata (snd (dropCollection X cx c cf)) = cdata cf"
proof -
  have "int64 (4 * minute) = 4 * minute" by (rule int64_id) (simp_all add: minute_def)
  with assms(3) have "\<not> lease_expired ((NewLocker h k minute)\<lparr>lkStart := a\<rparr>) (enClock (ceE X) (stTick (cfDb cf) + 2)) m" for h k a
    by (simp add: lease_expired_def NewLocker_def)
  then have "lockCollection X (scCollection c) cf = (fail Forbidden (''collection: '' @ scCollection c @ '' is locked''),
      cf\<lparr>cfDb := \<lparr>stD = cdata cf, stTick = stTick (cfDb cf) + 4\<rparr>\<rparr>)"
    using assms(2) by (simp add: lock_run [OF assms(1) refl] Let_def current_meta_def)
  then show ?thesis by (simp add: configureCollection_def dropCollection_def with_lock_def ebind_def fail_def Let_def)
qed

definition locked_conf :: "(any kvs kvs, any kvs) conf" where
  "locked_conf = empty_conf\<lparr>cfDb := \<lparr>stD = [(lock_key ''user'', lcMarshal tree_codec
     \<lparr>lmID = ''other'', lmStart = 0, lmLastUpdate = 1, lmKey = lock_key ''user''\<rparr>)], stTick = 0\<rparr>\<rparr>"

lemma locked_collection_refused_witness:
  "fst (dropCollection tree_conf user_ctx user_loaded locked_conf) = fail Forbidden ''collection: user is locked''"
proof -
  have name: "scCollection user_loaded = ''user''" by code_simp
  have k: "ceK tree_conf = mem_db" by (simp add: tree_conf_def)
  let ?m = "\<lparr>lmID = ''other'', lmStart = 0, lmLastUpdate = 1, lmKey = lock_key ''user''\<rparr>"
  have m: "lcUnmarshal (ceCodec tree_conf) (map_of (cdata locked_conf) (lock_key (scCollection user_loaded))) = Inr ?m"
    by (simp add: name locked_conf_def tree_conf_def tree_codec_def)
  have "time_Since (enClock (ceE tree_conf) (stTick (cfDb locked_conf) + 2)) (lmLastUpdate ?m) \<le> 4 * minute"
    by (simp add: tree_conf_def flat_env_def locked_conf_def time_Since_def minute_def)
  from locked_collection_refused [OF k m this, of user_ctx] show ?thesis by (simp add: name)
qed

subsection \<open>Configuring a collection\<close>

lemma unlock_run:
  assumes "ceK X = mem_db"
  obtains d where "unlock X l cf = set_data d cf" "map_of d = map_of (cdata cf) \<or> map_of d = (map_of (cdata cf))(lkKey l := None)"
proof -
  let ?d = "snd (keepalive_release badger_Tx mem_db (ceCodec X) l (cdata cf))"
  have "unlock X l cf = set_data ?d cf" by (simp add: unlock_def assms on_store_run split: prod.splits)
  moreover have "map_of ?d = map_of (cdata cf) \<or> map_of ?d = (map_of (cdata cf))(lkKey l := None)"
    by (auto simp: keepalive_release_def badger_Tx_mem ebind_def getLock_def delLock_def mem_ops_def mem_delete_def delete_conv' fun_upd_def
        split: sum.splits prod.splits)
  ultimately show thesis by (rule that)
qed

lemma with_lockE:
  assumes "ceK X = mem_db" "with_lock X name body cf = (Inr a, cf')"
  obtains l cf1 cf2 d where "body cf1 = (Inr a, cf2)" "cf' = set_data d cf2"
    "map_of d = map_of (cdata cf2) \<or> map_of d = (map_of (cdata cf2))(lock_key name := None)"
    "cfColl cf1 = cfColl cf" "cfDag cf1 = cfDag cf" "\<And>k. k \<noteq> lock_key name \<Longrightarrow> map_of (cdata cf1) k = map_of (cdata cf) k"
proof -
  from assms(2) obtain l cf1 where lock: "lockCollection X name cf = (Inr l, cf1)"
    and run: "(case body cf1 of (r, cf') \<Rightarrow> (r, unlock X l cf')) = (Inr a, cf')"
    unfolding with_lock_def by (rule ebind_InrE)
  from run obtain cf2 where body: "body cf1 = (Inr a, cf2)" and cf': "cf' = unlock X l cf2" by (cases "body cf1") auto
  obtain d where d: "unlock X l cf2 = set_data d cf2" "map_of d = map_of (cdata cf2) \<or> map_of d = (map_of (cdata cf2))(lkKey l := None)"
    by (rule unlock_run [OF assms(1)])
  from lock have l: "lkKey l = lock_key name" "cfColl cf1 = cfColl cf" "cfDag cf1 = cfDag cf"
      "\<And>k. k \<noteq> lock_key name \<Longrightarrow> map_of (cdata cf1) k = map_of (cdata cf) k"
    by (auto simp: lock_run [OF assms(1) refl] Let_def NewLocker_def split: if_splits)
  show thesis by (rule that [OF body _ _ l(2-4)]) (use cf' d l(1) in simp_all)
qed

lemma getIndexDiff_same:
  assumes "\<forall>k i. map_of m k = Some i \<longrightarrow> iName i = k" "distinct (keys m)"
  shows "getIndexDiff m m = \<lparr>toRemove = [], toAdd = [], toUpdate = []\<rparr>"
proof -
  have "map_of m (iName i) \<noteq> None" if "(k, i) \<in> set m" for k i
    using assms(1) map_of_in [OF assms(2) that] by auto
  then show ?thesis by (auto simp: getIndexDiff_def filter_empty_conv)
qed

lemma each_Nil [simp]: "each f [] = ret ()"
  by (simp add: each_def)

text \<open>
  C21: configuring a collection caches and stores its schema and changes nothing else in the
  store. The difference of the indexes is taken after the new schema has been stored, so it is
  empty: an index that the schema adds gets no entries for the documents there are, and one
  that it drops keeps its entries.
\<close>

theorem configure_leaves_indexes:
  assumes "conf_mem X" and "newCollectionSchema (ceS X) (ceLoad X) (Some y) = Inr c"
    and "configureCollection X cx c cf = (Inr (), cf')" and "k \<noteq> lock_key (scCollection c)"
  shows "map_of (cfColl cf') (scCollection c) = Some c \<and>
    map_of (cdata cf') k = (if k = collectionConfigKey (scCollection c) then Some (MarshalJSON c) else map_of (cdata cf) k)"
proof -
  have K: "ceK X = mem_db" using assms(1) by (simp add: conf_mem_def)
  have reload: "newCollectionSchema (ceS X) (ceLoad X) (Some (MarshalJSON c)) = Inr c"
    by (rule stored_reload [OF assms(2)]) (use assms(1) in \<open>simp add: conf_mem_def\<close>)
  have "loading c" using newCollectionSchema_loading [OF assms(2)] by simp
  then have diff: "getIndexDiff (scIndexing c) (scIndexing c) = \<lparr>toRemove = [], toAdd = [], toUpdate = []\<rparr>"
    by (intro getIndexDiff_same) (simp_all add: loading_def)
  show ?thesis
    using assms(3) unfolding configureCollection_def Let_def
  proof (rule with_lockE [OF K])
    fix cf1 cf2 d
    assume body: "ebind (persistCollectionConfig X c) (\<lambda>_. ebind (attempt (getPersistedCollection X (scCollection c))) (\<lambda>existing.
        ebind (each (\<lambda>i. ebind (removeIndex X (indexing_ctx cx) (scCollection c) i) (\<lambda>_. addIndex X (indexing_ctx cx) (scCollection c) i))
          (toUpdate (getIndexDiff (scIndexing c) (case existing of None \<Rightarrow> [] | Some s \<Rightarrow> scIndexing s)))) (\<lambda>_.
        ebind (each (removeIndex X (indexing_ctx cx) (scCollection c))
          (toRemove (getIndexDiff (scIndexing c) (case existing of None \<Rightarrow> [] | Some s \<Rightarrow> scIndexing s)))) (\<lambda>_.
        ebind (each (addIndex X (indexing_ctx cx) (scCollection c))
          (toAdd (getIndexDiff (scIndexing c) (case existing of None \<Rightarrow> [] | Some s \<Rightarrow> scIndexing s)))) (\<lambda>_.
        persistCollectionConfig X c))))) cf1 = (Inr (), cf2)"
      and cf': "cf' = set_data d cf2" "map_of d = map_of (cdata cf2) \<or> map_of d = (map_of (cdata cf2))(lock_key (scCollection c) := None)"
      and cf1: "\<And>k. k \<noteq> lock_key (scCollection c) \<Longrightarrow> map_of (cdata cf1) k = map_of (cdata cf) k"
    have "attempt (getPersistedCollection X (scCollection c)) (snd (persistCollectionConfig X c cf1))
        = (Inr (Some c), snd (persistCollectionConfig X c cf1))"
      by (simp add: attempt_def persist_run [OF K] get_persisted_run [OF K] reload)
    then have "cf2 = snd (persistCollectionConfig X c (snd (persistCollectionConfig X c cf1)))"
      using body by (simp add: ebind_def persist_run [OF K] diff)
    then show ?thesis
      using cf' cf1 assms(4) by (auto simp: persist_run [OF K] update_conv')
  qed
qed

theorem configure_leaves_indexes_witness:
  "map_of (cdata (snd (configureCollection tree_conf user_ctx user_loaded empty_conf))) ''cache.internal.collections.user'' = Some user_text"
proof -
  let ?run = "configureCollection tree_conf user_ctx user_loaded empty_conf"
  have y: "newCollectionSchema (ceS tree_conf) (ceLoad tree_conf) (Some user_text) = Inr user_loaded"
    by (simp add: tree_conf_def user_loads)
  have "fst ?run = Inr ()" by code_simp
  then have run: "?run = (Inr (), snd ?run)" by (simp add: prod_eq_iff)
  have name: "scCollection user_loaded = ''user''" "MarshalJSON user_loaded = user_text" by code_simp+
  have k: "''cache.internal.collections.user'' \<noteq> lock_key (scCollection user_loaded)" by (simp add: name lock_key_def)
  from configure_leaves_indexes [OF tree_conf_mem y run k] show ?thesis by (simp add: name collectionConfigKey_def)
qed

subsection \<open>Dropping a collection\<close>

text \<open>
  After a collection has been dropped, no key that starts with its prefix is left in the
  store, in particular no document of the collection and none of any collection whose name
  extends its name, and its schema is neither stored nor cached.
\<close>

lemma drop_removes_prefix:
  assumes "ceK X = mem_db" and "dropCollection X cx c cf = (Inr (), cf')"
    and "k = entry_key J (namespace (enJ (ceE X)) cx) (scCollection c @ ext) i fs docID"
  shows "map_of (cdata cf') k = None \<and> map_of (cdata cf') (collectionConfigKey (scCollection c)) = None \<and>
    map_of (cfColl cf') (scCollection c) = None"
proof -
  let ?p = "collectionPrefix (namespace (enJ (ceE X)) cx) (scCollection c)"
  have p: "prefix ?p k" by (simp add: assms(3) prefix_collection_entry)
  show ?thesis
    using assms(2) unfolding dropCollection_def
  proof (rule with_lockE [OF assms(1)])
    fix cf1 cf2 d
    assume body: "ebind (with_env (\<lambda>E. on_db (db_Tx (ceK X) (ceVM X) \<lparr>IsReadOnly = False, IsBatch = True\<rparr>
        (delete_each E (ceQuery X) (ceWrite X) cx c))) X) (\<lambda>_.
     ebind (wrap_eff Internal (''failed to remove collection '' @ ceShow X c)
        (on_store (drop_prefix (ceK X) ?p))) (\<lambda>_.
       wrap_eff Internal (''failed to remove collection '' @ ceShow X c) (deleteCollectionConfig X (scCollection c)))) cf1 = (Inr (), cf2)"
      and cf': "cf' = set_data d cf2" "map_of d = map_of (cdata cf2) \<or> map_of d = (map_of (cdata cf2))(lock_key (scCollection c) := None)"
    from body obtain cf3 where
      rest: "ebind (wrap_eff Internal (''failed to remove collection '' @ ceShow X c) (on_store (drop_prefix (ceK X) ?p))) (\<lambda>_.
       wrap_eff Internal (''failed to remove collection '' @ ceShow X c) (deleteCollectionConfig X (scCollection c))) cf3 = (Inr (), cf2)"
      by (rule ebind_InrE)
    have "cdata cf2 = AList.delete (collectionConfigKey (scCollection c)) (filter (\<lambda>kv. \<not> prefix ?p (fst kv)) (cdata cf3))"
      "cfColl cf2 = AList.delete (scCollection c) (cfColl cf3)"
      using rest by (auto simp: ebind_def wrap_eff_def on_store_run drop_prefix_def assms(1) deleteCollectionConfig_def remove_Tx)
    moreover have "map_of (filter (\<lambda>kv. \<not> prefix ?p (fst kv)) m) k = None" for m :: "'a kvs"
      using p by (auto simp: map_of_eq_None_iff)
    ultimately show ?thesis using cf' by (auto simp: delete_conv' fun_upd_def)
  qed
qed

subsection \<open>Plans\<close>

lemma keys_update: "set (keys (AList.update k v m)) = insert k (set (keys m))"
  by (simp add: keys_def dom_update)

lemma named_keys: "set (keys (named_schemas xs)) = scCollection ` set xs" "distinct (keys (named_schemas xs))"
proof -
  have "set (keys (fold (\<lambda>c. AList.update (scCollection c) c) xs m)) = scCollection ` set xs \<union> set (keys m) \<and>
    (distinct (keys m) \<longrightarrow> distinct (keys (fold (\<lambda>c. AList.update (scCollection c) c) xs m)))" for m
    by (induction xs arbitrary: m) (auto simp: keys_update)
  then show "set (keys (named_schemas xs)) = scCollection ` set xs" "distinct (keys (named_schemas xs))" by (simp_all add: named_schemas_def)
qed

lemma named_lookup:
  assumes "distinct (map scCollection xs)" "c \<in> set xs"
  shows "map_of (named_schemas xs) (scCollection c) = Some c"
proof -
  have "map_of (fold (\<lambda>c. AList.update (scCollection c) c) xs m) (scCollection c) = Some c" for m
    using assms
  proof (induction xs arbitrary: m)
    case (Cons a xs)
    show ?case
    proof (cases "c \<in> set xs")
      case True
      with Cons show ?thesis by simp
    next
      case False
      have keep: "k \<notin> scCollection ` set ys \<Longrightarrow> map_of (fold (\<lambda>c. AList.update (scCollection c) c) ys m) k = map_of m k" for ys m k
        by (induction ys arbitrary: m) (auto simp: update_conv')
      from False Cons.prems have "c = a" "scCollection c \<notin> scCollection ` set xs" by auto
      then show ?thesis by (simp add: keep update_conv')
    qed
  qed simp
  then show ?thesis by (simp add: named_schemas_def)
qed

lemma plan_each_names: "plan_each f names = Inr plans \<Longrightarrow> map cpCollection plans = names"
proof -
  have "rfold (\<lambda>name plans. rbind (f name) (\<lambda>diff. Inr (plans @ [\<lparr>cpCollection = name, cpDiff = diff\<rparr>]))) names acc = Inr plans \<Longrightarrow>
      map cpCollection plans = map cpCollection acc @ names" for acc
    by (induction names arbitrary: acc) (auto simp: rbind_eq_Inr)
  then show "plan_each f names = Inr plans \<Longrightarrow> ?thesis" by (simp add: plan_each_def)
qed

definition names_of :: "'r schema list \<Rightarrow> string set" where
  "names_of xs = scCollection ` set xs"

definition changed_names :: "('r, 'z) json_lib_scheme \<Rightarrow> 'r schema list \<Rightarrow> 'r schema list \<Rightarrow> string set" where
  "changed_names J existing new = {scCollection c | c s. c \<in> set existing \<and> s \<in> set new \<and> scCollection s = scCollection c \<and> \<not> schema_Equals J c s}"

definition plan_names :: "collection_plan list \<Rightarrow> string set" where
  "plan_names ps = cpCollection ` set ps"

lemma calc_plan:
  assumes "calcConfigPlan J existing new = Inr plan" and "distinct (map scCollection existing)" and "distinct (map scCollection new)"
    and "names_of existing \<noteq> names_of new"
  shows "plan_names (plDelete plan) = names_of existing - names_of new - {cdcCollectionName}"
    and "plan_names (plCreate plan) = names_of new - names_of existing"
    and "plan_names (plReplace plan) = changed_names J existing new"
proof -
  let ?e = "named_schemas existing" and ?n = "named_schemas new"
  let ?changed = "filter (\<lambda>name. \<not> schema_Equals J (the (map_of ?e name)) (the (map_of ?n name))) (filter (\<lambda>name. name \<in> set (keys ?n)) (keys ?e))"
  have ne: "set (keys ?e) \<noteq> set (keys ?n)" using assms(4) by (simp add: named_keys names_of_def)
  from assms(1) obtain del cre rep where plan: "plan = \<lparr>plDelete = del, plCreate = cre, plReplace = rep\<rparr>"
    and "map cpCollection del = filter (\<lambda>name. name \<notin> set (keys ?n) \<and> name \<noteq> cdcCollectionName) (keys ?e)"
    "map cpCollection cre = filter (\<lambda>name. name \<notin> set (keys ?e)) (keys ?n)" "map cpCollection rep = ?changed"
    unfolding calcConfigPlan_def Let_def if_not_P [OF ne] by (auto simp: rbind_eq_Inr dest!: plan_each_names)
  then have sets: "cpCollection ` set del = {name \<in> set (keys ?e). name \<notin> set (keys ?n) \<and> name \<noteq> cdcCollectionName}"
    "cpCollection ` set cre = {name \<in> set (keys ?n). name \<notin> set (keys ?e)}" "cpCollection ` set rep = set ?changed"
    by (simp_all flip: set_map)
  show "plan_names (plDelete plan) = names_of existing - names_of new - {cdcCollectionName}"
    "plan_names (plCreate plan) = names_of new - names_of existing"
    using sets(1,2) by (auto simp: plan plan_names_def names_of_def named_keys)
  have "set ?changed = changed_names J existing new"
  proof (intro set_eqI iffI)
    fix name assume "name \<in> set ?changed"
    then obtain c s where "c \<in> set existing" "scCollection c = name" "s \<in> set new" "scCollection s = name"
      and d: "\<not> schema_Equals J (the (map_of ?e name)) (the (map_of ?n name))" by (auto simp: named_keys)
    moreover from this have "map_of ?e name = Some c" "map_of ?n name = Some s"
      using named_lookup [OF assms(2), of c] named_lookup [OF assms(3), of s] by simp_all
    ultimately show "name \<in> changed_names J existing new" unfolding changed_names_def by auto
  next
    fix name assume "name \<in> changed_names J existing new"
    then obtain c s where cs: "c \<in> set existing" "scCollection c = name" "s \<in> set new" "scCollection s = name" "\<not> schema_Equals J c s"
      by (auto simp: changed_names_def)
    have e: "map_of ?e name = Some c" and n: "map_of ?n name = Some s"
      using named_lookup [OF assms(2) cs(1)] named_lookup [OF assms(3) cs(3)] cs(2,4) by simp_all
    from e n have "name \<in> set (keys ?e)" "name \<in> set (keys ?n)" by (simp_all flip: map_of_keys)
    then show "name \<in> set ?changed" by (simp add: e n cs(5))
  qed
  then show "plan_names (plReplace plan) = changed_names J existing new" using sets(3) by (simp add: plan plan_names_def)
qed

text \<open>
  Unless the two sets of names are equal (then the plan is empty, whatever has changed), a
  plan drops the collections that are not wanted any more, creates the new ones and replaces
  those whose schemas differ; it never drops the collection of the change records.
\<close>

lemma calcConfigPlan_names:
  assumes "calcConfigPlan J existing new = Inr plan" and "distinct (map scCollection existing)" and "distinct (map scCollection new)"
  shows "if names_of existing = names_of new then plan = empty_plan
    else plan_names (plDelete plan) = names_of existing - names_of new - {cdcCollectionName} \<and>
      plan_names (plCreate plan) = names_of new - names_of existing \<and> plan_names (plReplace plan) = changed_names J existing new"
proof (cases "names_of existing = names_of new")
  case True
  with assms(1) show ?thesis by (simp add: calcConfigPlan_def Let_def named_keys names_of_def)
next
  case False
  with calc_plan [OF assms False] show ?thesis by simp
qed

text \<open>
  A plan that only drops collections is refused. So when every wanted schema is stored as
  it is and some collection is not wanted any more, nothing is dropped and the request fails.
\<close>

lemma only_drops_refused:
  assumes "calcConfigPlan J existing new = Inr plan" and "distinct (map scCollection existing)" and "distinct (map scCollection new)"
    and "names_of new \<subseteq> names_of existing" and "changed_names J existing new = {}"
    and "h \<in> names_of existing - names_of new" and "h \<noteq> cdcCollectionName"
  shows "h \<in> plan_names (plDelete plan) \<and> ConfigurePlan X cx plan cf = (fail Validation ''no schemas to configure'', cf)"
proof -
  have ne: "names_of existing \<noteq> names_of new" using assms(6) by blast
  note names = calc_plan [OF assms(1-3) ne]
  have del: "h \<in> plan_names (plDelete plan)" using names(1) assms(6,7) by blast
  then have "plDelete plan \<noteq> []" by (auto simp: plan_names_def)
  moreover have "plan_names (plCreate plan) = {}" "plan_names (plReplace plan) = {}" using names(2,3) assms(4,5) by auto
  then have "plCreate plan = []" "plReplace plan = []" by (simp_all add: plan_names_def)
  ultimately show ?thesis using del by (simp add: ConfigurePlan_def planned_schemas_def rmap_def)
qed

text \<open>
  A plan whose schemas have a foreign key to a collection outside the plan is refused and
  changes nothing, also when that collection exists and is only left out of the plan because it
  has not changed.
\<close>

lemma foreign_key_outside_plan_refused:
  assumes "dag_laws (ceDag X)" and "planned_schemas X cf cx plan = Inr newSchemas" and "c \<in> set newSchemas"
    and "f \<in> foreign_collections c" and "f \<notin> names_of newSchemas"
  shows "\<exists>e. ConfigurePlan X cx plan cf = (Inl (Fail (wrap e Validation ''failed to set configure schemas'')), cf)"
proof -
  have some: "\<not> (plDelete plan = [] \<and> plCreate plan = [] \<and> plReplace plan = [])" "newSchemas \<noteq> []"
    using assms(2,3) by (auto simp: planned_schemas_def rmap_def)
  obtain e where e: "SetSchemas (ceDag X) newSchemas = Inl (Fail e)"
    using SetSchemas_refuses [OF assms(1,3,4)] assms(5) by (auto simp: names_of_def)
  have "ConfigurePlan X cx plan cf = (Inl (Fail (wrap e Validation ''failed to set configure schemas'')), cf)"
    using some by (auto simp: ConfigurePlan_def assms(2) ebind_def e wrapping_def)
  then show ?thesis by blast
qed

subsection \<open>Opening a database again\<close>

lemma reload_run:
  assumes "getPersistedCollections X cf = (Inr cs, cf1)" "SetSchemas (ceDag X) cs = Inr g"
  shows "reload_dag X cf = (Inr cs, cf1\<lparr>cfDag := g\<rparr>)"
  using assms by (simp add: reload_dag_def ebind_def)

lemma persisted_keeps: "getPersistedCollections X cf = (r, cf') \<Longrightarrow> cfColl cf' = cfColl cf"
  by (auto simp: getPersistedCollections_def on_store_run split: prod.splits)


definition account_text :: "any kvs" where
  "account_text = [(''x-collection'', AStr ''account''), (''required'', ASlice [AStr ''_id'']), (''properties'', AMap [(''_id'', key_property)])]"

definition account_loaded :: "any kvs schema" where
  "account_loaded = (case newCollectionSchema tree_lib 3 (Some account_text) of Inr c \<Rightarrow> c | Inl _ \<Rightarrow> blank_schema tree_lib [])"


end
