(* ===== verification/Streams.thy ===== *)
theory Streams
  imports ConfigLaws Backends
begin

text \<open>
  The change stream of the database (\<open>ChangeStream\<close> of \<open>db.go\<close> over \<open>ChangeStream\<close> of the badger
  backend): what a listener is handed, out of all changes that commits publish. The published
  changes are a list; a listener has a state and says with every record whether to go on.
\<close>

definition db_ChangeStream ::
  "('d, 's, 'r, 'g, 't) conf_env \<Rightarrow> ('r \<Rightarrow> gerr + 'r cdc) \<Rightarrow> 'r ctx \<Rightarrow> string \<Rightarrow> where_c list
     \<Rightarrow> ('r cdc \<Rightarrow> 'a \<Rightarrow> (bool \<times> 'a) res) \<Rightarrow> 'r kvcdc list \<Rightarrow> 'a \<Rightarrow> ('d, 'r) conf \<Rightarrow> 'a res" where
  "db_ChangeStream X scan cx collection wfilter fn changes a cf =
     rbind (stream_prefix X cx collection wfilter cf)
       (\<lambda>pfx. ChangeStream pfx (stream_item (enJ (ceE X)) scan collection wfilter fn) changes a)"

text \<open>A listener that is handed records until it stops.\<close>

fun hand_on :: "('c \<Rightarrow> 'a \<Rightarrow> (bool \<times> 'a) res) \<Rightarrow> 'c list \<Rightarrow> 'a \<Rightarrow> 'a res" where
  "hand_on fn [] a = Inr a"
| "hand_on fn (c # cs) a = rbind (fn c a) (\<lambda>(continue, a). if continue then hand_on fn cs a else Inr a)"

text \<open>The change record of a change, if its document passes the filter and is of the collection.\<close>

definition listed :: "('r, 'z) json_lib_scheme \<Rightarrow> ('r \<Rightarrow> gerr + 'r cdc) \<Rightarrow> string \<Rightarrow> where_c list \<Rightarrow> bytes \<Rightarrow> 'r kvcdc \<Rightarrow> 'r cdc option" where
  "listed J scan collection wfilter pfx c = (if HasPrefix (Key c) pfx then
     (case Val c of None \<Rightarrow> None | Some d \<Rightarrow> if doc_where J d wfilter = Inr True then
        (case scan d of Inl e \<Rightarrow> None | Inr r \<Rightarrow> if collection = ''*'' \<or> cdcCollection r = collection then Some r else None)
      else None) else None)"

text \<open>The changes below the prefix are valid documents that the filter decides and that decode.\<close>

definition streamable :: "('r, 'z) json_lib_scheme \<Rightarrow> ('r \<Rightarrow> gerr + 'r cdc) \<Rightarrow> where_c list \<Rightarrow> bytes \<Rightarrow> 'r kvcdc \<Rightarrow> bool" where
  "streamable J scan wfilter pfx c \<longleftrightarrow> (HasPrefix (Key c) pfx \<longrightarrow>
     (\<exists>d b r. Val c = Some d \<and> doc_valid J d \<and> doc_where J d wfilter = Inr b \<and> scan d = Inr r))"

lemma stream_hand_on:
  assumes "\<forall>c\<in>set changes. streamable J scan wfilter pfx c"
  shows "ChangeStream pfx (stream_item J scan collection wfilter fn) changes a
    = hand_on fn (List.map_filter (listed J scan collection wfilter pfx) changes) a"
  using assms
proof (induction changes arbitrary: a)
  case Nil
  then show ?case by (simp add: List.map_filter_def)
next
  case (Cons c cs)
  have ih: "ChangeStream pfx (stream_item J scan collection wfilter fn) cs a
      = hand_on fn (List.map_filter (listed J scan collection wfilter pfx) cs) a" for a
    using Cons by simp
  show ?case
  proof (cases "HasPrefix (Key c) pfx")
    case True
    then obtain d b r where d: "Val c = Some d" "doc_valid J d" "doc_where J d wfilter = Inr b" "scan d = Inr r"
      using Cons.prems by (auto simp: streamable_def)
    have "doc_or_nil J d = Some d" using d(2) by (simp add: doc_or_nil_def NewDocumentFromBytes_def doc_valid_def)
    then have "stream_item J scan collection wfilter fn c a = (if b \<and> (collection = ''*'' \<or> cdcCollection r = collection)
        then fn r a else Inr (True, a))"
      using d by (auto simp: stream_item_def)
    moreover have "listed J scan collection wfilter pfx c = (if b \<and> (collection = ''*'' \<or> cdcCollection r = collection) then Some r else None)"
      using True d by (simp add: listed_def)
    ultimately show ?thesis using True by (cases "b \<and> (collection = ''*'' \<or> cdcCollection r = collection)") (simp_all add: map_filter_simps ih cong: if_cong)
  next
    case False
    then have "listed J scan collection wfilter pfx c = None" by (simp add: listed_def)
    with False ih show ?thesis by (simp add: map_filter_simps)
  qed
qed


text \<open>A listener that collects the ids of two changes of users, of three that were published.\<close>

definition stream_ctx :: "any kvs ctx" where
  "stream_ctx = \<lparr>cxMeta = None, cxInternal = True, cxIndexing = False, cxSchemas = []\<rparr>"

definition scan_id :: "any kvs \<Rightarrow> gerr + any kvs cdc" where
  "scan_id d = Inr \<lparr>cdcID = GetString flat_json d ''_id'', cdcCollection = GetString flat_json d ''collection'', cdcAction = SetAction,
     cdcDocumentID = [], cdcDiff = [], cdcTimestamp = 0, cdcMetadata = None\<rparr>"

definition put_change :: "string \<Rightarrow> string \<Rightarrow> string \<Rightarrow> any kvs kvcdc" where
  "put_change coll i c = \<lparr>Operation = SETOP, Key = indexPrefix ''default'' coll ''_id.primaryidx'' @ nul # i,
     Val = Some [(''_id'', AStr i), (''collection'', AStr c)]\<rparr>"

definition users_only :: "where_c list" where
  "users_only = [\<lparr>wField = ''collection'', wOp = WEq, wValue = AStr ''user''\<rparr>]"


end
