(* ===== verification/LockProtocol.thy ===== *)
theory LockProtocol
  imports Locker
begin

text \<open>
  Any number of lock objects on one key, each with the goroutine that \<open>TryLock\<close> starts, over one
  committed store. A step is one transaction of one object, a hand-over between \<open>Unlock\<close> and the
  goroutine, or the passage of time; which object moves is not determined. The goroutine ends
  with the first renewal that fails (\<open>Dead\<close>): nothing receives from the unlock channel any
  more, so an \<open>Unlock\<close> after that never returns (\<open>Blocked\<close>).
\<close>

datatype phase = Idle | Alive | Unlocking | Released | Dead | Blocked

record client =
  clLock :: lock
  clPhase :: phase
  clRenewed :: int

record 'r lock_sys =
  lsStore :: "'r kvs"
  lsNow :: int
  lsClients :: "nat \<Rightarrow> client"

definition move :: "'r lock_sys \<Rightarrow> nat \<Rightarrow> 'r kvs \<Rightarrow> int \<Rightarrow> client \<Rightarrow> 'r lock_sys" where
  "move s i d now c = s\<lparr>lsStore := d, lsNow := now, lsClients := (lsClients s)(i := c)\<rparr>"

text \<open>The time of the last renewal that a client knows of: its own record, if it still is in the store.\<close>

definition renewed_at :: "'r lock_codec \<Rightarrow> 'r kvs \<Rightarrow> client \<Rightarrow> int" where
  "renewed_at C d c = (case lease_of C (map_of d (lkKey (clLock c))) of
     Some (h, t) \<Rightarrow> if h = lkID (clLock c) then t else clRenewed c
   | None \<Rightarrow> clRenewed c)"

inductive lock_step :: "'r lock_codec \<Rightarrow> 'r lock_sys \<Rightarrow> 'r lock_sys \<Rightarrow> bool" for C where
  wait: "lsNow s \<le> now \<Longrightarrow> lock_step C s (s\<lparr>lsNow := now\<rparr>)"
| acquire: "c = lsClients s i \<Longrightarrow> clPhase c = Idle \<Longrightarrow> lsNow s \<le> t0 \<Longrightarrow> t0 \<le> t1 \<Longrightarrow> t1 \<le> t2 \<Longrightarrow>
    TryLock badger_Tx nf mem_db C (clLock c) t0 t1 t2 (lsStore s) = (Inr True, d) \<Longrightarrow>
    lock_step C s (move s i d t2 \<lparr>clLock = (clLock c)\<lparr>lkStart := t0\<rparr>, clPhase = Alive, clRenewed = t2\<rparr>)"
| refuse: "c = lsClients s i \<Longrightarrow> clPhase c = Idle \<Longrightarrow> lsNow s \<le> t0 \<Longrightarrow> t0 \<le> t1 \<Longrightarrow> t1 \<le> t2 \<Longrightarrow>
    TryLock badger_Tx nf mem_db C (clLock c) t0 t1 t2 (lsStore s) = (r, d) \<Longrightarrow> r \<noteq> Inr True \<Longrightarrow>
    lock_step C s (move s i d t2 (c\<lparr>clLock := (clLock c)\<lparr>lkStart := t0\<rparr>\<rparr>))"
| renew: "c = lsClients s i \<Longrightarrow> clPhase c = Alive \<Longrightarrow> lsNow s \<le> t \<Longrightarrow>
    keepalive_renew badger_Tx mem_db C (clLock c) t (lsStore s) = (Inr (), d) \<Longrightarrow>
    lock_step C s (move s i d t (c\<lparr>clRenewed := renewed_at C d c\<rparr>))"
| lose: "c = lsClients s i \<Longrightarrow> clPhase c = Alive \<Longrightarrow> lsNow s \<le> t \<Longrightarrow>
    keepalive_renew badger_Tx mem_db C (clLock c) t (lsStore s) = (Inl e, d) \<Longrightarrow>
    lock_step C s (move s i d t (c\<lparr>clPhase := Dead\<rparr>))"
| unlock: "c = lsClients s i \<Longrightarrow> clPhase c = Alive \<Longrightarrow>
    lock_step C s (move s i (lsStore s) (lsNow s) (c\<lparr>clPhase := Unlocking\<rparr>))"
| release: "c = lsClients s i \<Longrightarrow> clPhase c = Unlocking \<Longrightarrow>
    keepalive_release badger_Tx mem_db C (clLock c) (lsStore s) = (r, d) \<Longrightarrow>
    lock_step C s (move s i d (lsNow s) (c\<lparr>clPhase := Released\<rparr>))"
| stuck: "c = lsClients s i \<Longrightarrow> clPhase c = Dead \<Longrightarrow>
    lock_step C s (move s i (lsStore s) (lsNow s) (c\<lparr>clPhase := Blocked\<rparr>))"

inductive lock_run :: "'r lock_codec \<Rightarrow> 'r lock_sys \<Rightarrow> 'r lock_sys \<Rightarrow> bool" for C where
  here: "lock_run C s s"
| on: "lock_run C s t \<Longrightarrow> lock_step C t u \<Longrightarrow> lock_run C s u"

subsection \<open>The invariant\<close>

definition holding :: "client \<Rightarrow> bool" where
  "holding c \<longleftrightarrow> clPhase c = Alive \<or> clPhase c = Unlocking"

text \<open>All objects have the same key and lease, an id of their own, and the lease is not out of range.\<close>

definition same_lock :: "bytes \<Rightarrow> int \<Rightarrow> (nat \<Rightarrow> lock) \<Rightarrow> bool" where
  "same_lock key lease ls \<longleftrightarrow> (\<forall>i. lkKey (ls i) = key \<and> lkLease (ls i) = lease) \<and> inj (\<lambda>i. lkID (ls i)) \<and>
     0 \<le> lease \<and> 4 * lease < 2 ^ 63"

definition lock_inv :: "'r lock_codec \<Rightarrow> bytes \<Rightarrow> int \<Rightarrow> 'r lock_sys \<Rightarrow> bool" where
  "lock_inv C key lease s \<longleftrightarrow> same_lock key lease (\<lambda>i. clLock (lsClients s i)) \<and>
     (\<forall>i. holding (lsClients s i) \<longrightarrow>
        lease_of C (map_of (lsStore s) key) = Some (lkID (clLock (lsClients s i)), clRenewed (lsClients s i)) \<or>
        lsNow s - clRenewed (lsClients s i) > 4 * lease)"

lemma lease_expired_over:
  assumes "lease_expired l now m" "0 \<le> lkLease l" "4 * lkLease l < 2 ^ 63"
  shows "now - lmLastUpdate m > 4 * lkLease l"
proof -
  have "int64 (4 * lkLease l) = 4 * lkLease l" using assms(2,3) by (intro int64_id) linarith+
  then have "time_Since now (lmLastUpdate m) > 4 * lkLease l" using assms(1) by (simp add: lease_expired_def)
  with assms(2) show ?thesis by (simp add: time_Since_def)
qed

lemma mem_db_ops:
  "dbOps mem_db = \<lparr>opGet = mem_get, opSet = mem_set, opDel = mem_delete, opIter = mem_iter\<rparr>"
  by (simp add: mem_db_def mem_ops_def)

lemmas TryLock_mem = mem_store.TryLock_effect [OF mem_db_ops refl refl]
lemmas keepalive_mem = mem_store.keepalive_effect [OF mem_db_ops refl refl]

lemmas Tx_error_keeps = mem_store.Tx_atomic [OF refl]

lemma same_lock_start: "same_lock key lease ls \<Longrightarrow> lkID l = lkID (ls i) \<Longrightarrow> lkKey l = lkKey (ls i) \<Longrightarrow> lkLease l = lkLease (ls i) \<Longrightarrow>
    same_lock key lease (ls(i := l))"
proof -
  assume a: "same_lock key lease ls" "lkID l = lkID (ls i)" "lkKey l = lkKey (ls i)" "lkLease l = lkLease (ls i)"
  have "(\<lambda>j. lkID ((ls(i := l)) j)) = (\<lambda>j. lkID (ls j))" using a(2) by auto
  with a show ?thesis by (auto simp: same_lock_def)
qed

lemma move_locks: "(\<lambda>j. clLock (lsClients (move s i d now c) j)) = (\<lambda>j. clLock (lsClients s j))(i := clLock c)"
  by (auto simp: move_def)

text \<open>
  A move of client \<open>i\<close> keeps the invariant if it keeps it for that client, and if it takes the
  stored lease away only from a client whose lease is over.
\<close>

lemma lock_inv_move:
  assumes inv: "lock_inv C key lease s" and now: "lsNow s \<le> now"
    and lock: "lkID (clLock c) = lkID (clLock (lsClients s i))" "lkKey (clLock c) = key" "lkLease (clLock c) = lease"
    and own: "holding c \<Longrightarrow> lease_of C (map_of d key) = Some (lkID (clLock c), clRenewed c) \<or> now - clRenewed c > 4 * lease"
    and others: "\<And>h t. lease_of C (map_of (lsStore s) key) = Some (h, t) \<Longrightarrow> h \<noteq> lkID (clLock c) \<Longrightarrow>
        lease_of C (map_of d key) = Some (h, t) \<or> now - t > 4 * lease"
  shows "lock_inv C key lease (move s i d now c)"
proof -
  have same: "same_lock key lease (\<lambda>j. clLock (lsClients s j))" using inv by (simp add: lock_inv_def)
  then have key: "lkKey (clLock (lsClients s i)) = key" "lkLease (clLock (lsClients s i)) = lease"
    by (simp_all add: same_lock_def)
  have "lease_of C (map_of d key) = Some (lkID (clLock (lsClients s j)), clRenewed (lsClients s j)) \<or>
      now - clRenewed (lsClients s j) > 4 * lease" if j: "j \<noteq> i" "holding (lsClients s j)" for j
  proof -
    have "lkID (clLock (lsClients s j)) \<noteq> lkID (clLock c)"
      using same j(1) lock(1) by (auto simp: same_lock_def inj_def)
    then show ?thesis
      using inv j(2) now others [of "lkID (clLock (lsClients s j))" "clRenewed (lsClients s j)"]
      by (auto simp: lock_inv_def)
  qed
  moreover have "same_lock key lease (\<lambda>j. clLock (lsClients (move s i d now c) j))"
    unfolding move_locks by (rule same_lock_start [OF same lock(1)]) (simp_all add: lock key)
  ultimately show ?thesis
    using own by (auto simp: lock_inv_def move_def)
qed

lemma lock_step_inv:
  assumes "lock_step C s t" "codec_laws C" "lock_inv C key lease s"
  shows "lock_inv C key lease t"
  using assms
proof (induction rule: lock_step.induct)
  case (wait s now)
  then show ?case by (auto simp: lock_inv_def)
next
  case (acquire c s i t0 t1 t2 nf d)
  have l: "lkKey (clLock c) = key" "lkLease (clLock c) = lease" "0 \<le> lease" "4 * lease < 2 ^ 63"
    using acquire.prems(2) acquire.hyps(1) by (simp_all add: lock_inv_def same_lock_def)
  note eff = TryLock_mem [OF acquire.prems(1) acquire.hyps(6), unfolded l(1)]
  have over: "t2 - u > 4 * lease" if "lease_of C (map_of (lsStore s) key) = Some (h, u)" for h u
    using eff(1) lease_expired_over [of "clLock c" t1] that l acquire.hyps(5)
    by (fastforce simp: lease_of_def current_meta_def split: sum.splits)
  show ?case
    by (rule lock_inv_move [OF acquire.prems(2)]) (use acquire.hyps l eff(3) over in auto)
next
  case (refuse c s i t0 t1 t2 nf r d)
  have l: "lkKey (clLock c) = key" "lkLease (clLock c) = lease"
    using refuse.prems(2) refuse.hyps(1) by (simp_all add: lock_inv_def same_lock_def)
  have "map_of d = map_of (lsStore s)"
  proof (cases r)
    case (Inl e)
    with refuse.hyps(6) show ?thesis by (auto simp: TryLock_def Let_def dest: Tx_error_keeps)
  next
    case (Inr b)
    then show ?thesis using TryLock_mem(2) [OF refuse.prems(1), of nf "clLock c"] refuse.hyps(6,7) by auto
  qed
  then show ?case
    by (rule_tac lock_inv_move [OF refuse.prems(2)]) (use refuse.hyps l in \<open>auto simp: holding_def\<close>)
next
  case (renew c s i t d)
  have l: "lkKey (clLock c) = key" "lkLease (clLock c) = lease"
    using renew.prems(2) renew.hyps(1) by (simp_all add: lock_inv_def same_lock_def)
  obtain h u where id: "lease_of C (map_of (lsStore s) key) = Some (h, u)"
    "if h = lkID (clLock c) then lease_of C (map_of d key) = Some (h, t) else map_of d = map_of (lsStore s)"
    using keepalive_mem(1) [OF renew.prems(1) renew.hyps(4)] unfolding l(1) by (auto split: if_splits)
  have inv: "lease_of C (map_of (lsStore s) key) = Some (lkID (clLock c), clRenewed c) \<or> lsNow s - clRenewed c > 4 * lease"
    using renew.prems(2) renew.hyps(1,2) by (auto simp: lock_inv_def holding_def)
  show ?case
    by (rule lock_inv_move [OF renew.prems(2)])
      (use renew.hyps l id inv in \<open>auto simp: renewed_at_def split: if_splits\<close>)
next
  case (lose c s i t e d)
  then have "d = lsStore s" by (auto simp: keepalive_renew_def dest: Tx_error_keeps)
  with lose show ?case
    by (rule_tac lock_inv_move) (auto simp: lock_inv_def same_lock_def holding_def)
next
  case (unlock c s i)
  then show ?case
    by (rule_tac lock_inv_move) (auto simp: lock_inv_def same_lock_def holding_def)
next
  case (release c s i r d)
  have l: "lkKey (clLock c) = key" "lkLease (clLock c) = lease"
    using release.prems(2) release.hyps(1) by (simp_all add: lock_inv_def same_lock_def)
  have "lease_of C (map_of d key) = Some (h, u)"
    if "lease_of C (map_of (lsStore s) key) = Some (h, u)" "h \<noteq> lkID (clLock c)" for h u
  proof (cases r)
    case (Inl e)
    then have "d = lsStore s" using release.hyps(3) by (auto simp: keepalive_release_def dest: Tx_error_keeps)
    with that show ?thesis by simp
  next
    case (Inr x)
    then show ?thesis using keepalive_mem(2) [OF release.prems(1), of "clLock c" "lsStore s" x d] release.hyps(3) that
      unfolding l(1) by auto
  qed
  then show ?case
    by (rule_tac lock_inv_move [OF release.prems(2)]) (use release.hyps l in \<open>auto simp: holding_def\<close>)
next
  case (stuck c s i)
  then show ?case
    by (rule_tac lock_inv_move) (auto simp: lock_inv_def same_lock_def holding_def)
qed

lemma lock_run_inv: "lock_run C s t \<Longrightarrow> codec_laws C \<Longrightarrow> lock_inv C key lease s \<Longrightarrow> lock_inv C key lease t"
  by (induction rule: lock_run.induct) (auto intro: lock_step_inv)

definition fresh_locks :: "(nat \<Rightarrow> string) \<Rightarrow> bytes \<Rightarrow> int \<Rightarrow> 'r lock_sys \<Rightarrow> bool" where
  "fresh_locks ids key lease s \<longleftrightarrow> inj ids \<and> 0 \<le> lease \<and> 4 * lease < 2 ^ 63 \<and>
     lsClients s = (\<lambda>i. \<lparr>clLock = NewLocker (ids i) key lease, clPhase = Idle, clRenewed = 0\<rparr>)"

lemma fresh_locks_inv: "fresh_locks ids key lease s \<Longrightarrow> lock_inv C key lease s"
  by (simp add: fresh_locks_def lock_inv_def same_lock_def holding_def NewLocker_def)

subsection \<open>An instance for the witnesses\<close>

definition plain_codec :: "lock_meta lock_codec" where
  "plain_codec = \<lparr>lcMarshal = (\<lambda>m. m), lcUnmarshal = (\<lambda>v. case v of
     Some m \<Rightarrow> Inr m | None \<Rightarrow> Inl (Plain ''unexpected end of JSON input''))\<rparr>"

lemma plain_codec_laws: "codec_laws plain_codec"
  by (simp add: codec_laws_def plain_codec_def)

definition lock_name :: "nat \<Rightarrow> string" where
  "lock_name i = replicate (Suc i) (CHR ''i'')"

definition two_locks :: "lock_meta lock_sys" where
  "two_locks = \<lparr>lsStore = [], lsNow = 0,
     lsClients = (\<lambda>i. \<lparr>clLock = NewLocker (lock_name i) ''k'' 1, clPhase = Idle, clRenewed = 0\<rparr>)\<rparr>"

definition stored_lease :: "nat \<Rightarrow> int \<Rightarrow> lock_meta kvs" where
  "stored_lease i t = [(''k'', \<lparr>lmID = lock_name i, lmStart = t, lmLastUpdate = t, lmKey = ''k''\<rparr>)]"

definition taken :: "nat \<Rightarrow> int \<Rightarrow> phase \<Rightarrow> client" where
  "taken i t p = \<lparr>clLock = (NewLocker (lock_name i) ''k'' 1)\<lparr>lkStart := t\<rparr>, clPhase = p, clRenewed = t\<rparr>"

text \<open>Object 0 takes the lock at time 0 and is not scheduled again until time 10, when object 1 takes over.\<close>

definition taken_over :: "phase \<Rightarrow> lock_meta kvs \<Rightarrow> lock_meta lock_sys" where
  "taken_over p d = move (move two_locks 0 (stored_lease 0 0) 0 (taken 0 0 Alive)) 1 d 10 (taken 1 10 p)"

lemma first_takes: "TryLock badger_Tx (\<lambda>_. False) mem_db plain_codec (NewLocker (lock_name 0) ''k'' 1) 0 0 0 [] = (Inr True, stored_lease 0 0)"
  by code_simp

lemma second_takes: "TryLock badger_Tx (\<lambda>_. False) mem_db plain_codec (NewLocker (lock_name 1) ''k'' 1) 10 10 10 (stored_lease 0 0)
    = (Inr True, stored_lease 1 10)"
  by code_simp

lemma second_releases: "keepalive_release badger_Tx mem_db plain_codec (clLock (taken 1 10 Unlocking)) (stored_lease 1 10) = (Inr (), [])"
  by code_simp

lemma reach_taken_over:
  "lock_run plain_codec two_locks (taken_over Alive (stored_lease 1 10))"
  "lock_run plain_codec two_locks (taken_over Released [])"
proof -
  let ?s1 = "move two_locks 0 (stored_lease 0 0) 0 (taken 0 0 Alive)"
  have "lock_step plain_codec two_locks ?s1"
    using lock_step.acquire [of "lsClients two_locks 0" two_locks 0 0 0 0 "\<lambda>_. False" plain_codec "stored_lease 0 0"] first_takes
    by (simp add: two_locks_def taken_def)
  then have 1: "lock_run plain_codec two_locks ?s1" by (rule lock_run.on [OF lock_run.here])
  have "lock_step plain_codec ?s1 (taken_over Alive (stored_lease 1 10))"
    using lock_step.acquire [of "lsClients ?s1 1" ?s1 1 10 10 10 "\<lambda>_. False" plain_codec "stored_lease 1 10"] second_takes
    by (simp add: two_locks_def taken_def move_def taken_over_def)
  with 1 show 2: "lock_run plain_codec two_locks (taken_over Alive (stored_lease 1 10))" by (rule lock_run.on)
  have m: "move (taken_over p d) 1 d' 10 (taken 1 10 q) = taken_over q d'" for p q d d'
    by (simp add: taken_over_def move_def)
  have "lock_step plain_codec (taken_over Alive (stored_lease 1 10)) (taken_over Unlocking (stored_lease 1 10))"
    using lock_step.unlock [of "taken 1 10 Alive" "taken_over Alive (stored_lease 1 10)" 1 plain_codec] m
    by (simp add: taken_over_def move_def taken_def)
  with 2 have 3: "lock_run plain_codec two_locks (taken_over Unlocking (stored_lease 1 10))" by (rule lock_run.on)
  have "lock_step plain_codec (taken_over Unlocking (stored_lease 1 10)) (taken_over Released [])"
    using lock_step.release [of "taken 1 10 Unlocking" "taken_over Unlocking (stored_lease 1 10)" 1 plain_codec _ "[]"] m second_releases
    by (simp add: taken_over_def move_def taken_def)
  with 3 show "lock_run plain_codec two_locks (taken_over Released [])" by (rule lock_run.on)
qed

lemma two_locks_fresh: "fresh_locks lock_name ''k'' 1 two_locks"
proof -
  have "inj lock_name" by (rule injI) (metis lock_name_def length_replicate nat.inject)
  then show ?thesis by (simp add: fresh_locks_def two_locks_def)
qed

subsection \<open>Mutual exclusion\<close>

text \<open>
  C17: of two lock objects that both think they hold the lock, at most one has renewed its lease
  within the last four lease intervals: as long as holders renew in time, at most one holds
  the lock, whatever the interleaving of attempts, renewals, releases and lost goroutines.
\<close>

theorem lock_excludes:
  assumes "codec_laws C" and "fresh_locks ids key lease s0" and "lock_run C s0 s" and "i \<noteq> j"
    and "holding (lsClients s i)" and "holding (lsClients s j)"
    and "lsNow s - clRenewed (lsClients s j) \<le> 4 * lease"
  shows "lsNow s - clRenewed (lsClients s i) > 4 * lease"
proof -
  have inv: "lock_inv C key lease s"
    by (rule lock_run_inv [OF assms(3,1) fresh_locks_inv [OF assms(2)]])
  then have "lkID (clLock (lsClients s i)) \<noteq> lkID (clLock (lsClients s j))"
    using assms(4) by (auto simp: lock_inv_def same_lock_def inj_def)
  moreover have "lease_of C (map_of (lsStore s) key) = Some (lkID (clLock (lsClients s k)), clRenewed (lsClients s k)) \<or>
      lsNow s - clRenewed (lsClients s k) > 4 * lease" if "holding (lsClients s k)" for k
    using inv that by (simp add: lock_inv_def)
  from this [OF assms(5)] this [OF assms(6)] assms(7) calculation show ?thesis by auto
qed

theorem lock_excludes_witness:
  "lsNow (taken_over Alive (stored_lease 1 10)) - clRenewed (lsClients (taken_over Alive (stored_lease 1 10)) 0) > 4 * 1"
  by (rule lock_excludes [OF plain_codec_laws two_locks_fresh reach_taken_over(1), of 0 1])
    (simp_all add: taken_over_def move_def taken_def holding_def)

subsection \<open>Progress\<close>

text \<open>
  A free lock can be taken: when the key is absent, or its holder has not renewed within four
  lease intervals, \<open>TryLock\<close> succeeds and the store names the caller as the holder.
\<close>

lemma free_lock_taken:
  assumes "codec_laws C" and "0 \<le> lkLease l" and "4 * lkLease l < 2 ^ 63 - 1" and "0 \<le> now" and "lkID l \<noteq> []"
    and "case lease_of C (map_of d (lkKey l)) of None \<Rightarrow> True
         | Some (h, t) \<Rightarrow> h \<noteq> lkID l \<and> now - t > 4 * lkLease l"
  shows "\<exists>d'. TryLock badger_Tx nf mem_db C l start now later d = (Inr True, d') \<and>
    lease_of C (map_of d' (lkKey l)) = Some (lkID l, later)"
proof -
  have wrap: "int64 (4 * lkLease l) = 4 * lkLease l" using assms(2,3) by (intro int64_id) linarith+
  have "lease_expired l now (current_meta C (map_of d (lkKey l)))"
  proof (cases "lcUnmarshal C (map_of d (lkKey l))")
    case (Inl e)
    then show ?thesis
      using assms(3,4,5) wrap by (simp add: lease_expired_def current_meta_def zero_meta_def zero_time_def time_Since_def)
  next
    case (Inr m)
    then show ?thesis
      using assms(2,3,6) wrap by (simp add: lease_expired_def current_meta_def lease_of_def time_Since_def)
  qed
  then have "lease_expired (l\<lparr>lkStart := start\<rparr>) now (current_meta C (map_of d (lkKey l)))" by (simp add: lease_expired_def)
  then have "\<exists>d'. TryLock badger_Tx nf mem_db C l start now later d = (Inr True, d')"
    by (simp add: TryLock_def Let_def badger_Tx_def mem_db_def mem_ops_def mem_get_def mem_set_def setLock_def ebind_def)
  then show ?thesis using TryLock_mem(3) [OF assms(1), of nf l start now later d True] by blast
qed

lemma free_lock_taken_witness:
  "\<exists>d'. TryLock badger_Tx (\<lambda>_. False) mem_db plain_codec (NewLocker (lock_name 1) ''k'' 1) 10 10 10 (stored_lease 0 0) = (Inr True, d') \<and>
    lease_of plain_codec (map_of d' (lkKey (NewLocker (lock_name 1) ''k'' 1))) = Some (lkID (NewLocker (lock_name 1) ''k'' 1), 10)"
  by (rule free_lock_taken [OF plain_codec_laws])
    (simp_all add: NewLocker_def lock_name_def stored_lease_def lease_of_def plain_codec_def)

lemma dead_step: "lock_step C s t \<Longrightarrow> clPhase (lsClients s i) \<in> {Dead, Blocked} \<Longrightarrow> clPhase (lsClients t i) \<in> {Dead, Blocked}"
  by (induction rule: lock_step.induct) (auto simp: move_def)

lemma dead_run: "lock_run C s t \<Longrightarrow> clPhase (lsClients s i) \<in> {Dead, Blocked} \<Longrightarrow> clPhase (lsClients t i) \<in> {Dead, Blocked}"
  by (induction rule: lock_run.induct) (auto dest: dead_step [of C _ _ i])

text \<open>
  C37: a goroutine that finds its record gone ends, and then \<open>Unlock\<close> never returns: the client
  stays blocked in every continuation. The witness gets there without any failure of the
  store: a renewal comes late, another object takes the lock over and releases it.
\<close>

theorem lost_lease_never_unlocks:
  assumes "codec_laws C" and "clPhase (lsClients s i) = Alive"
    and "map_of (lsStore s) (lkKey (clLock (lsClients s i))) = None"
  shows "\<exists>e. keepalive_renew badger_Tx mem_db C (clLock (lsClients s i)) t (lsStore s) = (Inl e, lsStore s) \<and>
    (\<forall>u. lock_run C (move s i (lsStore s) t ((lsClients s i)\<lparr>clPhase := Dead\<rparr>)) u \<longrightarrow>
       clPhase (lsClients u i) \<in> {Dead, Blocked})"
proof -
  obtain e where "lcUnmarshal C None = Inl e" using assms(1) by (auto simp: codec_laws_def)
  then have "\<exists>e. keepalive_renew badger_Tx mem_db C (clLock (lsClients s i)) t (lsStore s) = (Inl e, lsStore s)"
    using assms(3)
    by (simp add: keepalive_renew_def badger_Tx_def mem_db_def mem_ops_def mem_get_def getLock_def ebind_def lift_err_def)
  then show ?thesis using dead_run by (fastforce simp: move_def)
qed

theorem lost_lease_never_unlocks_witness:
  "lock_run plain_codec two_locks (taken_over Released []) \<and>
   (\<exists>e. keepalive_renew badger_Tx mem_db plain_codec (clLock (lsClients (taken_over Released []) 0)) 11 [] = (Inl e, []))"
  using lost_lease_never_unlocks [OF plain_codec_laws, of "taken_over Released []" 0 11] reach_taken_over(2)
  by (auto simp: taken_over_def move_def taken_def)

end
