(* ===== verification/Commands.thy ===== *)
theory Commands
  imports Database
begin

text \<open>
  \<open>Cmd\<close> of \<open>tx.go\<close>, the dispatcher of serialized commands, with \<open>TxCmd\<close> and \<open>TxResponse\<close> of
  \<open>model.go\<close>. The fields of a command are optional, and the first one that is present, in the
  order of the code, is run; an error of the operation becomes the error field of the response.
\<close>

record delete_cmd =
  dcCollection :: string
  dcID :: string

record get_cmd =
  gcCollection :: string
  gcID :: string

record 'r set_cmd =
  scmCollection :: string
  scmDocument :: 'r

record 'r create_cmd =
  ccCollection :: string
  ccDocument :: 'r

record update_cmd =
  ucCollection :: string
  ucID :: string
  ucUpdate :: "any kvs"

record query_cmd =
  qcCollection :: string
  qcQuery :: query

record time_travel_cmd =
  tcCollection :: string
  tcID :: string
  tcTimestamp :: int

record revert_cmd =
  rcCollection :: string
  rcID :: string
  rcTimestamp :: int

record 'r tx_cmd =
  cmCreate :: "'r create_cmd option"
  cmGet :: "get_cmd option"
  cmSet :: "'r set_cmd option"
  cmUpdate :: "update_cmd option"
  cmDelete :: "delete_cmd option"
  cmQuery :: "query_cmd option"
  cmRevert :: "revert_cmd option"
  cmTimeTravel :: "time_travel_cmd option"
  cmCommit :: "unit option"
  cmRollback :: "unit option"

record 'r tx_response =
  rsCreate :: "'r option"
  rsGet :: "'r option"
  rsSet :: "'r option"
  rsUpdate :: "'r option"
  rsDelete :: "unit option"
  rsQuery :: "'r page option"
  rsRevert :: "unit option"
  rsTimeTravel :: "'r option"
  rsCommit :: "unit option"
  rsRollback :: "unit option"
  rsError :: "goerror option"

definition no_response :: "'r tx_response" where
  "no_response = \<lparr>rsCreate = None, rsGet = None, rsSet = None, rsUpdate = None, rsDelete = None, rsQuery = None,
     rsRevert = None, rsTimeTravel = None, rsCommit = None, rsRollback = None, rsError = None\<rparr>"

text \<open>An error of the operation becomes the error field, next to the fields set in \<open>base\<close>.\<close>

definition respond ::
  "'r tx_response \<Rightarrow> ('s, 'a) eff \<Rightarrow> ('a \<Rightarrow> 'r tx_response) \<Rightarrow> ('s, 'r tx_response) eff" where
  "respond base m f s = (case m s of
     (Inl (Fail e), s') \<Rightarrow> (Inr (base\<lparr>rsError := Extract (Some e)\<rparr>), s')
   | (Inl p, s') \<Rightarrow> (Inl p, s')
   | (Inr a, s') \<Rightarrow> (Inr (f a), s'))"

definition on_tx :: "('s, 'r, 'a) tx \<Rightarrow> (('s, 'r) txn \<times> 'd, 'a) eff" where
  "on_tx m td = (case m (fst td) of (r, t) \<Rightarrow> (r, t, snd td))"

definition Cmd ::
  "('s, 'r) env \<Rightarrow> ('d, 's, 'r) kv_db \<Rightarrow> nat \<Rightarrow> 'r ctx \<Rightarrow> 'r tx_cmd \<Rightarrow> (('s, 'r) txn \<times> 'd, 'r tx_response) eff" where
  "Cmd E K n cx cmd =
     (if cmCommit cmd \<noteq> None
      then respond (no_response\<lparr>rsCommit := Some ()\<rparr>) (tx_Commit K) (\<lambda>_. no_response\<lparr>rsCommit := Some ()\<rparr>)
      else if cmRollback cmd \<noteq> None
      then respond (no_response\<lparr>rsRollback := Some ()\<rparr>) (tx_Rollback K) (\<lambda>_. no_response\<lparr>rsRollback := Some ()\<rparr>)
      else case cmQuery cmd of Some q \<Rightarrow>
        respond no_response (on_tx (tx_query E n cx (qcCollection q) (qcQuery q))) (\<lambda>p. no_response\<lparr>rsQuery := Some p\<rparr>) | None \<Rightarrow>
      case cmCreate cmd of Some c \<Rightarrow>
        respond no_response (on_tx (Create E n cx (ccCollection c) (ccDocument c))) (\<lambda>(_, d). no_response\<lparr>rsCreate := Some d\<rparr>) | None \<Rightarrow>
      case cmSet cmd of Some c \<Rightarrow>
        respond no_response (on_tx (tx_Set E n cx (scmCollection c) (scmDocument c))) (\<lambda>d. no_response\<lparr>rsSet := Some d\<rparr>) | None \<Rightarrow>
      case cmDelete cmd of Some c \<Rightarrow>
        respond no_response (on_tx (Delete E n cx (dcCollection c) (dcID c))) (\<lambda>_. no_response\<lparr>rsDelete := Some ()\<rparr>) | None \<Rightarrow>
      case cmGet cmd of Some c \<Rightarrow>
        respond no_response (on_tx (tx_get E n cx (gcCollection c) (gcID c))) (\<lambda>d. no_response\<lparr>rsGet := Some d\<rparr>) | None \<Rightarrow>
      case cmUpdate cmd of Some c \<Rightarrow>
        respond no_response (on_tx (ebind (Update E n cx (ucCollection c) (ucID c) (ucUpdate c))
          (\<lambda>_. tx_get E n cx (ucCollection c) (ucID c)))) (\<lambda>d. no_response\<lparr>rsUpdate := Some d\<rparr>) | None \<Rightarrow>
      case cmTimeTravel cmd of Some c \<Rightarrow>
        respond no_response (on_tx (TimeTravel E n cx (tcCollection c) (tcID c) (tcTimestamp c))) (\<lambda>d. no_response\<lparr>rsTimeTravel := Some d\<rparr>) | None \<Rightarrow>
      case cmRevert cmd of Some c \<Rightarrow>
        respond no_response (on_tx (Revert E n cx (rcCollection c) (rcID c) (rcTimestamp c))) (\<lambda>_. no_response\<lparr>rsRevert := Some ()\<rparr>) | None \<Rightarrow>
      ret (no_response\<lparr>rsError := Extract (Some (New Validation ''tx: unsupported command''))\<rparr>))"

text \<open>
  A command never fails by itself: an error of the operation is the error of the response, and a
  response without an error is that of the operation that succeeded.
\<close>

lemma respond_Fail [simp]: "fst (respond base m f s) \<noteq> Inl (Fail e)"
  by (auto simp: respond_def split: sum.splits prod.splits failure.splits)

lemma case_option_fst: "\<lbrakk>\<And>x. P (fst (f x s)); P (fst (g s))\<rbrakk> \<Longrightarrow> P (fst ((case c of Some x \<Rightarrow> f x | None \<Rightarrow> g) s))"
  by (cases c) simp_all

lemma Cmd_Fail: "fst (Cmd E K n cx cmd td) \<noteq> Inl (Fail e)"
proof (cases "cmCommit cmd \<noteq> None \<or> cmRollback cmd \<noteq> None")
  case True
  then show ?thesis by (auto simp: Cmd_def)
next
  case False
  then show ?thesis unfolding Cmd_def
    by (simp, intro case_option_fst [where P = "\<lambda>r. r \<noteq> Inl (Fail e)"]) simp_all
qed

end
