(* ===== verification/Cascade.thy ===== *)
theory Cascade
  imports Constraints
begin

text \<open>
  Deletes in a collection that others refer to. The collections that refer to it are themselves
  not referred to (two levels), their indexes are in step and their foreign keys are read through
  an index: then a delete that succeeds takes out the document and exactly the documents that
  refer to it. \<open>shrinks\<close> is the frame of a delete, \<open>cascaded\<close> the invariant of the loop.
\<close>

subsection \<open>What a delete may change\<close>

text \<open>Outside of \<open>A\<close> a delete only takes out, and only what is in \<open>B\<close>.\<close>

definition shrinks :: "bytes set \<Rightarrow> bytes set \<Rightarrow> 'r memtx \<Rightarrow> 'r memtx \<Rightarrow> bool" where
  "shrinks A B s s' \<longleftrightarrow> (\<forall>k. k \<notin> A \<longrightarrow> mem.view s' k = mem.view s k \<or> k \<in> B \<and> mem.view s' k = None)"

interpretation shrinking: kv_rel "shrinks A B" for A B
proof
  fix s t u :: "'a memtx"
  show "shrinks A B s s" by (simp add: shrinks_def)
  assume "shrinks A B s t" "shrinks A B t u"
  then show "shrinks A B s u" unfolding shrinks_def by metis
qed

lemma frame_shrinks: "keeps (kvrel (frame mem.view A)) m \<Longrightarrow> keeps (kvrel (shrinks A B)) m"
  by (auto simp: keeps_def kvrel_def frame_def shrinks_def)

lemma shrinks_del: "k \<in> B \<Longrightarrow> keeps (kvrel (shrinks A B)) (kv_write (mem_delete k))"
  by (rule shrinking.keeps_write) (auto simp: shrinks_def mem.view_del)

lemma delete_shrinks:
  assumes kv: "enKV E = \<lparr>opGet = mem_get, opSet = mem_set, opDel = mem_delete, opIter = mem_iter\<rparr>"
    and named: "schemas_named E cx" and act: "pcAction cmd = DeleteAction" and free: "unreferenced E (pcCollection cmd)"
  shows "keeps (kvrel (shrinks (coll_region (namespace (enJ E) cx) cdcCollectionName)
    (coll_region (namespace (enJ E) cx) (pcCollection cmd)))) (persistCommand E m cx cmd)"
proof (cases m)
  case 0
  then show ?thesis by (simp add: shrinking.keeps_lift)
next
  case (Suc n)
  let ?ns = "namespace (enJ E) cx"
  let ?A = "coll_region ?ns cdcCollectionName" and ?B = "coll_region ?ns (pcCollection cmd)"
  show ?thesis
  proof (cases "getSchema E cx (pcCollection cmd)")
    case None
    then show ?thesis by (simp add: Suc persist_with_def shrinking.keeps_lift)
  next
    case (Some p)
    obtain c cx' where p: "p = (c, cx')" by fastforce
    have name: "scCollection c = pcCollection cmd" using schemas_named_get(1) [OF named] Some p by simp
    have keys: "primary_key_path E cx c docID \<in> ?B" "index_key_path E cx (pcCollection cmd) i d docID \<in> ?B" for docID i d
      using path_in_region [of E cx] name by (metis subset_refl)+
    have prim: "keeps (kvrel (shrinks ?A ?B)) (deleteDocument E cx c docID)" for docID
      unfolding deleteDocument_def using keys(1)
      by (auto simp: kv intro!: shrinking.keeps_rules shrinks_del)
    have sec: "keeps (kvrel (shrinks ?A ?B)) (updateSecondaryIndex E n cx (pcCollection cmd) i docID b DeleteAction d)" for i docID b d
      unfolding updateSecondaryIndex_def drop_entry_def using keys(2)
      by (auto simp: kv split: option.splits intro!: shrinking.keeps_rules shrinks_del)
    have casc: "keeps (kvrel (shrinks ?A ?B)) (cascadeDelete E n per cx c (pcCollection cmd) d)" for per d
      by (simp add: keeps_def cascade_free [OF free] kvrel_def shrinking.Q_refl)
    have per: "keeps (kvrel (shrinks ?A ?B)) (persistCommand E n (SetIsInternal cx)
        \<lparr>pcCollection = cdcCollectionName, pcAction = CreateAction, pcDocument = dd, pcTimestamp = ts, pcMetadata = meta\<rparr>)" for dd ts meta
    proof (rule frame_shrinks, rule mem.keeps_change_record [OF kv])
      show "scCollection s = cdcCollectionName" if "getSchema E (SetIsInternal cx) cdcCollectionName = Some (s, cx')" for s cx'
        using schemas_named_get(1) [OF _ that] named by (simp add: schemas_named_def)
    qed simp_all
    have step: "keeps (kvrel (shrinks ?A ?B)) (\<lambda>t. (Inr (), t\<lparr>tCDC := f t\<rparr>))" for f
      by (simp add: keeps_def kvrel_def shrinks_def)
    have cdc: "keeps (kvrel (shrinks ?A ?B)) (record_cdc E (persistCommand E n) cx c cmd ts meta b d)" for ts meta b d
      unfolding record_cdc_def Let_def using per step by (auto intro!: shrinking.keeps_rules)
    have pair: "keeps (kvrel (shrinks ?A ?B)) (Pair r)" for r :: "'a res"
      using shrinking.keeps_lift [of ?A ?B r] by (simp add: keeps_def)
    show ?thesis
      unfolding Suc persistCommand.simps persist_with_def apply_action_def act Let_def Some p
      by (auto split: option.splits intro!: shrinking.keeps_rules shrinking.keeps_get shrinking.keeps_evaluate prim sec casc cdc pair)
  qed
qed

subsection \<open>Collections that refer to another\<close>

definition refers :: "string \<Rightarrow> index_c \<Rightarrow> bool" where
  "refers collection i \<longleftrightarrow> (case iForeignKey i of Some fk \<Rightarrow> fkCollection fk = collection | None \<Rightarrow> False)"

definition by_ref :: "string \<Rightarrow> string \<Rightarrow> query" where
  "by_ref f v = empty_query\<lparr>qWhere := [\<lparr>wField = f, wOp = WEq, wValue = AStr v\<rparr>]\<rparr>"

definition keyed :: "('s, 'r) env \<Rightarrow> 'r schema \<Rightarrow> bool" where
  "keyed E c \<longleftrightarrow> (\<forall>docID. good_id docID \<longrightarrow> (\<exists>d. NewDocumentFrom (enJ E) [(PrimaryKey c, AStr docID)] = Inr d \<and>
     GetPrimaryKey (enJ E) c d = docID))"

definition leaf :: "('r memtx, 'r) env \<Rightarrow> 'r ctx \<Rightarrow> string \<Rightarrow> string \<Rightarrow> 'r schema \<Rightarrow> bool" where
  "leaf E cx collection docID r \<longleftrightarrow> user_collection E cx (scCollection r) r \<and> unreferenced E (scCollection r) \<and> keyed E r \<and>
     (\<forall>i\<in>set (Indexing_map r). refers collection i \<longrightarrow> iFields i \<noteq> [] \<and> plain_query E (by_ref (hd (iFields i)) docID) \<and>
        (\<exists>ex. Optimize r (qWhere (by_ref (hd (iFields i)) docID)) = Inr ex \<and> leading ex))"

definition ready :: "('r memtx, 'r) env \<Rightarrow> 'r ctx \<Rightarrow> 'r schema \<Rightarrow> ('r memtx, 'r) txn \<Rightarrow> bool" where
  "ready E cx r t \<longleftrightarrow> in_order E cx r t \<and> tidy (namespace (enJ E) cx) r (mem.view (tKV t)) \<and>
     flat_docs E (namespace (enJ E) cx) r (mem.view (tKV t))"

abbreviation cdc_keys :: "('s, 'r) env \<Rightarrow> 'r ctx \<Rightarrow> bytes set" where
  "cdc_keys E cx \<equiv> coll_region (namespace (enJ E) cx) cdcCollectionName"

abbreviation coll_keys :: "('s, 'r) env \<Rightarrow> 'r ctx \<Rightarrow> 'r schema \<Rightarrow> bytes set" where
  "coll_keys E cx r \<equiv> coll_region (namespace (enJ E) cx) (scCollection r)"

lemma user_collectionD:
  assumes "user_collection E cx collection c"
  shows "schemas_named E cx" "nul \<notin> set (namespace (enJ E) cx)" "scCollection c = collection" "collection \<noteq> cdcCollectionName"
    "nul \<notin> set collection" "plain_reads E cx c" "cast_laws (enJ E)"
    "enKV E = \<lparr>opGet = mem_get, opSet = mem_set, opDel = mem_delete, opIter = mem_iter\<rparr>"
  using assms user_collectionE [OF assms] by (auto simp: user_collection_def plain_writes_def plain_reads_def)

lemma coll_keys_cdc:
  assumes "user_collection E cx (scCollection r) r" "k \<in> coll_keys E cx r"
  shows "k \<notin> cdc_keys E cx"
  using coll_region_disjoint [OF assms(2), of cdcCollectionName] user_collectionD [OF assms(1)] by (auto simp: cdcCollectionName_def)

lemma index_keys_coll: "prefix (indexPrefix ns c n) k \<Longrightarrow> k \<in> coll_region ns c"
proof -
  assume "prefix (indexPrefix ns c n) k"
  moreover have "prefix (collectionPrefix ns c @ [nul]) (indexPrefix ns c n)" by (simp add: indexPrefix_eq)
  ultimately show ?thesis unfolding coll_region_def using prefix_order.trans by blast
qed

lemma docs_shrink:
  assumes "user_collection E cx (scCollection r) r" "shrinks (cdc_keys E cx) B (tKV t) (tKV t')" "stored E cx r t' docID = Some d"
  shows "stored E cx r t docID = Some d"
proof -
  have "doc_key E (namespace (enJ E) cx) r docID \<notin> cdc_keys E cx"
    using coll_keys_cdc [OF assms(1)] doc_key_region region_coll by blast
  with assms(2,3) show ?thesis by (fastforce simp: stored_def docs_def shrinks_def split: if_splits)
qed

text \<open>Deletes keep a collection ready for the next query.\<close>

lemma ready_shrinks:
  assumes "user_collection E cx (scCollection r) r" "shrinks (cdc_keys E cx) B (tKV t) (tKV t')" "ready E cx r t" "in_order E cx r t'"
  shows "ready E cx r t'"
proof -
  have "mem.view (tKV t) k \<noteq> None" if "mem.view (tKV t') k \<noteq> None" "k \<in> coll_keys E cx r" for k
    using assms(2) coll_keys_cdc [OF assms(1) that(2)] that(1) by (auto simp: shrinks_def)
  then have "tidy (namespace (enJ E) cx) r (mem.view (tKV t'))"
    using assms(3) index_keys_coll unfolding ready_def tidy_def by blast
  moreover have "flat_docs E (namespace (enJ E) cx) r (mem.view (tKV t'))"
    using assms(3) docs_shrink [OF assms(1,2)] unfolding ready_def flat_docs_def stored_def by blast
  ultimately show ?thesis using assms(4) by (simp add: ready_def)
qed

lemma same_keys_stored:
  assumes "\<forall>k\<in>coll_keys E cx r. mem.view (tKV t') k = mem.view (tKV t) k"
  shows "stored E cx r t' = stored E cx r t" "in_order E cx r t \<Longrightarrow> in_order E cx r t'"
proof -
  have eq: "mem.view (tKV t') k = mem.view (tKV t) k" if "k \<in> region (namespace (enJ E) cx) (scCollection r) n" for k n
    using assms that region_coll by blast
  have dk: "mem.view (tKV t') (doc_key E (namespace (enJ E) cx) r docID) = mem.view (tKV t) (doc_key E (namespace (enJ E) cx) r docID)" for docID
    using eq doc_key_region by blast
  then show "stored E cx r t' = stored E cx r t" by (simp add: stored_def docs_def fun_eq_iff)
  have "index_ok E (namespace (enJ E) cx) r (mem.view (tKV t')) i" if "index_ok E (namespace (enJ E) cx) r (mem.view (tKV t)) i" for i
    using that by (simp add: index_ok_def eq dk)
  moreover have "docs_ok E (namespace (enJ E) cx) r (mem.view (tKV t'))" if "docs_ok E (namespace (enJ E) cx) r (mem.view (tKV t))"
    by (rule docs_ok_cong [OF _ that]) (simp add: eq)
  ultimately show "in_order E cx r t \<Longrightarrow> in_order E cx r t'"
    by (simp add: in_order_def consistent_def)
qed

subsection \<open>Deleting the documents of a query\<close>

lemma Delete_shrinks:
  assumes "user_collection E cx (scCollection r) r" "unreferenced E (scCollection r)"
  shows "keeps (kvrel (shrinks (cdc_keys E cx) (coll_keys E cx r))) (Delete E m cx (scCollection r) docID)"
proof -
  obtain cx1 where g: "getSchema E cx (scCollection r) = Some (r, cx1)" "plain_writes E cx1 r" "namespace (enJ E) cx1 = namespace (enJ E) cx"
    and kv: "enKV E = \<lparr>opGet = mem_get, opSet = mem_set, opDel = mem_delete, opIter = mem_iter\<rparr>"
    by (rule user_collectionE [OF assms(1)])
  have named: "schemas_named E cx1" using g(2) by (simp add: plain_writes_def)
  have "keeps (kvrel (shrinks (cdc_keys E cx) (coll_keys E cx r))) (persistCommand E m cx1 cmd)"
    if "pcCollection cmd = scCollection r" "pcAction cmd = DeleteAction" for cmd
    using delete_shrinks [OF kv named that(2)] assms(2) that(1) by (simp add: g(3))
  then show ?thesis
    unfolding Delete_def tx_delete_with_def g(1)
    by (auto split: sum.splits intro!: shrinking.keeps_rules)
qed

lemma delete_list:
  assumes user: "user_collection E cx (scCollection r) r" and free: "unreferenced E (scCollection r)" and keyed: "keyed E r"
  shows "efold (\<lambda>d _. tx_delete_with E (persistCommand E (Suc (Suc m))) cx (scCollection r) (GetPrimaryKey (enJ E) r d)) ds () t
      = (Inr (), t') \<Longrightarrow> ready E cx r t \<Longrightarrow> \<forall>d\<in>set ds. good_id (GetPrimaryKey (enJ E) r d) \<Longrightarrow>
    ready E cx r t' \<and> shrinks (cdc_keys E cx) (coll_keys E cx r) (tKV t) (tKV t') \<and>
    stored E cx r t' = (\<lambda>docID. if docID \<in> GetPrimaryKey (enJ E) r ` set ds then None else stored E cx r t docID)"
proof (induction ds arbitrary: t)
  case Nil
  then show ?case by (simp add: shrinking.Q_refl)
next
  case (Cons d ds)
  let ?id = "GetPrimaryKey (enJ E) r d"
  from Cons.prems(1) obtain u where u: "Delete E (Suc (Suc m)) cx (scCollection r) ?id t = (Inr (), u)"
    and rest: "efold (\<lambda>d _. tx_delete_with E (persistCommand E (Suc (Suc m))) cx (scCollection r) (GetPrimaryKey (enJ E) r d)) ds () u
      = (Inr (), t')"
    by (auto simp: ebind_Inr_iff Delete_def simp del: persistCommand.simps)
  have good: "good_id ?id" using Cons.prems(3) by simp
  then obtain d0 where d0: "NewDocumentFrom (enJ E) [(PrimaryKey r, AStr ?id)] = Inr d0" "GetPrimaryKey (enJ E) r d0 = ?id"
    using keyed by (auto simp: keyed_def)
  have ord: "in_order E cx r t" using Cons.prems(2) by (simp add: ready_def)
  have gone: "stored E cx r u = (stored E cx r t)(?id := None)" "in_order E cx r u"
    using delete_put [OF user ord free d0 good u] by simp_all
  have shr: "shrinks (cdc_keys E cx) (coll_keys E cx r) (tKV t) (tKV u)"
    using shrinking.keeps_run [OF Delete_shrinks [OF user free] u] by (simp add: kvrel_def)
  have "ready E cx r u" by (rule ready_shrinks [OF user shr Cons.prems(2) gone(2)])
  from Cons.IH [OF rest this] Cons.prems(3) gone(1) shr show ?case
    using shrinking.Q_trans by fastforce
qed

text \<open>\<open>purge\<close> takes out the documents that have the id in one of the fields.\<close>

definition purge :: "('s, 'r) env \<Rightarrow> string \<Rightarrow> string set \<Rightarrow> (string \<Rightarrow> 'r option) \<Rightarrow> string \<Rightarrow> 'r option" where
  "purge E docID fs m = (\<lambda>e. case m e of
     Some d \<Rightarrow> if \<exists>f\<in>fs. doc_get (enJ E) d f = AStr docID then None else Some d | None \<Rightarrow> None)"

lemma purge_empty [simp]: "purge E docID {} m = m"
  by (auto simp: purge_def fun_eq_iff split: option.splits)

lemma purge_purge: "purge E docID fs (purge E docID gs m) = purge E docID (gs \<union> fs) m"
  by (auto simp: purge_def fun_eq_iff split: option.splits)

lemma cascade_pair:
  assumes leaf: "leaf E cx collection docID r" and ready: "ready E cx r t" and good: "good_id docID"
    and i: "i \<in> set (Indexing_map r)" "refers collection i"
    and run: "ebind (tx_query E (Suc (Suc m)) cx (scCollection r) (with_select (by_ref (hd (iFields i)) docID)))
      (\<lambda>results. efold (\<lambda>d _. tx_delete_with E (persistCommand E (Suc (Suc m))) cx (scCollection r) (GetPrimaryKey (enJ E) r d))
        (pgDocuments results) ()) t = (Inr (), t')"
  shows "ready E cx r t' \<and> shrinks (cdc_keys E cx) (coll_keys E cx r) (tKV t) (tKV t') \<and>
    stored E cx r t' = purge E docID {hd (iFields i)} (stored E cx r t)"
proof -
  let ?f = "hd (iFields i)" and ?D = "stored E cx r t"
  let ?q = "by_ref ?f docID"
  have user: "user_collection E cx (scCollection r) r" and free: "unreferenced E (scCollection r)" and keyed: "keyed E r"
    and plan: "plain_query E ?q" and ex: "\<exists>ex. Optimize r (qWhere ?q) = Inr ex \<and> leading ex"
    using leaf i by (auto simp: leaf_def)
  note U = user_collectionD [OF user]
  from ex obtain ex where ex: "Optimize r (qWhere ?q) = Inr ex" "leading ex" by blast
  have wh: "doc_where (enJ E) d (qWhere ?q) = Inr (doc_get (enJ E) d ?f = AStr docID)" for d
    using where_eq_str [OF U(7)] good by (simp add: by_ref_def good_id_def del: doc_where.simps)
  have cl: "clauses_plain (enJ E) (qWhere ?q)" using good U(7) by (simp add: clauses_plain_def by_ref_def good_id_def)
  obtain cx1 where g: "getSchema E cx (scCollection r) = Some (r, cx1)" by (rule user_collectionE [OF user])
  have R: "consistent E (namespace (enJ E) cx) r (mem.view (tKV t))" "tidy (namespace (enJ E) cx) r (mem.view (tKV t))"
    "flat_docs E (namespace (enJ E) cx) r (mem.view (tKV t))"
    using ready by (simp_all add: ready_def in_order_def)
  have page1: "qOrderBy ?q = []" "qPage ?q = 0" by (simp_all add: by_ref_def empty_query_def)
  obtain p ids where p: "tx_query E (Suc (Suc m)) cx (scCollection r) ?q t = (Inr p, t)"
    and ids: "set ids = {e. \<exists>d. ?D e = Some d \<and> doc_get (enJ E) d ?f = AStr docID}"
    and pd: "pgDocuments p = take_limit ?q (map (\<lambda>e. the (?D e)) ids)"
    using mem.query_run [OF U(8) g refl U(6) plan page1 R(1) refl ex cl R(2,3), of m] unfolding wh stored_def
    by (auto simp del: tx_query.simps)
  let ?ds = "map (\<lambda>e. the (?D e)) ids"
  have "pgDocuments p = ?ds" using pd by (simp add: take_limit_def by_ref_def empty_query_def)
  then have loop: "efold (\<lambda>d _. tx_delete_with E (persistCommand E (Suc (Suc m))) cx (scCollection r) (GetPrimaryKey (enJ E) r d)) ?ds () t
      = (Inr (), t')"
    using run p unfolding with_select_twice by (simp add: ebind_def del: tx_query.simps persistCommand.simps)
  have key: "good_id e \<and> GetPrimaryKey (enJ E) r (the (?D e)) = e" if "e \<in> set ids" for e
  proof -
    from that ids obtain d where d: "?D e = Some d" by auto
    then have "stored_doc E r e d" using ready by (auto simp: ready_def in_order_def consistent_def stored_def intro: docs_stored)
    then show ?thesis using d U(7) by (simp add: stored_doc_def GetPrimaryKey_def GetString_def)
  qed
  then have "GetPrimaryKey (enJ E) r ` set ?ds = set ids" by (force simp: image_image)
  then have "stored E cx r t' = (\<lambda>e. if e \<in> set ids then None else ?D e) \<and> ready E cx r t' \<and>
      shrinks (cdc_keys E cx) (coll_keys E cx r) (tKV t) (tKV t')"
    using delete_list [OF user free keyed loop ready] key by simp
  then show ?thesis by (auto simp: purge_def ids fun_eq_iff split: option.splits)
qed

subsection \<open>The loop of the cascade\<close>

lemma efold_cover:
  assumes "\<And>x P t t'. x \<in> set xs \<Longrightarrow> f x () t = (Inr (), t') \<Longrightarrow> I P t \<Longrightarrow> I (P \<union> g x) t'"
  shows "efold f xs () t = (Inr (), t') \<Longrightarrow> I P t \<Longrightarrow> I (P \<union> (\<Union>x\<in>set xs. g x)) t'"
  using assms
proof (induction xs arbitrary: P t)
  case (Cons x xs)
  from Cons.prems(1) obtain u where u: "f x () t = (Inr (), u)" "efold f xs () u = (Inr (), t')"
    by (auto simp: ebind_Inr_iff)
  have "I (P \<union> g x) u" using Cons.prems(2,3) u(1) by simp
  from Cons.IH [OF u(2) this] Cons.prems(3) show ?case by (simp add: Un_assoc)
qed simp

definition referring :: "('s, 'r) env \<Rightarrow> string \<Rightarrow> 'r schema set" where
  "referring E collection = {r \<in> snd ` set (enColl E). \<exists>i\<in>set (Indexing_map r). refers collection i}"

definition fields_of :: "string \<Rightarrow> ('r schema \<times> index_c) set \<Rightarrow> 'r schema \<Rightarrow> string set" where
  "fields_of collection P r = {hd (iFields i) | i. (r, i) \<in> P \<and> refers collection i}"

definition cascaded :: "('r memtx, 'r) env \<Rightarrow> 'r ctx \<Rightarrow> string \<Rightarrow> string \<Rightarrow> ('r memtx, 'r) txn \<Rightarrow> ('r schema \<times> index_c) set
    \<Rightarrow> ('r memtx, 'r) txn \<Rightarrow> bool" where
  "cascaded E cx collection docID t0 P t \<longleftrightarrow>
     (\<forall>r\<in>referring E collection. ready E cx r t \<and>
        stored E cx r t = purge E docID (fields_of collection P r) (stored E cx r t0)) \<and>
     (\<forall>k. k \<notin> cdc_keys E cx \<longrightarrow> (\<forall>r\<in>referring E collection. k \<notin> coll_keys E cx r) \<longrightarrow>
        mem.view (tKV t) k = mem.view (tKV t0) k)"

lemma fields_of_insert:
  "fields_of collection (insert (r, i) P) r' = (if r' = r \<and> refers collection i then {hd (iFields i)} else {}) \<union> fields_of collection P r'"
  by (auto simp: fields_of_def)

lemma cascaded_pair:
  assumes leaves: "\<forall>r\<in>referring E collection. leaf E cx collection docID r" and good: "good_id docID"
    and i: "r \<in> snd ` set (enColl E)" "i \<in> set (Indexing_map r)"
    and inv: "cascaded E cx collection docID t0 P t"
    and run: "(if (case iForeignKey i of Some fk \<Rightarrow> fkCollection fk = collection | None \<Rightarrow> False)
          then (case iFields i of
              [] \<Rightarrow> lift_res (Inl (Panic ''index out of range''))
            | f # _ \<Rightarrow> ebind (tx_query E (Suc (Suc m)) cx (scCollection r) (empty_query\<lparr>qSelect := [select_field ''*''],
                  qWhere := [\<lparr>wField = f, wOp = WEq, wValue = AStr docID\<rparr>]\<rparr>))
                (\<lambda>results. efold (\<lambda>d _. tx_delete_with E (persistCommand E (Suc (Suc m))) cx (scCollection r) (GetPrimaryKey (enJ E) r d))
                   (pgDocuments results) ()))
          else ret ()) t = (Inr (), t')"
  shows "cascaded E cx collection docID t0 (insert (r, i) P) t'"
proof (cases "refers collection i")
  case False
  then have "t' = t" using run by (auto simp: refers_def split: option.splits)
  with inv False show ?thesis by (simp add: cascaded_def fields_of_insert)
next
  case True
  then have r: "r \<in> referring E collection" using i by (auto simp: referring_def)
  have lr: "leaf E cx collection docID r" and rr: "ready E cx r t" using leaves inv r by (auto simp: cascaded_def)
  have user: "user_collection E cx (scCollection r) r" using lr by (simp add: leaf_def)
  obtain f fs where f: "iFields i = f # fs" using lr i(2) True by (cases "iFields i") (auto simp: leaf_def)
  have q: "empty_query\<lparr>qSelect := [select_field ''*''], qWhere := [\<lparr>wField = f, wOp = WEq, wValue = AStr docID\<rparr>]\<rparr>
      = with_select (by_ref (hd (iFields i)) docID)"
    by (simp add: with_select_def by_ref_def empty_query_def f)
  have one: "ready E cx r t'" "shrinks (cdc_keys E cx) (coll_keys E cx r) (tKV t) (tKV t')"
    "stored E cx r t' = purge E docID {hd (iFields i)} (stored E cx r t)"
    using cascade_pair [OF lr rr good i(2) True, of m t'] run True
    unfolding refers_def [symmetric] f list.case q
    by (simp_all add: f del: tx_query.simps persistCommand.simps computed_reads_schema)
  have other: "ready E cx s t' \<and> stored E cx s t' = stored E cx s t" if s: "s \<in> referring E collection" "s \<noteq> r" for s
  proof -
    have us: "user_collection E cx (scCollection s) s" and rs: "ready E cx s t"
      using leaves inv s(1) by (auto simp: leaf_def cascaded_def)
    have ne: "scCollection s \<noteq> scCollection r" using s(2) us user user_collection_schema by metis
    have same: "\<forall>k\<in>coll_keys E cx s. mem.view (tKV t') k = mem.view (tKV t) k"
    proof
      fix k assume k: "k \<in> coll_keys E cx s"
      have "k \<notin> coll_keys E cx r"
        using coll_region_disjoint [OF k] ne user_collectionD [OF us] user_collectionD [OF user] by blast
      with one(2) coll_keys_cdc [OF us k] show "mem.view (tKV t') k = mem.view (tKV t) k" by (auto simp: shrinks_def)
    qed
    have "in_order E cx s t'" using same_keys_stored(2) [OF same] rs by (simp add: ready_def)
    from ready_shrinks [OF us one(2) rs this] same_keys_stored(1) [OF same] show ?thesis by simp
  qed
  have "mem.view (tKV t') k = mem.view (tKV t) k" if "k \<notin> cdc_keys E cx" "k \<notin> coll_keys E cx r" for k
    using one(2) that by (auto simp: shrinks_def)
  with inv one other r show ?thesis
    by (auto simp: cascaded_def fields_of_insert purge_purge Un_commute True)
qed

lemma user_collection_ctx:
  assumes "getSchema E cx collection = Some (c, cx1)" "scCollection c = collection" "user_collection E cx a r"
  shows "user_collection E cx1 a r"
proof -
  obtain cx' where g: "getSchema E cx a = Some (r, cx')" by (rule user_collectionE [OF assms(3)])
  obtain cx2 where "getSchema E cx1 a = Some (r, cx2)" using getSchema_other [OF assms(1,2) g] by blast
  moreover have "plain_writes E cx1 r"
    using assms(3) getSchema_ctx [OF assms(1), of "enJ E"] schemas_named_get(2) [OF _ assms(1)] plain_reads_ctx [of E cx r cx1]
    by (simp add: user_collection_def plain_writes_def)
  ultimately show ?thesis using assms(3) by (simp add: user_collection_def)
qed

lemma cascade_done:
  assumes leaves: "\<forall>r\<in>referring E collection. leaf E cx collection docID r" and good: "good_id docID"
    and ready: "\<forall>r\<in>referring E collection. ready E cx r t" and key: "GetPrimaryKey (enJ E) c document = docID"
    and run: "cascadeDelete E (Suc (Suc m)) (persistCommand E (Suc (Suc m))) cx c collection document t = (Inr (), t')"
  shows "cascaded E cx collection docID t (SIGMA r:snd ` set (enColl E). set (Indexing_map r)) t'"
proof -
  have start: "cascaded E cx collection docID t {} t"
    using ready by (simp add: cascaded_def fields_of_def)
  have pairs: "cascaded E cx collection docID t (P \<union> {(snd x, i)}) u'"
    if "x \<in> set (enColl E)" "i \<in> set (Indexing_map (snd x))" "cascaded E cx collection docID t P u"
      "(if (case iForeignKey i of Some fk \<Rightarrow> fkCollection fk = collection | None \<Rightarrow> False)
          then (case iFields i of
              [] \<Rightarrow> lift_res (Inl (Panic ''index out of range''))
            | f # _ \<Rightarrow> ebind (tx_query E (Suc (Suc m)) cx (scCollection (snd x)) (empty_query\<lparr>qSelect := [select_field ''*''],
                  qWhere := [\<lparr>wField = f, wOp = WEq, wValue = AStr docID\<rparr>]\<rparr>))
                (\<lambda>results. efold (\<lambda>d _. tx_delete_with E (persistCommand E (Suc (Suc m))) cx (scCollection (snd x)) (GetPrimaryKey (enJ E) (snd x) d))
                   (pgDocuments results) ()))
          else ret ()) u = (Inr (), u')" for x i P u u'
    using cascaded_pair [OF leaves good _ that(2,3,4)] that(1) by simp
  note run = run [unfolded cascadeDelete_def wrap_eff_Inr key case_prod_beta]
  have "cascaded E cx collection docID t ({} \<union> (\<Union>x\<in>set (enColl E). {snd x} \<times> set (Indexing_map (snd x)))) t'"
  proof (rule efold_cover [where I = "cascaded E cx collection docID t", OF _ run start])
    fix x P u u'
    assume x: "x \<in> set (enColl E)" and inv: "cascaded E cx collection docID t P u"
      and inner: "efold (\<lambda>i _. if (case iForeignKey i of Some fk \<Rightarrow> fkCollection fk = collection | None \<Rightarrow> False)
          then (case iFields i of
              [] \<Rightarrow> lift_res (Inl (Panic ''index out of range''))
            | f # _ \<Rightarrow> ebind (tx_query E (Suc (Suc m)) cx (scCollection (snd x)) (empty_query\<lparr>qSelect := [select_field ''*''],
                  qWhere := [\<lparr>wField = f, wOp = WEq, wValue = AStr docID\<rparr>]\<rparr>))
                (\<lambda>results. efold (\<lambda>d _. tx_delete_with E (persistCommand E (Suc (Suc m))) cx (scCollection (snd x)) (GetPrimaryKey (enJ E) (snd x) d))
                   (pgDocuments results) ()))
          else ret ()) (Indexing_map (snd x)) () u = (Inr (), u')"
    have "cascaded E cx collection docID t (P \<union> (\<Union>i\<in>set (Indexing_map (snd x)). {(snd x, i)})) u'"
      by (rule efold_cover [where I = "cascaded E cx collection docID t", OF _ inner inv], rule pairs [OF x])
    moreover have "(\<Union>i\<in>set (Indexing_map (snd x)). {(snd x, i)}) = {snd x} \<times> set (Indexing_map (snd x))" by auto
    ultimately show "cascaded E cx collection docID t (P \<union> {snd x} \<times> set (Indexing_map (snd x))) u'" by simp
  qed
  moreover have "{} \<union> (\<Union>x\<in>set (enColl E). {snd x} \<times> set (Indexing_map (snd x))) = (SIGMA r:snd ` set (enColl E). set (Indexing_map r))"
    by auto
  ultimately show ?thesis by simp
qed

text \<open>The fields of a collection that hold ids of another.\<close>

definition ref_fields :: "string \<Rightarrow> 'r schema \<Rightarrow> string set" where
  "ref_fields collection r = (\<lambda>i. hd (iFields i)) ` {i \<in> set (Indexing_map r). refers collection i}"

text \<open>The stages of a \<open>Delete\<close> around its cascade, in terms of the collection.\<close>

lemma delete_aroundE:
  assumes user: "user_collection E cx collection c" and ord: "in_order E cx c t"
    and doc: "NewDocumentFrom (enJ E) [(PrimaryKey c, AStr docID)] = Inr d0" "GetPrimaryKey (enJ E) c d0 = docID"
    and good: "good_id docID" and run: "Delete E (Suc (Suc (Suc n))) cx collection docID t = (Inr (), t')"
  obtains cx1 t1 t2 where "getSchema E cx collection = Some (c, cx1)" "namespace (enJ E) cx1 = namespace (enJ E) cx"
    "mem.view (tKV t1) = (mem.view (tKV t))(doc_key E (namespace (enJ E) cx) c docID := None)"
    "cascadeDelete E (Suc (Suc n)) (persistCommand E (Suc (Suc n))) cx1 c collection d0 t1 = (Inr (), t2)"
    "frame mem.view (coll_keys E cx c \<union> cdc_keys E cx) (tKV t2) (tKV t')"
    "(\<forall>k\<in>coll_keys E cx c. mem.view (tKV t2) k = mem.view (tKV t1) k) \<longrightarrow>
      stored E cx c t' = (stored E cx c t)(docID := None) \<and> in_order E cx c t'"
proof -
  let ?u = "t\<lparr>tTick := Suc (tTick t)\<rparr>"
  obtain cx1 where g: "getSchema E cx collection = Some (c, cx1)" "getSchema E cx1 collection = Some (c, cx1)"
    "plain_writes E cx1 c" "namespace (enJ E) cx1 = namespace (enJ E) cx"
    by (rule user_collectionE [OF user])
  note U = user_collectionD [OF user]
  define cmd where "cmd = \<lparr>pcCollection = collection, pcAction = DeleteAction, pcDocument = d0,
    pcTimestamp = enClock E (tTick t), pcMetadata = Some (ExtractMetadata (enJ E) cx1)\<rparr>"
  have cmd: "pcCollection cmd = collection" "pcAction cmd = DeleteAction" "pcDocument cmd = d0" by (simp_all add: cmd_def)
  obtain d where p: "persistCommand E (Suc (Suc (Suc n))) cx1 cmd ?u = (Inr d, t')"
    using doc(1) run g(1) unfolding cmd_def
    by (auto simp: Delete_def tx_delete_with_def ebind_def [of "draw _"] draw_def ebind_Inr_iff simp del: persistCommand.simps)
  have tick: "tKV ?u = tKV t" by simp
  have ok: "docs_ok E (namespace (enJ E) cx1) c (mem.view (tKV ?u))" using in_order_docs [OF ord] g(4) by simp
  have put: "stored E cx c t' = (stored E cx c t)(docID := None) \<and> in_order E cx c t'"
    if w: "written E (namespace (enJ E) cx) c docID (docs E (namespace (enJ E) cx) c (mem.view (tKV t)) docID) None
      (mem.view (tKV t)) (mem.view (tKV t'))"
  proof
    show "stored E cx c t' = (stored E cx c t)(docID := None)" using written_docs [OF w good] by (simp add: stored_def)
    show "in_order E cx c t'"
      unfolding in_order_def
      by (rule written_consistent [OF w ord [unfolded in_order_def] good]) (use good in \<open>simp_all add: docs_def\<close>)
  qed
  show thesis
    by (rule mem.persist_delete_stages [OF U(8) _ g(3) _ _ _ good ok cmd(2) p, unfolded cmd tick g(4), OF g(2) U(4,5) doc(2)])
      (use that [OF g(1,4)] put in blast)
qed

text \<open>A collection that refers to another is kept apart from it, and is ready once the document is taken out.\<close>

lemma leaf_apart:
  assumes "user_collection E cx (scCollection c) c" "leaf E cx (scCollection c) docID r" "r \<in> referring E (scCollection c)"
    and "k \<in> coll_keys E cx r"
  shows "k \<notin> coll_keys E cx c"
proof -
  have l: "user_collection E cx (scCollection r) r" "unreferenced E (scCollection r)" using assms(2) by (auto simp: leaf_def)
  have "scCollection r \<noteq> scCollection c"
    using l(2) assms(3) by (fastforce simp: referring_def unreferenced_def refers_def split: option.splits)
  then show ?thesis
    using coll_region_disjoint [OF assms(4), of "scCollection c"] user_collectionD(5) [OF l(1)] user_collectionD(2,5) [OF assms(1)] by auto
qed

lemma taken_ready:
  assumes "user_collection E cx (scCollection c) c" "leaf E cx (scCollection c) docID r" "r \<in> referring E (scCollection c)"
    and "ready E cx r t" and taken: "mem.view (tKV t1) = (mem.view (tKV t))(doc_key E (namespace (enJ E) cx) c e := None)"
  shows "ready E cx r t1" "stored E cx r t1 = stored E cx r t"
proof -
  have user: "user_collection E cx (scCollection r) r" using assms(2) by (simp add: leaf_def)
  have "doc_key E (namespace (enJ E) cx) c e \<in> coll_keys E cx c" using doc_key_region region_coll by blast
  then have eq: "\<forall>k\<in>coll_keys E cx r. mem.view (tKV t1) k = mem.view (tKV t) k"
    using leaf_apart [OF assms(1-3)] taken by auto
  have shr: "shrinks (cdc_keys E cx) UNIV (tKV t) (tKV t1)" using taken by (auto simp: shrinks_def)
  have "in_order E cx r t1" using same_keys_stored(2) [OF eq] assms(4) by (simp add: ready_def)
  then show "ready E cx r t1" by (rule ready_shrinks [OF user shr assms(4)])
  show "stored E cx r t1 = stored E cx r t" by (rule same_keys_stored(1) [OF eq])
qed


subsection \<open>Tasks and their owners\<close>

text \<open>A \<open>Set\<close> writes its collection and the change records only.\<close>

lemma set_elsewhere:
  assumes "user_collection E cx collection c" and "in_order E cx c t"
    and "GetPrimaryKey (enJ E) c document = docID" and "good_id docID"
    and "tx_Set E (Suc (Suc n)) cx collection document t = (Inr d, t')"
    and "k \<notin> coll_keys E cx c" and "k \<notin> cdc_keys E cx"
  shows "mem.view (tKV t') k = mem.view (tKV t) k"
proof -
  obtain cx1 where g: "getSchema E cx collection = Some (c, cx1)" "namespace (enJ E) cx1 = namespace (enJ E) cx" "scCollection c = collection"
    and kv: "enKV E = \<lparr>opGet = mem_get, opSet = mem_set, opDel = mem_delete, opIter = mem_iter\<rparr>"
    by (rule user_collectionE [OF assms(1)])
  have com: "commit_command E (Suc (Suc n)) cx1 collection SetAction document ''tx: failed to commit set'' t = (Inr d, t')"
    using assms(5) g(1) by (simp add: tx_Set_def)
  obtain tb tc where loop: "efold (index_step E (Suc n) cx1 collection docID (stored E cx c t docID) SetAction d) (Indexing_map c) () tb = (Inr (), tc)"
    and cdc: "\<forall>k. k \<notin> cdc_keys E cx \<longrightarrow> mem.view (tKV t') k = mem.view (tKV tc) k"
    and before: "\<forall>k. k \<notin> coll_region (namespace (enJ E) cx) collection \<longrightarrow> mem.view (tKV tb) k = mem.view (tKV t) k"
    by (rule commit_loopE [OF assms(1) g(1) assms(2-4) _ com]) (auto intro: that)
  have "mem.view (tKV tc) k = mem.view (tKV tb) k"
    by (rule mem.steps_frame [OF kv _ loop assms(6)]) (simp add: g(2,3) region_coll)
  then show ?thesis using cdc before assms(6,7) g(3) by simp
qed

definition owner_schema :: "any kvs schema" where
  "owner_schema = plain_schema ''user'' [] False"

definition by_owner :: index_c where
  "by_owner = \<lparr>iName = ''by_owner'', iFields = [''owner''], iUnique = False, iPrimary = False,
     iForeignKey = Some \<lparr>fkCollection = ''user'', fkCascade = True\<rparr>\<rparr>"

definition task_schema :: "any kvs schema" where
  "task_schema = plain_schema ''task'' [(''by_owner'', by_owner)] False"

definition task_env :: "(any kvs memtx, any kvs) env" where
  "task_env = flat_env [(''user'', owner_schema), (''task'', task_schema), (''system_cdc'', plain_schema ''system_cdc'' [] False)]"

definition chore :: "any kvs" where
  "chore = [(''_id'', AStr ''b''), (''owner'', AStr ''a'')]"

definition owner_tx :: "(any kvs memtx, any kvs) txn" where
  "owner_tx = snd (tx_Set task_env (Suc (Suc 1)) user_ctx ''user'' ann fresh_tx)"

definition task_tx :: "(any kvs memtx, any kvs) txn" where
  "task_tx = snd (tx_Set task_env (Suc (Suc 1)) user_ctx ''task'' chore owner_tx)"

lemma task_collections: "user_collection task_env user_ctx ''user'' owner_schema" "user_collection task_env user_ctx ''task'' task_schema"
  by (simp_all add: user_collection_def task_env_def flat_env_def getSchema_def schemaFromCtx_def user_ctx_def
      plain_writes_def plain_reads_def schemas_named_def schema_wf_def owner_schema_def task_schema_def plain_schema_def pk_index_def
      by_owner_def computed_reads_def keys_def cdcCollectionName_def namespace_def GetMetadataValue_def flat_json_cast flat_json_flatten)

definition keys_tidy :: "string \<Rightarrow> 'r schema \<Rightarrow> (bytes \<times> 'v) list \<Rightarrow> bool" where
  "keys_tidy ns c kvs = list_all (\<lambda>kv. list_all (\<lambda>i. prefix (indexPrefix ns (scCollection c) (iName i)) (fst kv) \<longrightarrow>
    prefix (indexPrefix ns (scCollection c) (iName i) @ [nul]) (fst kv)) (Indexing_map c)) kvs"

lemma task_run: "(case tx_Set task_env 3 user_ctx ''user'' ann fresh_tx of (r1, t1) \<Rightarrow>
    case tx_Set task_env 3 user_ctx ''task'' chore t1 of (r2, t2) \<Rightarrow>
      r1 = Inr ann \<and> r2 = Inr chore \<and> fst (Delete task_env 4 user_ctx ''user'' ''a'' t2) = Inr () \<and>
      keys_tidy ''default'' task_schema (mt_data (tKV t2)))"
  by code_simp

lemmas task_runs = task_run [unfolded case_prod_beta]

lemma task_ids: "GetPrimaryKey (enJ task_env) owner_schema ann = ''a''" "stored_doc task_env owner_schema ''a'' ann"
  "GetPrimaryKey (enJ task_env) task_schema chore = ''b''" "stored_doc task_env task_schema ''b'' chore" "good_id ''b''"
  using witness_ids(1)
  by (simp_all add: good_id_def null_text_def HasPrefix_def selfRefPrefix_def stored_doc_def doc_valid_def GetPrimaryKey_def
      GetString_def doc_get_def task_env_def flat_env_def flat_json_def PrimaryKey_def owner_schema_def task_schema_def
      plain_schema_def pk_index_def ann_def chore_def)

lemma task_namespace: "namespace (enJ task_env) user_ctx = ''default''"
  by code_simp

lemma task_keys_apart: "k \<in> coll_region ''default'' ''user'' \<Longrightarrow> k \<notin> coll_region ''default'' ''task'' \<and> k \<notin> coll_region ''default'' cdcCollectionName"
  "k \<in> coll_region ''default'' ''task'' \<Longrightarrow> k \<notin> coll_region ''default'' ''user'' \<and> k \<notin> coll_region ''default'' cdcCollectionName"
  by (auto simp: cdcCollectionName_def dest: coll_region_disjoint)

lemma task_tx_stored:
  "stored task_env user_ctx owner_schema task_tx ''a'' = Some ann" "in_order task_env user_ctx owner_schema task_tx"
  "stored task_env user_ctx task_schema task_tx = [''b'' \<mapsto> chore]" "in_order task_env user_ctx task_schema task_tx"
proof -
  have names: "scCollection owner_schema = ''user''" "scCollection task_schema = ''task''"
    by (simp_all add: owner_schema_def task_schema_def plain_schema_def)
  have run: "tx_Set task_env (Suc (Suc 1)) user_ctx ''user'' ann fresh_tx = (Inr ann, owner_tx)"
    "tx_Set task_env (Suc (Suc 1)) user_ctx ''task'' chore owner_tx = (Inr chore, task_tx)"
    using task_runs by (simp_all add: numeral_3_eq_3 prod_eq_iff owner_tx_def task_tx_def)
  note first_set = set_put [OF task_collections(1) fresh_in_order(1) task_ids(1) witness_ids(1) run(1) task_ids(2)]
  have keep1: "\<forall>k\<in>coll_keys task_env user_ctx task_schema. mem.view (tKV owner_tx) k = mem.view (tKV fresh_tx) k"
    using set_elsewhere [OF task_collections(1) fresh_in_order(1) task_ids(1) witness_ids(1) run(1)] task_keys_apart
    unfolding names task_namespace by blast
  note t1 = same_keys_stored [OF keep1]
  note second_set = set_put [OF task_collections(2) t1(2) [OF fresh_in_order(1)] task_ids(3,5) run(2) task_ids(4)]
  have keep2: "\<forall>k\<in>coll_keys task_env user_ctx owner_schema. mem.view (tKV task_tx) k = mem.view (tKV owner_tx) k"
    using set_elsewhere [OF task_collections(2) t1(2) [OF fresh_in_order(1)] task_ids(3,5) run(2)] task_keys_apart
    unfolding names task_namespace by blast
  note t2 = same_keys_stored [OF keep2]
  show "stored task_env user_ctx owner_schema task_tx ''a'' = Some ann" "in_order task_env user_ctx owner_schema task_tx"
    using t2 first_set by simp_all
  show "in_order task_env user_ctx task_schema task_tx" using second_set by simp
  show "stored task_env user_ctx task_schema task_tx = [''b'' \<mapsto> chore]"
    using second_set t1(1) fresh_in_order(2) by (auto simp: fun_eq_iff)
qed

lemma task_indexes: "Indexing_map task_schema = [pk_index, by_owner]"
  by (simp add: Indexing_map_def task_schema_def plain_schema_def pk_index_def by_owner_def)

lemma task_leaf: "leaf task_env user_ctx ''user'' ''a'' task_schema"
proof -
  have "keyed task_env task_schema"
    by (auto simp: keyed_def task_env_def flat_env_def flat_json_def NewDocumentFrom_def NewDocumentFromBytes_def doc_valid_def
        GetPrimaryKey_def GetString_def doc_get_def PrimaryKey_def task_schema_def plain_schema_def pk_index_def)
  moreover have "unreferenced task_env (scCollection task_schema)"
    by (simp add: unreferenced_def task_env_def flat_env_def owner_schema_def task_schema_def plain_schema_def Indexing_map_def
        pk_index_def by_owner_def)
  moreover note task_indexes
  moreover have "plain_query task_env (by_ref ''owner'' ''a'')"
    by (simp add: plain_query_def by_ref_def empty_query_def task_env_def flat_env_def)
  moreover have "\<exists>ex. Optimize task_schema (qWhere (by_ref ''owner'' ''a'')) = Inr ex \<and> leading ex"
  proof -
    have "Optimize task_schema (qWhere (by_ref ''owner'' ''a'')) = Inr \<lparr>eCollection = ''task'', eIndex = by_owner,
        eMatchedFields = [''owner''], eMatchedValues = [(''owner'', AStr ''a'')], eSeekFields = [], eSeekValues = [], eReverse = False\<rparr>"
      by code_simp
    then show ?thesis by (auto simp: leading_def by_owner_def intro!: exI [of _ 1])
  qed
  ultimately show ?thesis
    using task_collections(2) by (simp add: leaf_def refers_def task_schema_def plain_schema_def pk_index_def by_owner_def)
qed

lemma task_ready: "ready task_env user_ctx task_schema task_tx"
proof -
  have view: "mem.view (tKV task_tx) = map_of (mt_data (tKV task_tx))" by (simp add: mem.view_def map_of_sort_clearjunk)
  have "tidy ''default'' task_schema (mem.view (tKV task_tx))"
    unfolding tidy_def region_def view using task_runs
    by (auto simp: keys_tidy_def list_all_iff task_tx_def owner_tx_def numeral_3_eq_3 dest!: map_of_SomeD)
  moreover have "entry_of (enJ task_env) by_owner (doc_value (enJ task_env) chore) chore"
    by (simp add: by_owner_def entry_of_def task_env_def flat_env_def flat_json_def flat_fields_def doc_value_def chore_def)
  then have "flat_docs task_env ''default'' task_schema (mem.view (tKV task_tx))"
    using task_tx_stored(3)
    by (auto simp: flat_docs_def stored_def task_namespace secondary_def Indexing_map_def task_schema_def plain_schema_def pk_index_def
        split: if_splits)
  ultimately show ?thesis using task_tx_stored(4) by (simp add: ready_def task_namespace)
qed


end
