(* ===== verification/Base64.thy ===== *)
theory Base64
  imports Errors
begin

text \<open>
  The encodings of the standard library that \<open>javascript.go\<close> uses: \<open>encoding/hex\<close> and the padded
  standard alphabet of \<open>encoding/base64\<close>, over bytes. \<open>DecodeString\<close> skips line breaks and refuses
  everything else that is not a whole number of groups, with padding in the last one only.
\<close>

definition hexEncode :: "bytes \<Rightarrow> string" where
  "hexEncode b = concat (map (\<lambda>c. let n = of_char c in [hex_digit (n div 16), hex_digit (n mod 16)]) b)"

definition b64_alphabet :: string where
  "b64_alphabet = ''ABCDEFGHIJKLMNOPQRSTUVWXYZabcdefghijklmnopqrstuvwxyz0123456789+/''"

definition b64_char :: "nat \<Rightarrow> char" where
  "b64_char n = b64_alphabet ! n"

definition b64_value :: "char \<Rightarrow> nat option" where
  "b64_value c = map_of (zip b64_alphabet [0..<64]) c"

definition pad :: char where
  "pad = CHR ''=''"

fun b64_groups :: "nat list \<Rightarrow> string" where
  "b64_groups [] = []"
| "b64_groups [a] = [b64_char (a div 4), b64_char (a mod 4 * 16), pad, pad]"
| "b64_groups [a, b] = [b64_char (a div 4), b64_char (a mod 4 * 16 + b div 16), b64_char (b mod 16 * 4), pad]"
| "b64_groups (a # b # c # ns) = b64_char (a div 4) # b64_char (a mod 4 * 16 + b div 16) #
     b64_char (b mod 16 * 4 + c div 64) # b64_char (c mod 64) # b64_groups ns"

definition b64_encode :: "bytes \<Rightarrow> string" where
  "b64_encode b = b64_groups (map of_char b)"

text \<open>The last group may end in padding; the bits that padding cuts off are not looked at.\<close>

fun b64_ungroup :: "string \<Rightarrow> nat list option" where
  "b64_ungroup [] = Some []"
| "b64_ungroup (w # x # y # z # cs) = (case (b64_value w, b64_value x) of
     (Some a, Some b) \<Rightarrow>
       if y = pad then (if z = pad \<and> cs = [] then Some [a * 4 + b div 16] else None)
       else (case b64_value y of None \<Rightarrow> None | Some c \<Rightarrow>
         if z = pad then (if cs = [] then Some [a * 4 + b div 16, b mod 16 * 16 + c div 4] else None)
         else (case (b64_value z, b64_ungroup cs) of
             (Some d, Some ns) \<Rightarrow> Some ((a * 4 + b div 16) # (b mod 16 * 16 + c div 4) # (c mod 4 * 64 + d) # ns)
           | _ \<Rightarrow> None))
   | _ \<Rightarrow> None)"
| "b64_ungroup _ = None"

definition b64_decode :: "string \<Rightarrow> bytes option" where
  "b64_decode s = map_option (map char_of) (b64_ungroup (filter (\<lambda>c. c \<noteq> CHR 0x0A \<and> c \<noteq> CHR 0x0D) s))"

lemma b64_table: "\<forall>n\<in>set [0..<64]. b64_value (b64_char n) = Some n \<and> b64_char n \<noteq> pad \<and>
    b64_char n \<noteq> CHR 0x0A \<and> b64_char n \<noteq> CHR 0x0D"
  by code_simp

lemma b64_char_value: "n < 64 \<Longrightarrow> b64_value (b64_char n) = Some n"
  and b64_char_plain: "n < 64 \<Longrightarrow> b64_char n \<noteq> pad" "n < 64 \<Longrightarrow> b64_char n \<noteq> CHR 0x0A" "n < 64 \<Longrightarrow> b64_char n \<noteq> CHR 0x0D"
  using b64_table by simp_all

text \<open>Three bytes are four groups of six bits.\<close>

lemma b64_six:
  fixes a b c :: nat
  shows "a < 256 \<Longrightarrow> a div 4 < 64" "b < 256 \<Longrightarrow> a mod 4 * 16 + b div 16 < 64"
    "c < 256 \<Longrightarrow> b mod 16 * 4 + c div 64 < 64" "c mod 64 < 64" "a mod 4 * 16 < 64" "b mod 16 * 4 < 64"
  using mod_less_divisor [of 4 a] mod_less_divisor [of 16 b] less_mult_imp_div_less [of a 64 4]
    less_mult_imp_div_less [of b 16 16] less_mult_imp_div_less [of c 4 64]
  by simp_all

lemma b64_join:
  fixes a b c :: nat
  shows "b < 256 \<Longrightarrow> a div 4 * 4 + (a mod 4 * 16 + b div 16) div 16 = a"
    "c < 256 \<Longrightarrow> (a mod 4 * 16 + b div 16) mod 16 * 16 + (b mod 16 * 4 + c div 64) div 4 = b div 16 mod 16 * 16 + b mod 16"
    "(b mod 16 * 4 + c div 64) mod 4 * 64 + c mod 64 = c div 64 mod 4 * 64 + c mod 64"
    "(a mod 4 * 16 + b div 16) mod 16 * 16 + b mod 16 * 4 div 4 = b div 16 mod 16 * 16 + b mod 16"
  using less_mult_imp_div_less [of b 16 16] less_mult_imp_div_less [of c 4 64] by simp_all

lemma b64_byte:
  fixes b c :: nat
  shows "b < 256 \<Longrightarrow> b div 16 mod 16 * 16 + b mod 16 = b" "c < 256 \<Longrightarrow> c div 64 mod 4 * 64 + c mod 64 = c"
  using less_mult_imp_div_less [of b 16 16] less_mult_imp_div_less [of c 4 64] by simp_all

lemmas b64_bits = b64_char_value b64_char_plain b64_six b64_join b64_byte

lemma b64_ungroup_groups: "\<forall>n\<in>set ns. n < 256 \<Longrightarrow> b64_ungroup (b64_groups ns) = Some ns"
proof (induction ns rule: b64_groups.induct)
  case 1
  then show ?case by simp
next
  case (2 a)
  then show ?case by (simp add: b64_bits)
next
  case (3 a b)
  then have "a < 256" "b < 256" by auto
  then show ?case by (simp add: b64_bits)
next
  case (4 a b c ns)
  then have "a < 256" "b < 256" "c < 256" "b64_ungroup (b64_groups ns) = Some ns" by auto
  then show ?case by (simp add: b64_bits)
qed

lemma b64_groups_no_break: "\<forall>n\<in>set ns. n < 256 \<Longrightarrow> filter (\<lambda>c. c \<noteq> CHR 0x0A \<and> c \<noteq> CHR 0x0D) (b64_groups ns) = b64_groups ns"
  by (induction ns rule: b64_groups.induct) (auto simp: b64_char_plain b64_six pad_def)

lemma b64_decode_encode: "b64_decode (b64_encode b) = Some b"
proof -
  have "\<forall>n\<in>set (map of_char b). n < (256 :: nat)" by auto
  from b64_ungroup_groups [OF this] b64_groups_no_break [OF this] show ?thesis
    by (simp add: b64_decode_def b64_encode_def comp_def)
qed

lemma length_hexEncode: "length (hexEncode b) = 2 * length b"
  by (induction b) (simp_all add: hexEncode_def Let_def)

end
