(* ===== verification/Scripting.thy ===== *)
theory Scripting
  imports Optimizer Authz Base64
begin

text \<open>
  \<open>javascript.go\<close>, \<open>opts.go\<close> and \<open>RunScript\<close> of \<open>db.go\<close>: the global variables that scripts see,
  the helper functions among them and the options of a database. Helpers that are functions of
  a library are named by the library; those the program writes itself are definitions, over
  the parameters of \<open>script_lib\<close>: the functions of \<open>cast\<close> and \<open>funk\<close>, the digests and the JSON coder
  of the standard library, and the network behind \<open>net/http\<close>. \<open>vm.Set\<close> does not fail on a new name.
\<close>

subsection \<open>Names\<close>

datatype js_global = GlobalDB | GlobalCtx | GlobalMeta | GlobalTx | GlobalSchema | GlobalQuery | GlobalFilter | GlobalDoc

fun JavascriptGlobal :: "js_global \<Rightarrow> string" where
  "JavascriptGlobal GlobalDB = ''db''"
| "JavascriptGlobal GlobalCtx = ''ctx''"
| "JavascriptGlobal GlobalMeta = ''meta''"
| "JavascriptGlobal GlobalTx = ''tx''"
| "JavascriptGlobal GlobalSchema = ''schema''"
| "JavascriptGlobal GlobalQuery = ''query''"
| "JavascriptGlobal GlobalFilter = ''filter''"
| "JavascriptGlobal GlobalDoc = ''doc''"

datatype own = OwnKsuid | OwnUuid | OwnContains | OwnLen | OwnAsDoc | OwnSha1 | OwnSha256 | OwnSha512 | OwnMd5
  | OwnBase64Encode | OwnBase64Decode | OwnJsonEncode | OwnJsonDecode | OwnFetch

datatype builtin = Lib string | Own own | NewDocumentFromB | NewDocumentB

definition JavascriptBuiltIns :: "builtin kvs" where
  "JavascriptBuiltIns = [
    (''newDocumentFrom'', NewDocumentFromB), (''newDocument'', NewDocumentB), (''ksuid'', Own OwnKsuid),
    (''uuid'', Own OwnUuid), (''now'', Lib ''time.Now''), (''chunk'', Lib ''funk.Chunk''),
    (''map'', Lib ''funk.Map''), (''filter'', Lib ''funk.Filter''), (''find'', Lib ''funk.Find''),
    (''contains'', Own OwnContains), (''equal'', Lib ''funk.Equal''), (''deepEqual'', Lib ''reflect.DeepEqual''),
    (''keys'', Lib ''funk.Keys''), (''values'', Lib ''funk.Values''), (''flatten'', Lib ''funk.Flatten''),
    (''uniq'', Lib ''funk.Uniq''), (''drop'', Lib ''funk.Drop''), (''last'', Lib ''funk.Last''),
    (''empty'', Lib ''funk.IsEmpty''), (''notEmpty'', Lib ''funk.NotEmpty''),
    (''difference'', Lib ''funk.Difference''), (''isZero'', Lib ''funk.IsZero''), (''sum'', Lib ''funk.Sum''),
    (''set'', Lib ''funk.Set''), (''getOr'', Lib ''funk.GetOrElse''), (''prune'', Lib ''funk.Prune''),
    (''len'', Own OwnLen), (''toSlice'', Lib ''cast.ToSlice''), (''toMap'', Lib ''cast.ToStringMap''),
    (''toStr'', Lib ''cast.ToString''), (''toInt'', Lib ''cast.ToInt''), (''toFloat'', Lib ''cast.ToFloat64''),
    (''toBool'', Lib ''cast.ToBool''), (''toTime'', Lib ''cast.ToTime''), (''toDuration'', Lib ''cast.ToDuration''),
    (''asDoc'', Own OwnAsDoc), (''indexOf'', Lib ''funk.IndexOf''), (''join'', Lib ''strings.Join''),
    (''split'', Lib ''strings.Split''), (''replace'', Lib ''strings.ReplaceAll''),
    (''lower'', Lib ''strings.ToLower''), (''upper'', Lib ''strings.ToUpper''),
    (''trim'', Lib ''strings.TrimSpace''), (''trimLeft'', Lib ''strings.TrimLeft''),
    (''trimRight'', Lib ''strings.TrimRight''), (''trimPrefix'', Lib ''strings.TrimPrefix''),
    (''trimSuffix'', Lib ''strings.TrimSuffix''), (''startsWith'', Lib ''strings.HasPrefix''),
    (''endsWith'', Lib ''strings.HasSuffix''), (''camelCase'', Lib ''xstrings.ToCamelCase''),
    (''snakeCase'', Lib ''xstrings.ToSnakeCase''), (''kebabCase'', Lib ''xstrings.ToKebabCase''),
    (''quote'', Lib ''strconv.Quote''), (''unquote'', Lib ''strconv.Unquote''), (''parseTime'', Lib ''time.Parse''),
    (''since'', Lib ''time.Since''), (''until'', Lib ''time.Until''), (''after'', Lib ''time.After''),
    (''unixMicro'', Lib ''time.UnixMicro''), (''unixMilli'', Lib ''time.UnixMilli''), (''unix'', Lib ''time.Unix''),
    (''date'', Lib ''time.Date''), (''sha1'', Own OwnSha1), (''sha256'', Own OwnSha256), (''sha512'', Own OwnSha512),
    (''md5'', Own OwnMd5), (''base64Encode'', Own OwnBase64Encode), (''base64Decode'', Own OwnBase64Decode),
    (''jsonEncode'', Own OwnJsonEncode), (''jsonDecode'', Own OwnJsonDecode), (''fetch'', Own OwnFetch)]"

subsection \<open>The helper functions of the program\<close>

record ('r, 'q, 'p) script_lib =
  slToSlice :: "any \<Rightarrow> any list"
  slContains :: "any \<Rightarrow> any \<Rightarrow> bool res"
  slSha1 :: "bytes \<Rightarrow> bytes"
  slSha256 :: "bytes \<Rightarrow> bytes"
  slSha512 :: "bytes \<Rightarrow> bytes"
  slMd5 :: "bytes \<Rightarrow> bytes"
  slMarshal :: "any \<Rightarrow> gerr + string"
  slUnmarshal :: "string \<Rightarrow> gerr + any"
  slMarshalDoc :: "any \<Rightarrow> gerr + 'r"
  slUuid :: "nat \<Rightarrow> string"
  slKsuid :: "nat \<Rightarrow> string"
  slNewRequest :: "string \<Rightarrow> string \<Rightarrow> gerr + 'q"
  slSetHeader :: "string \<Rightarrow> string \<Rightarrow> 'q \<Rightarrow> 'q"
  slURLQuery :: "'q \<Rightarrow> string list kvs"
  slSetRawQuery :: "string list kvs \<Rightarrow> 'q \<Rightarrow> 'q"
  slSetBody :: "string \<Rightarrow> 'q \<Rightarrow> 'q"
  slDo :: "'q \<Rightarrow> gerr + 'p"
  slReadAll :: "'p \<Rightarrow> gerr + string"
  slStatusCode :: "'p \<Rightarrow> int"
  slHeader :: "'p \<Rightarrow> any"

definition js_contains :: "('r, 'z) json_lib_scheme \<Rightarrow> ('r, 'q, 'p) script_lib \<Rightarrow> any \<Rightarrow> any \<Rightarrow> bool res" where
  "js_contains L S v e = (case v of
     ANil \<Rightarrow> Inr False
   | AStr s \<Rightarrow> Inr (ContainsStr s (ToString L e))
   | v \<Rightarrow> slContains S v e)"

definition js_len :: "('r, 'q, 'p) script_lib \<Rightarrow> any \<Rightarrow> nat" where
  "js_len S v = length (slToSlice S v)"

text \<open>The error is dropped: what is not an object becomes the nil document.\<close>

definition js_asDoc :: "('r, 'z) json_lib_scheme \<Rightarrow> ('r, 'q, 'p) script_lib \<Rightarrow> any \<Rightarrow> 'r option" where
  "js_asDoc L S v = (case slMarshalDoc S v of
     Inl e \<Rightarrow> None
   | Inr bits \<Rightarrow> (case NewDocumentFromBytes L bits of Inr d \<Rightarrow> Some d | Inl e \<Rightarrow> None))"

definition js_digest :: "('r, 'z) json_lib_scheme \<Rightarrow> (bytes \<Rightarrow> bytes) \<Rightarrow> any \<Rightarrow> string" where
  "js_digest L h v = hexEncode (h (ToString L v))"

definition js_base64Encode :: "('r, 'z) json_lib_scheme \<Rightarrow> any \<Rightarrow> string" where
  "js_base64Encode L v = b64_encode (ToString L v)"

text \<open>The message leaves out the position of the offending byte.\<close>

definition js_base64Decode :: "('r, 'z) json_lib_scheme \<Rightarrow> any \<Rightarrow> string res" where
  "js_base64Decode L v = (case b64_decode (ToString L v) of
     Some b \<Rightarrow> Inr b | None \<Rightarrow> Inl (Fail (Plain ''illegal base64 data'')))"

definition quoted :: "string \<Rightarrow> string" where
  "quoted s = [CHR 0x27] @ s @ [CHR 0x27]"

definition js_fetch :: "('r, 'z) json_lib_scheme \<Rightarrow> ('r, 'q, 'p) script_lib \<Rightarrow> any kvs \<Rightarrow> any kvs res" where
  "js_fetch L S request =
     (let field = (\<lambda>k. case map_of request k of Some v \<Rightarrow> v | None \<Rightarrow> ANil);
          httpMethod = ToString L (field ''method''); url = ToString L (field ''url'')
      in if httpMethod = [] then Inl (Fail (Plain (''missing '' @ quoted ''method'')))
      else if url = [] then Inl (Fail (Plain (''missing '' @ quoted ''url'')))
      else rbind (lift_err (slNewRequest S httpMethod url)) (\<lambda>req.
        let req = (case map_of request ''headers'' of
                Some headers \<Rightarrow> fold (\<lambda>(k, v). slSetHeader S k (ToString L v)) (ToStringMap L headers) req
              | None \<Rightarrow> req);
            req = (case map_of request ''query'' of
                Some params \<Rightarrow> slSetRawQuery S (fold (\<lambda>(k, v). AList.update k [ToString L v]) (ToStringMap L params)
                  (slURLQuery S req)) req
              | None \<Rightarrow> req);
            req = (case map_of request ''body'' of Some body \<Rightarrow> slSetBody S (ToString L body) req | None \<Rightarrow> req)
        in rbind (lift_err (slDo S req)) (\<lambda>resp. rbind (lift_err (slReadAll S resp)) (\<lambda>b.
             Inr [(''status'', AInt (slStatusCode S resp)), (''headers'', slHeader S resp), (''body'', AStr b)]))))"

text \<open>A call of a helper of the program with one or two arguments; \<open>tick\<close> counts the draws of ids.\<close>

datatype 'r jsret = RVal any | RDoc "'r option"

definition call_own ::
  "('r, 'z) json_lib_scheme \<Rightarrow> ('r, 'q, 'p) script_lib \<Rightarrow> nat \<Rightarrow> own \<Rightarrow> any \<Rightarrow> any \<Rightarrow> 'r jsret res" where
  "call_own L S tick f v e = (case f of
     OwnKsuid \<Rightarrow> Inr (RVal (AStr (slKsuid S tick)))
   | OwnUuid \<Rightarrow> Inr (RVal (AStr (slUuid S tick)))
   | OwnContains \<Rightarrow> rbind (js_contains L S v e) (\<lambda>b. Inr (RVal (ABool b)))
   | OwnLen \<Rightarrow> Inr (RVal (AInt (int (js_len S v))))
   | OwnAsDoc \<Rightarrow> Inr (RDoc (js_asDoc L S v))
   | OwnSha1 \<Rightarrow> Inr (RVal (AStr (js_digest L (slSha1 S) v)))
   | OwnSha256 \<Rightarrow> Inr (RVal (AStr (js_digest L (slSha256 S) v)))
   | OwnSha512 \<Rightarrow> Inr (RVal (AStr (js_digest L (slSha512 S) v)))
   | OwnMd5 \<Rightarrow> Inr (RVal (AStr (js_digest L (slMd5 S) v)))
   | OwnBase64Encode \<Rightarrow> Inr (RVal (AStr (js_base64Encode L v)))
   | OwnBase64Decode \<Rightarrow> rbind (js_base64Decode L v) (\<lambda>s. Inr (RVal (AStr s)))
   | OwnJsonEncode \<Rightarrow> rbind (lift_err (slMarshal S v)) (\<lambda>s. Inr (RVal (AStr s)))
   | OwnJsonDecode \<Rightarrow> rbind (lift_err (slUnmarshal S (ToString L v))) (\<lambda>x. Inr (RVal x))
   | OwnFetch \<Rightarrow> rbind (js_fetch L S (ToStringMap L v)) (\<lambda>m. Inr (RVal (AMap m))))"

subsection \<open>The machine\<close>

datatype 'r jsval = JsDatabase | JsCtx "'r ctx" | JsMeta 'r | JsRawTx | JsBuiltin builtin | JsAny any

definition vm_set :: "string \<Rightarrow> 'a \<Rightarrow> 'a kvs \<Rightarrow> 'a kvs" where
  "vm_set = AList.update"

definition getJavascriptVM :: "('r, 'z) json_lib_scheme \<Rightarrow> 'r ctx \<Rightarrow> 'r jsval kvs \<Rightarrow> 'r jsval kvs" where
  "getJavascriptVM L cx overrides =
     (let vm = vm_set (JavascriptGlobal GlobalDB) JsDatabase [];
          vm = vm_set (JavascriptGlobal GlobalCtx) (JsCtx cx) vm;
          vm = vm_set (JavascriptGlobal GlobalMeta) (JsMeta (ExtractMetadata L cx)) vm;
          vm = fold (\<lambda>(k, v). vm_set k (JsBuiltin v)) JavascriptBuiltIns vm
      in fold (\<lambda>(k, v). vm_set k v) overrides vm)"

text \<open>The machine of a transaction knows the transaction of the key-value store as \<open>tx\<close>.\<close>

definition newtx_vm :: "'r jsval kvs \<Rightarrow> 'r jsval kvs" where
  "newtx_vm vm = vm_set (JavascriptGlobal GlobalTx) JsRawTx vm"

definition RunScript ::
  "('r, 'z) json_lib_scheme \<Rightarrow> ('r jsval kvs \<Rightarrow> string \<Rightarrow> gerr + any) \<Rightarrow> 'r jsval kvs \<Rightarrow> string \<Rightarrow> 'r ctx \<Rightarrow> string \<Rightarrow> any kvs \<Rightarrow> any res" where
  "RunScript L run overrides globalScripts cx script params =
     lift_err (run (vm_set ''params'' (JsAny (AMap params)) (getJavascriptVM L cx overrides)) (globalScripts @ script))"

subsection \<open>Options\<close>

record 'r db_options =
  doOptimizer :: "'r schema \<Rightarrow> where_c list \<Rightarrow> explain res"
  doOverrides :: "'r jsval kvs"
  doScripts :: string

definition WithOptimizer :: "('r schema \<Rightarrow> where_c list \<Rightarrow> explain res) \<Rightarrow> 'r db_options \<Rightarrow> 'r db_options" where
  "WithOptimizer o' d = d\<lparr>doOptimizer := o'\<rparr>"

definition WithJavascriptOverrides :: "'r jsval kvs \<Rightarrow> 'r db_options \<Rightarrow> 'r db_options" where
  "WithJavascriptOverrides overrides d = d\<lparr>doOverrides := overrides\<rparr>"

definition WithGlobalJavascriptFunctions :: "string list \<Rightarrow> 'r db_options \<Rightarrow> 'r db_options" where
  "WithGlobalJavascriptFunctions scripts d = d\<lparr>doScripts := JoinStr [CHR 0x0A] scripts @ [CHR 0x0A]\<rparr>"

definition open_options :: "('r db_options \<Rightarrow> 'r db_options) list \<Rightarrow> 'r db_options" where
  "open_options opts = fold (\<lambda>f d. f d) opts \<lparr>doOptimizer = Optimize, doOverrides = [], doScripts = []\<rparr>"

subsection \<open>What a script sees\<close>

lemma builtins_distinct: "distinct (keys JavascriptBuiltIns)"
  by code_simp

lemma fold_vm_set: "distinct (keys kvs) \<Longrightarrow> map_of (fold (\<lambda>(k, v). vm_set k (h v)) kvs vm) k =
    (case map_of kvs k of Some v \<Rightarrow> Some (h v) | None \<Rightarrow> map_of vm k)"
proof (induction kvs arbitrary: vm)
  case (Cons x kvs)
  obtain i v where x: "x = (i, v)" by fastforce
  show ?case
  proof (cases "k = i")
    case True
    then have "map_of kvs k = None" using Cons.prems by (simp add: x keys_def map_of_eq_None_iff)
    with True Cons show ?thesis by (simp add: x keys_def vm_set_def update_conv')
  next
    case False
    then have "map_of (AList.update i (h v) vm) k = map_of vm k" by (simp add: update_conv')
    with False Cons show ?thesis by (simp add: x keys_def vm_set_def split: option.split)
  qed
qed simp

text \<open>
  A global of a script is the override of its name if there is one, else the helper of its
  name, else one of \<open>db\<close>, \<open>ctx\<close> and \<open>meta\<close>; there are no others.
\<close>

lemma vm_globals:
  assumes "distinct (keys overrides)"
  shows "map_of (getJavascriptVM L cx overrides) k = (case map_of overrides k of
     Some v \<Rightarrow> Some v
   | None \<Rightarrow> (case map_of JavascriptBuiltIns k of
       Some f \<Rightarrow> Some (JsBuiltin f)
     | None \<Rightarrow> map_of [(''db'', JsDatabase), (''ctx'', JsCtx cx), (''meta'', JsMeta (ExtractMetadata L cx))] k))"
proof -
  let ?vm = "vm_set ''meta'' (JsMeta (ExtractMetadata L cx)) (vm_set ''ctx'' (JsCtx cx) (vm_set ''db'' JsDatabase []))"
  have "map_of ?vm k = map_of [(''db'', JsDatabase), (''ctx'', JsCtx cx), (''meta'', JsMeta (ExtractMetadata L cx))] k"
    by (simp add: vm_set_def update_conv')
  then show ?thesis
    using fold_vm_set [OF assms, of "\<lambda>v. v"] fold_vm_set [OF builtins_distinct, of JsBuiltin ?vm k]
    by (simp add: getJavascriptVM_def Let_def split: option.split)
qed

text \<open>
  No global hides a helper until a change stream rule runs: the array of where clauses it is
  given has the name of the helper \<open>filter\<close>.
\<close>

lemma globals_and_builtins:
  "map_of JavascriptBuiltIns (JavascriptGlobal g) \<noteq> None \<longleftrightarrow> g = GlobalFilter"
  by (cases g; hypsubst; code_simp)

text \<open>
  Decoding undoes encoding, for every text of every length, also when the decoder is given
  the result as a string value again.
\<close>

lemma base64_roundtrip:
  assumes "cast_laws L"
  shows "js_base64Decode L (AStr (js_base64Encode L v)) = Inr (ToString L v)"
  using assms by (simp add: js_base64Decode_def js_base64Encode_def b64_decode_encode)

lemma base64_roundtrip_witness:
  "js_base64Encode flat_json (AStr ''Hello'') = ''SGVsbG8='' \<and> js_base64Decode flat_json (AStr ''SGVsbG8='') = Inr ''Hello''"
proof -
  have "js_base64Encode flat_json (AStr ''Hello'') = ''SGVsbG8=''" by code_simp
  with base64_roundtrip [OF flat_json_cast, of "AStr ''Hello''"] show ?thesis by (simp add: flat_json_cast)
qed

text \<open>A request without a method or an address fails before anything is sent.\<close>

lemma fetch_unaddressed:
  assumes "cast_laws L" "map_of request ''method'' = Some (AStr []) \<or> map_of request ''url'' = Some (AStr [])"
  shows "\<exists>e. js_fetch L S request = Inl (Fail (Plain e))"
  using assms by (auto simp: js_fetch_def Let_def)

text \<open>The last option of a kind wins.\<close>

lemma options_last:
  "doScripts (open_options (opts @ [WithGlobalJavascriptFunctions scripts])) = JoinStr [CHR 0x0A] scripts @ [CHR 0x0A]"
  "doOverrides (open_options (opts @ [WithJavascriptOverrides overrides])) = overrides"
  "doOptimizer (open_options (opts @ [WithOptimizer optimizer])) = optimizer"
  by (simp_all add: open_options_def WithGlobalJavascriptFunctions_def WithJavascriptOverrides_def WithOptimizer_def)

end
