(* ===== verification/VmPool.thy ===== *)
theory VmPool
  imports Main
begin

text \<open>
  The pool of JavaScript machines of an open database (\<open>Open\<close>, \<open>NewTx\<close>, \<open>Close\<close> of \<open>db.go\<close>): a
  channel with room for twenty, a goroutine that fills it until the context ends, callers that
  take machines out, and \<open>Close\<close>, which ends the context, takes one machine out, so that the
  goroutine cannot hang on a full channel, and waits for the goroutines. A step is one channel
  operation, one test of the context or the construction of one machine, by whoever is able to
  move. The refresh goroutine ends at its next look at the context.
\<close>

datatype filler = Looking | Building | Sending | FillerDone

datatype closer = NotClosing | Draining | Waiting | Closed

record pool_sys =
  psBuffer :: nat
  psFiller :: filler
  psRefresh :: bool
  psCancelled :: bool
  psClose :: closer

definition pool_capacity :: nat where
  "pool_capacity = 20"

definition pool_start :: pool_sys where
  "pool_start = \<lparr>psBuffer = 0, psFiller = Looking, psRefresh = True, psCancelled = False, psClose = NotClosing\<rparr>"

inductive pool_step :: "pool_sys \<Rightarrow> pool_sys \<Rightarrow> bool" where
  look_on: "psFiller s = Looking \<Longrightarrow> \<not> psCancelled s \<Longrightarrow> pool_step s (s\<lparr>psFiller := Building\<rparr>)"
| look_end: "psFiller s = Looking \<Longrightarrow> psCancelled s \<Longrightarrow> pool_step s (s\<lparr>psFiller := FillerDone\<rparr>)"
| build: "psFiller s = Building \<Longrightarrow> pool_step s (s\<lparr>psFiller := Sending\<rparr>)"
| build_fails: "psFiller s = Building \<Longrightarrow> pool_step s (s\<lparr>psFiller := Looking\<rparr>)"
| send: "psFiller s = Sending \<Longrightarrow> psBuffer s < pool_capacity \<Longrightarrow>
    pool_step s (s\<lparr>psFiller := Looking, psBuffer := Suc (psBuffer s)\<rparr>)"
| take_vm: "psBuffer s > 0 \<Longrightarrow> pool_step s (s\<lparr>psBuffer := psBuffer s - 1\<rparr>)"
| refresh_end: "psRefresh s \<Longrightarrow> psCancelled s \<Longrightarrow> pool_step s (s\<lparr>psRefresh := False\<rparr>)"
| cancel: "psClose s = NotClosing \<Longrightarrow> pool_step s (s\<lparr>psCancelled := True, psClose := Draining\<rparr>)"
| drain: "psClose s = Draining \<Longrightarrow> psBuffer s > 0 \<Longrightarrow>
    pool_step s (s\<lparr>psBuffer := psBuffer s - 1, psClose := Waiting\<rparr>)"
| finish: "psClose s = Waiting \<Longrightarrow> psFiller s = FillerDone \<Longrightarrow> \<not> psRefresh s \<Longrightarrow> pool_step s (s\<lparr>psClose := Closed\<rparr>)"

inductive_cases pool_stepE: "pool_step s t"

abbreviation pool_run :: "pool_sys \<Rightarrow> pool_sys \<Rightarrow> bool" where
  "pool_run \<equiv> pool_step\<^sup>*\<^sup>*"

text \<open>
  The channel never holds more than its capacity; once \<open>Close\<close> has its machine, the goroutine
  sends at most one more, for which there is room.
\<close>

definition pool_inv :: "pool_sys \<Rightarrow> bool" where
  "pool_inv s \<longleftrightarrow> psBuffer s \<le> pool_capacity \<and> (psCancelled s \<longleftrightarrow> psClose s \<noteq> NotClosing) \<and>
     (psClose s = Waiting \<longrightarrow> psFiller s \<in> {Building, Sending} \<longrightarrow> psBuffer s < pool_capacity)"

lemma pool_inv_step: "pool_step s t \<Longrightarrow> pool_inv s \<Longrightarrow> pool_inv t"
  by (cases rule: pool_step.cases) (auto simp: pool_inv_def)

lemma pool_inv_run: "pool_run s t \<Longrightarrow> pool_inv s \<Longrightarrow> pool_inv t"
  by (induction rule: rtranclp_induct) (auto intro: pool_inv_step)

lemma pool_inv_start: "pool_inv pool_start"
  by (simp add: pool_inv_def pool_start_def)

subsection \<open>Close can return once it has its machine\<close>

definition can_close :: "pool_sys \<Rightarrow> bool" where
  "can_close s \<longleftrightarrow> (\<exists>t. pool_run s t \<and> psClose t = Closed)"

lemma can_close_step: "pool_step s t \<Longrightarrow> can_close t \<Longrightarrow> can_close s"
  unfolding can_close_def by (meson converse_rtranclp_into_rtranclp)

lemma waiting_done: "psClose s = Waiting \<Longrightarrow> psFiller s = FillerDone \<Longrightarrow> psCancelled s \<Longrightarrow> can_close s"
proof (cases "psRefresh s")
  case False
  assume "psClose s = Waiting" "psFiller s = FillerDone"
  with False have "pool_step s (s\<lparr>psClose := Closed\<rparr>)" by (rule_tac finish)
  then show ?thesis by (rule can_close_step) (auto simp: can_close_def)
next
  case True
  assume w: "psClose s = Waiting" "psFiller s = FillerDone" "psCancelled s"
  have "pool_step (s\<lparr>psRefresh := False\<rparr>) (s\<lparr>psRefresh := False, psClose := Closed\<rparr>)"
    using finish [of "s\<lparr>psRefresh := False\<rparr>"] w by simp
  then have "can_close (s\<lparr>psRefresh := False\<rparr>)" by (rule can_close_step) (auto simp: can_close_def)
  with refresh_end [OF True w(3)] show ?thesis by (rule can_close_step)
qed

lemma waiting_looking: "psClose s = Waiting \<Longrightarrow> psFiller s = Looking \<Longrightarrow> psCancelled s \<Longrightarrow> can_close s"
  by (rule can_close_step [OF look_end]) (simp_all add: waiting_done)

lemma waiting_closes:
  assumes "psClose s = Waiting" "pool_inv s"
  shows "can_close s"
proof (cases "psFiller s")
  case Looking
  with assms show ?thesis by (simp add: pool_inv_def waiting_looking)
next
  case Building
  have "pool_step s (s\<lparr>psFiller := Looking\<rparr>)" using Building by (rule build_fails)
  then show ?thesis by (rule can_close_step) (use assms in \<open>simp add: pool_inv_def waiting_looking\<close>)
next
  case Sending
  have "pool_step s (s\<lparr>psFiller := Looking, psBuffer := Suc (psBuffer s)\<rparr>)"
    using Sending assms by (intro send) (simp_all add: pool_inv_def)
  then show ?thesis by (rule can_close_step) (use assms in \<open>simp add: pool_inv_def waiting_looking\<close>)
next
  case FillerDone
  with assms show ?thesis by (simp add: pool_inv_def waiting_done)
qed

lemma full_closes:
  assumes "psClose s = Draining" "psBuffer s > 0" "pool_inv s"
  shows "can_close s"
proof (rule can_close_step [OF drain [OF assms(1,2)]])
  show "can_close (s\<lparr>psBuffer := psBuffer s - 1, psClose := Waiting\<rparr>)"
    using pool_inv_step [OF drain [OF assms(1,2)] assms(3)] by (intro waiting_closes) simp_all
qed

lemma sending_closes:
  assumes "psClose s = Draining" "psFiller s = Sending" "pool_inv s"
  shows "can_close s"
proof (cases "psBuffer s > 0")
  case True
  with assms show ?thesis by (intro full_closes)
next
  case False
  then have room: "psBuffer s < pool_capacity" by (simp add: pool_capacity_def)
  note go = send [OF assms(2) room]
  show ?thesis
    by (rule can_close_step [OF go], rule full_closes) (use assms(1) pool_inv_step [OF go assms(3)] in simp_all)
qed

text \<open>An empty pool that nothing fills any more stays empty, and \<open>Close\<close> stays where it is.\<close>

definition starved :: "pool_sys \<Rightarrow> bool" where
  "starved s \<longleftrightarrow> psClose s = Draining \<and> psCancelled s \<and> psBuffer s = 0 \<and> psFiller s \<in> {Looking, FillerDone}"

lemma starved_step: "pool_step s t \<Longrightarrow> starved s \<Longrightarrow> starved t"
  by (cases rule: pool_step.cases) (auto simp: starved_def)

lemma starved_run: "pool_run s t \<Longrightarrow> starved s \<Longrightarrow> starved t"
  by (induction rule: rtranclp_induct) (auto intro: starved_step)

text \<open>
  C27: a call of \<open>Close\<close> that waits for a machine can return exactly if one is in the pool or being
  made. When the goroutine sees the end of the context first and the pool is empty, as it is
  right after \<open>Open\<close> or while as many transactions begin as machines are made, \<open>Close\<close> never returns.
\<close>

theorem close_returns_iff:
  assumes "pool_run pool_start s" and "psClose s = Draining"
  shows "(\<exists>t. pool_run s t \<and> psClose t = Closed) \<longleftrightarrow> psBuffer s > 0 \<or> psFiller s \<in> {Building, Sending}"
proof
  assume "\<exists>t. pool_run s t \<and> psClose t = Closed"
  then obtain t where t: "pool_run s t" "psClose t = Closed" by blast
  have "\<not> starved s" using starved_run [OF t(1)] t(2) by (auto simp: starved_def)
  moreover have "psCancelled s" using pool_inv_run [OF assms(1) pool_inv_start] assms(2) by (simp add: pool_inv_def)
  ultimately show "psBuffer s > 0 \<or> psFiller s \<in> {Building, Sending}" using assms(2) by (cases "psFiller s") (auto simp: starved_def)
next
  have inv: "pool_inv s" by (rule pool_inv_run [OF assms(1) pool_inv_start])
  assume "psBuffer s > 0 \<or> psFiller s \<in> {Building, Sending}"
  then have "can_close s"
  proof (elim disjE insertE)
    assume b: "psFiller s = Building"
    show ?thesis
      by (rule can_close_step [OF build [OF b]], rule sending_closes) (use assms(2) pool_inv_step [OF build [OF b] inv] in simp_all)
  qed (use full_closes sending_closes assms(2) inv in auto)
  then show "\<exists>t. pool_run s t \<and> psClose t = Closed" by (simp add: can_close_def)
qed

text \<open>Closing a database at once: the goroutine has not made its first machine.\<close>

theorem close_returns_iff_witness:
  "pool_run pool_start (pool_start\<lparr>psCancelled := True, psClose := Draining\<rparr>) \<and>
   \<not> (\<exists>t. pool_run (pool_start\<lparr>psCancelled := True, psClose := Draining\<rparr>) t \<and> psClose t = Closed)"
proof -
  have "pool_step pool_start (pool_start\<lparr>psCancelled := True, psClose := Draining\<rparr>)"
    by (rule cancel) (simp add: pool_start_def)
  then have run: "pool_run pool_start (pool_start\<lparr>psCancelled := True, psClose := Draining\<rparr>)" by blast
  with close_returns_iff [OF run] show ?thesis by (simp add: pool_start_def)
qed

end
