(* ===== verification/Opening.thy ===== *)
theory Opening
  imports KvDb Values
begin

text \<open>
  Opening and closing the two providers, and what they register (\<open>open\<close>, \<open>Close\<close> and \<open>init\<close> of
  \<open>kv/badger/badger.go\<close> and \<open>kv/tikv/tikv.go\<close>). The badger library, the TiKV client and the redis
  client are parameters: what opening answers, and whether closing fails. A parameter of the
  configuration that is nil counts as missing.
\<close>

subsection \<open>Badger\<close>

record badger_options =
  bpDir :: string
  bpValueDir :: string
  bpInMemory :: bool
  bpErrorsOnly :: bool

record ('c, 'd) badger_client =
  bcDefaultOptions :: "string \<Rightarrow> badger_options"
  bcOpen :: "badger_options \<Rightarrow> gerr + 'c"
  bcSync :: "'c \<Rightarrow> gerr option"
  bcClose :: "'c \<Rightarrow> gerr option"
  bcDB :: "'c \<Rightarrow> 'd"

definition open_badger :: "('c, 'd) badger_client \<Rightarrow> string \<Rightarrow> 'd res" where
  "open_badger B storagePath =
     (let opts = bcDefaultOptions B storagePath;
          opts = (if storagePath = [] then opts\<lparr>bpInMemory := True, bpDir := [], bpValueDir := []\<rparr> else opts);
          opts = opts\<lparr>bpErrorsOnly := True\<rparr>
      in rbind (lift_err (bcOpen B opts)) (\<lambda>c. Inr (bcDB B c)))"

definition close_badger :: "('c, 'd) badger_client \<Rightarrow> 'c \<Rightarrow> gerr option" where
  "close_badger B c = (case bcSync B c of Some e \<Rightarrow> Some e | None \<Rightarrow> bcClose B c)"

definition param :: "any kvs \<Rightarrow> string \<Rightarrow> any" where
  "param params k = (case map_of params k of Some v \<Rightarrow> v | None \<Rightarrow> ANil)"

definition badger_init :: "'z cast_lib_scheme \<Rightarrow> ('c, 'd) badger_client \<Rightarrow> (any kvs, 'd) registry \<Rightarrow> (any kvs, 'd) registry" where
  "badger_init L B = Register ''badger'' (\<lambda>params. open_badger B (ToString L (param params ''storage_path'')))"

subsection \<open>TiKV\<close>

record redis_options =
  rdAddr :: string
  rdUsername :: string
  rdPassword :: string

record ('c, 'd) tikv_client =
  tcNewClient :: "string list \<Rightarrow> gerr + 'c"
  tcPing :: "redis_options \<Rightarrow> gerr option"
  tcDB :: "'c \<Rightarrow> redis_options \<Rightarrow> 'd"

definition open_tikv :: "'z cast_lib_scheme \<Rightarrow> ('c, 'd) tikv_client \<Rightarrow> any kvs \<Rightarrow> 'd res" where
  "open_tikv L T params =
     (let pdAddr = ToStringSlice L (param params ''pd_addr'')
      in if pdAddr = [] then Inl (Fail (Plain ''empty pd address''))
      else rbind (lift_err (tcNewClient T pdAddr)) (\<lambda>client.
        let addr = ToString L (param params ''redis_addr'');
            cache = \<lparr>rdAddr = addr, rdUsername = ToString L (param params ''redis_user''),
              rdPassword = ToString L (param params ''redis_password'')\<rparr>
        in (case tcPing T cache of
             Some e \<Rightarrow> Inl (Fail (Plain (''failed to ping redis instance('' @ addr @ ''): '' @ error_text e)))
           | None \<Rightarrow> Inr (tcDB T client cache))))"

definition single_quoted :: "string \<Rightarrow> string" where
  "single_quoted s = CHR 0x27 # s @ [CHR 0x27]"

definition tikv_init :: "'z cast_lib_scheme \<Rightarrow> ('c, 'd) tikv_client \<Rightarrow> (any kvs, 'd) registry \<Rightarrow> (any kvs, 'd) registry" where
  "tikv_init L T = Register ''tikv'' (\<lambda>params.
     if param params ''pd_addr'' = ANil
     then Inl (Fail (Plain (single_quoted ''pd_addr'' @ '' is a required paramater'')))
     else if param params ''redis_addr'' = ANil
     then Inl (Fail (Plain (single_quoted ''redis_addr'' @ '' is a required paramater'')))
     else open_tikv L T params)"

subsection \<open>What opening needs\<close>

text \<open>Without a path badger keeps its data in memory, whatever the defaults of the library are.\<close>

lemma badger_in_memory:
  assumes "cast_laws L" "param params ''storage_path'' = ANil"
  shows "registry_Open (badger_init L B openers) ''badger'' params = rbind (lift_err (bcOpen B
    ((bcDefaultOptions B [])\<lparr>bpInMemory := True, bpDir := [], bpValueDir := [], bpErrorsOnly := True\<rparr>))) (\<lambda>c. Inr (bcDB B c))"
  using assms by (simp add: badger_init_def registry_last open_badger_def Let_def)

text \<open>A TiKV database that opens has both addresses, and redis has answered.\<close>

lemma tikv_opened:
  assumes "registry_Open (tikv_init L T openers) ''tikv'' params = Inr d"
  shows "param params ''pd_addr'' \<noteq> ANil \<and> param params ''redis_addr'' \<noteq> ANil \<and>
    ToStringSlice L (param params ''pd_addr'') \<noteq> [] \<and>
    (\<exists>cache. tcPing T cache = None \<and> rdAddr cache = ToString L (param params ''redis_addr''))"
  using assms
  by (auto simp: tikv_init_def registry_last open_tikv_def Let_def rbind_eq_Inr split: if_splits option.splits)

text \<open>The order in which the two packages are loaded does not matter.\<close>

lemma providers_commute:
  "registry_Open (tikv_init L T (badger_init L B openers)) name params = registry_Open (badger_init L B (tikv_init L T openers)) name params"
  by (simp add: registry_Open_def badger_init_def tikv_init_def Register_def update_conv')

end
