(* ===== verification/Modifiers.thy ===== *)
theory Modifiers
  imports Loader Locker
begin

text \<open>
  The modifiers that \<open>document.go\<close> adds to the path syntax of gjson: functions from the JSON text of
  a value and an argument to JSON text. The case conversions of \<open>xstrings\<close>, the reader of the
  argument and \<open>cast.ToTime\<close> are parameters, a time being its nanoseconds and its date in its own
  zone. The functions of the standard library are written out for ASCII text: \<open>strings.ToUpper\<close>,
  \<open>ToLower\<close>, \<open>ReplaceAll\<close>, \<open>strconv.Unquote\<close> on a string in double quotes (the one form JSON has),
  \<open>strconv.Quote\<close> on text without quotes, backslashes and control characters, and \<open>Time.String\<close> at
  midnight UTC.
\<close>

subsection \<open>Text\<close>

definition shift_case :: "nat \<Rightarrow> nat \<Rightarrow> int \<Rightarrow> string \<Rightarrow> string" where
  "shift_case lo hi d s = map (\<lambda>c. let n = of_char c :: nat in
     if lo \<le> n \<and> n \<le> hi then char_of (nat (int n + d)) else c) s"

definition ToUpper :: "string \<Rightarrow> string" where
  "ToUpper = shift_case 97 122 (- 32)"

definition ToLower :: "string \<Rightarrow> string" where
  "ToLower = shift_case 65 90 32"

definition ReplaceEvery :: "string \<Rightarrow> string \<Rightarrow> string \<Rightarrow> string" where
  "ReplaceEvery s old new = (if old = [] then new @ concat (map (\<lambda>c. c # new) s) else ReplaceAll s old new)"

definition Quote :: "string \<Rightarrow> string" where
  "Quote s = CHR 0x22 # s @ [CHR 0x22]"

subsection \<open>Reading a quoted string\<close>

definition digit_value :: "char \<Rightarrow> nat option" where
  "digit_value c = (let n = of_char c in
     if 48 \<le> n \<and> n \<le> 57 then Some (n - 48)
     else if 97 \<le> n \<and> n \<le> 102 then Some (n - 87)
     else if 65 \<le> n \<and> n \<le> 70 then Some (n - 55) else None)"

fun digits :: "nat \<Rightarrow> nat \<Rightarrow> nat \<Rightarrow> string \<Rightarrow> (nat \<times> string) option" where
  "digits base 0 acc cs = Some (acc, cs)"
| "digits base (Suc k) acc [] = None"
| "digits base (Suc k) acc (c # cs) = (case digit_value c of
     None \<Rightarrow> None
   | Some v \<Rightarrow> if v < base then digits base k (acc * base + v) cs else None)"

definition utf8 :: "nat \<Rightarrow> string" where
  "utf8 n = map char_of (
     if n < 128 then [n]
     else if n < 2048 then [192 + n div 64, 128 + n mod 64]
     else if n < 65536 then [224 + n div 4096, 128 + n div 64 mod 64, 128 + n mod 64]
     else [240 + n div 262144, 128 + n div 4096 mod 64, 128 + n div 64 mod 64, 128 + n mod 64])"

definition rune :: "nat \<times> string \<Rightarrow> (string \<times> string) option" where
  "rune = (\<lambda>(n, rest). if n \<le> 0x10FFFF \<and> \<not> (0xD800 \<le> n \<and> n < 0xE000) then Some (utf8 n, rest) else None)"

definition byte :: "nat \<times> string \<Rightarrow> (string \<times> string) option" where
  "byte = (\<lambda>(n, rest). if n \<le> 255 then Some ([char_of n], rest) else None)"

definition escapes :: "(char \<times> char) list" where
  "escapes = [(CHR ''a'', CHR 0x07), (CHR ''b'', CHR 0x08), (CHR ''f'', CHR 0x0C), (CHR ''n'', CHR 0x0A),
     (CHR ''r'', CHR 0x0D), (CHR ''t'', CHR 0x09), (CHR ''v'', CHR 0x0B), (CHR 0x5C, CHR 0x5C), (CHR 0x22, CHR 0x22)]"

definition unquote_char :: "char \<Rightarrow> string \<Rightarrow> (string \<times> string) option" where
  "unquote_char c cs =
     (if c = CHR 0x0A then None
      else if c \<noteq> CHR 0x5C then Some ([c], cs)
      else case cs of [] \<Rightarrow> None | e # r \<Rightarrow>
        (case map_of escapes e of
           Some x \<Rightarrow> Some ([x], r)
         | None \<Rightarrow>
             if e = CHR ''x'' then Option.bind (digits 16 2 0 r) byte
             else if e = CHR ''u'' then Option.bind (digits 16 4 0 r) rune
             else if e = CHR ''U'' then Option.bind (digits 16 8 0 r) rune
             else Option.bind (digits 8 3 0 cs) byte))"

lemma digits_length: "digits base k acc cs = Some (n, r) \<Longrightarrow> length r + k = length cs"
  by (induction base k acc cs rule: digits.induct) (auto split: option.splits if_splits)

lemma unquote_char_length: "unquote_char c cs = Some (x, r) \<Longrightarrow> length r \<le> length cs"
  by (auto simp: unquote_char_def byte_def rune_def split: if_splits list.splits option.splits
      dest!: digits_length) (auto simp: bind_eq_Some_conv dest!: digits_length split: if_splits)

function unquote_body :: "string \<Rightarrow> string option" where
  "unquote_body s = (case s of [] \<Rightarrow> None | c # cs \<Rightarrow>
     if c = CHR 0x22 then (if cs = [] then Some [] else None)
     else case unquote_char c cs of None \<Rightarrow> None | Some (x, r) \<Rightarrow> map_option ((@) x) (unquote_body r))"
  by pat_completeness auto
termination
  by (relation "measure length") (auto dest: unquote_char_length)

declare unquote_body.simps [simp del]

text \<open>The error is dropped by every caller, and what is left then is the empty string.\<close>

definition Unquote :: "string \<Rightarrow> string" where
  "Unquote s = (case s of
     [] \<Rightarrow> []
   | c # cs \<Rightarrow> if c = CHR 0x22 then (case unquote_body cs of Some t \<Rightarrow> t | None \<Rightarrow> []) else [])"

subsection \<open>The modifiers\<close>

record gotime =
  gtNano :: int
  gtDate :: "int \<times> nat \<times> nat"

record mod_lib =
  mdSnake :: "string \<Rightarrow> string"
  mdCamel :: "string \<Rightarrow> string"
  mdKebab :: "string \<Rightarrow> string"
  mdField :: "string \<Rightarrow> string \<Rightarrow> string"
  mdTime :: "string \<Rightarrow> gotime"

definition padded :: "nat \<Rightarrow> nat \<Rightarrow> string" where
  "padded w n = replicate (w - length (show_nat n)) (CHR ''0'') @ show_nat n"

definition midnight :: "int \<Rightarrow> nat \<Rightarrow> nat \<Rightarrow> string" where
  "midnight yr month day = (if yr < 0 then ''-'' else []) @ padded 4 (nat \<bar>yr\<bar>) @ ''-'' @ padded 2 month @
     ''-'' @ padded 2 day @ '' 00:00:00 +0000 UTC''"

definition dateTrunc :: "mod_lib \<Rightarrow> string \<Rightarrow> string \<Rightarrow> string" where
  "dateTrunc M json arg =
     (let json = Unquote json
      in case gtDate (mdTime M json) of (yr, month, day) \<Rightarrow>
        if arg = ''month'' then Quote (midnight yr month 1)
        else if arg = ''day'' then Quote (midnight yr month day)
        else if arg = ''year'' then Quote (midnight yr 1 1)
        else json)"

definition unix_in :: "(int \<Rightarrow> int) \<Rightarrow> mod_lib \<Rightarrow> string \<Rightarrow> string \<Rightarrow> string" where
  "unix_in conv M json arg =
     (let json = Unquote json; t = mdTime M json
      in if gtNano t = zero_time then json else Quote (show_int (int64 (conv (gtNano t)))))"

definition modifiers :: "mod_lib \<Rightarrow> (string \<Rightarrow> string \<Rightarrow> string) kvs" where
  "modifiers M = [
    (''snakeCase'', \<lambda>json arg. mdSnake M json),
    (''camelCase'', \<lambda>json arg. mdCamel M json),
    (''kebabCase'', \<lambda>json arg. mdKebab M json),
    (''upper'', \<lambda>json arg. ToUpper json),
    (''lower'', \<lambda>json arg. ToLower json),
    (''replaceAll'', \<lambda>json arg. ReplaceEvery json (mdField M arg ''old'') (mdField M arg ''new'')),
    (''trim'', \<lambda>json arg. ReplaceEvery json '' '' []),
    (''dateTrunc'', dateTrunc M),
    (''unix'', unix_in (\<lambda>ns. ns div 1000000000) M),
    (''unixMilli'', unix_in (\<lambda>ns. ns div 1000000) M),
    (''unixNano'', unix_in (\<lambda>ns. ns) M)]"

text \<open>\<open>init\<close> hands the table to gjson, in the order the map is ranged over.\<close>

definition init_modifiers :: "(string \<Rightarrow> 'h \<Rightarrow> (string \<Rightarrow> string \<Rightarrow> string) \<Rightarrow> 'h) \<Rightarrow> mod_lib \<Rightarrow> 'h \<Rightarrow> 'h" where
  "init_modifiers AddModifier M h = fold (\<lambda>(k, v) h. AddModifier k h v) (modifiers M) h"

subsection \<open>What they do\<close>

definition plain_char :: "char \<Rightarrow> bool" where
  "plain_char c \<longleftrightarrow> c \<noteq> CHR 0x22 \<and> c \<noteq> CHR 0x5C \<and> c \<noteq> CHR 0x0A"

lemma unquote_plain: "list_all plain_char s \<Longrightarrow> unquote_body (s @ [CHR 0x22]) = Some s"
proof (induction s)
  case Nil
  then show ?case by (simp add: unquote_body.simps)
next
  case (Cons c s)
  then show ?case by (subst unquote_body.simps) (simp add: plain_char_def unquote_char_def)
qed

lemma Unquote_Quote: "list_all plain_char s \<Longrightarrow> Unquote (Quote s) = s"
  by (simp add: Unquote_def Quote_def unquote_plain)

lemma show_nat_plain: "list_all plain_char (show_nat n)"
proof (induction n rule: show_nat.induct)
  case (1 n)
  have "of_char (char_of (48 + n mod 10) :: char) = 48 + n mod 10"
    by (simp add: of_char_of)
  then have "plain_char (char_of (48 + n mod 10))"
    by (auto simp: plain_char_def dest!: arg_cong [of _ _ "of_char :: char \<Rightarrow> nat"])
  with 1 show ?case by (subst show_nat.simps) auto
qed

lemma midnight_plain: "list_all plain_char (midnight yr month day)"
  by (auto simp: midnight_def padded_def list_all_append show_nat_plain plain_char_def
      simp del: show_nat.simps) (simp_all add: list_all_iff plain_char_def)

text \<open>A truncated time is a JSON string that reads as the first moment of its period.\<close>

lemma dateTrunc_reads:
  assumes "gtDate (mdTime M (Unquote json)) = (yr, month, day)"
  shows "Unquote (dateTrunc M json ''month'') = midnight yr month 1"
    and "Unquote (dateTrunc M json ''day'') = midnight yr month day"
    and "Unquote (dateTrunc M json ''year'') = midnight yr 1 1"
  using assms by (simp_all add: dateTrunc_def Unquote_Quote midnight_plain)

text \<open>With any other argument the quotes are gone and the result is no JSON any more.\<close>

lemma dateTrunc_unknown: "arg \<notin> {''month'', ''day'', ''year''} \<Longrightarrow> dateTrunc M json arg = Unquote json"
  by (auto simp: dateTrunc_def Let_def split: prod.splits)

text \<open>\<open>trim\<close> takes out the blanks inside a text as well.\<close>

lemma trim_all: "ReplaceEvery s '' '' [] = filter (\<lambda>c. c \<noteq> CHR '' '') s"
proof (induction s)
  case Nil
  then show ?case by (simp add: ReplaceEvery_def ReplaceAll.simps)
next
  case (Cons c s)
  then show ?case by (simp add: ReplaceEvery_def ReplaceAll.simps [of "c # s"])
qed

end
