(* ===== verification/DocLock.thy ===== *)
theory DocLock
  imports Main
begin

text \<open>
  The lock of a document (\<open>sync.RWMutex\<close> in \<open>document.go\<close>) and calls of its methods from several
  goroutines. A method takes the lock in blocks: a reading block takes it again for each of the
  methods it calls inside (\<open>Valid\<close> and \<open>MarshalJSON\<close> call \<open>Bytes\<close>, \<open>Where\<close> calls \<open>Get\<close> for every field it
  looks at), a writing block does not. The documentation of the mutex: a reader waits while a writer
  holds the lock or waits for it, a writer waits for the other writers and the readers.
\<close>

datatype block = Reading nat | Writing

datatype lock_op = RLock | RUnlock | WLock | WUnlock

text \<open>
  \<open>LookUp\<close> stands for the methods that read once (\<open>String\<close>, \<open>Bytes\<close>, \<open>Value\<close>, \<open>Clone\<close>, \<open>Get\<close> and its
  variants, \<open>Exists\<close>, \<open>FieldPaths\<close>, \<open>Scan\<close>, \<open>Encode\<close>), \<open>Change\<close> for those that write once (\<open>UnmarshalJSON\<close>,
  \<open>Set\<close>, \<open>SetAll\<close>, \<open>Overwrite\<close>, \<open>Del\<close>, \<open>DelAll\<close>); \<open>MatchFields n\<close> is \<open>Where\<close> with \<open>n\<close> reads of a field,
  \<open>PatchOps n\<close> is \<open>ApplyOps\<close> or \<open>RevertOps\<close> with \<open>n\<close> writes, \<open>MergedFrom\<close> what \<open>Merge\<close> does to its argument.
\<close>

datatype doc_call = LookUp | Change | CheckValid | ToJSON | MatchFields nat | PatchOps nat | MergedFrom

fun doc_blocks :: "doc_call \<Rightarrow> block list" where
  "doc_blocks LookUp = [Reading 0]"
| "doc_blocks Change = [Writing]"
| "doc_blocks CheckValid = [Reading 1]"
| "doc_blocks ToJSON = [Reading 1]"
| "doc_blocks (MatchFields n) = [Reading n]"
| "doc_blocks (PatchOps n) = replicate n Writing"
| "doc_blocks MergedFrom = [Reading 1, Reading 0]"

definition nested :: "nat \<Rightarrow> lock_op list" where
  "nested n = concat (replicate n [RLock, RUnlock]) @ [RUnlock]"

fun block_ops :: "block \<Rightarrow> lock_op list" where
  "block_ops (Reading n) = RLock # nested n"
| "block_ops Writing = [WLock, WUnlock]"

definition ops :: "block list \<Rightarrow> lock_op list" where
  "ops bs = concat (map block_ops bs)"

text \<open>The writer is the goroutine that has announced itself, and whether it is in.\<close>

record rw =
  rwTodo :: "lock_op list list"
  rwReaders :: nat
  rwWriter :: "(nat \<times> bool) option"

definition calls_blocks :: "doc_call list list \<Rightarrow> block list list" where
  "calls_blocks cs = map (\<lambda>c. concat (map doc_blocks c)) cs"

definition rw_start :: "block list list \<Rightarrow> rw" where
  "rw_start bs = \<lparr>rwTodo = map ops bs, rwReaders = 0, rwWriter = None\<rparr>"

definition next_op :: "rw \<Rightarrow> nat \<Rightarrow> lock_op \<Rightarrow> lock_op list \<Rightarrow> bool" where
  "next_op s i x r \<longleftrightarrow> i < length (rwTodo s) \<and> rwTodo s ! i = x # r"

inductive rw_step :: "rw \<Rightarrow> rw \<Rightarrow> bool" where
  rlock: "next_op s i RLock r \<Longrightarrow> rwWriter s = None \<Longrightarrow>
    rw_step s (s\<lparr>rwTodo := (rwTodo s)[i := r], rwReaders := Suc (rwReaders s)\<rparr>)"
| runlock: "next_op s i RUnlock r \<Longrightarrow> rwReaders s = Suc n \<Longrightarrow>
    rw_step s (s\<lparr>rwTodo := (rwTodo s)[i := r], rwReaders := n\<rparr>)"
| announce: "next_op s i WLock r \<Longrightarrow> rwWriter s = None \<Longrightarrow> rw_step s (s\<lparr>rwWriter := Some (i, False)\<rparr>)"
| enter: "next_op s i WLock r \<Longrightarrow> rwWriter s = Some (i, False) \<Longrightarrow> rwReaders s = 0 \<Longrightarrow>
    rw_step s (s\<lparr>rwTodo := (rwTodo s)[i := r], rwWriter := Some (i, True)\<rparr>)"
| wunlock: "next_op s i WUnlock r \<Longrightarrow> rwWriter s = Some (i, True) \<Longrightarrow>
    rw_step s (s\<lparr>rwTodo := (rwTodo s)[i := r], rwWriter := None\<rparr>)"

abbreviation rw_run :: "rw \<Rightarrow> rw \<Rightarrow> bool" where
  "rw_run \<equiv> rw_step\<^sup>*\<^sup>*"

definition stuck :: "rw \<Rightarrow> bool" where
  "stuck s \<longleftrightarrow> (\<forall>t. \<not> rw_step s t) \<and> (\<exists>xs\<in>set (rwTodo s). xs \<noteq> [])"

definition rereads :: "block list \<Rightarrow> bool" where
  "rereads b \<longleftrightarrow> list_ex (\<lambda>x. case x of Reading n \<Rightarrow> 0 < n | Writing \<Rightarrow> False) b"

lemma ops_simps [simp]: "ops [] = []" "ops (b # bs) = block_ops b @ ops bs" "ops (as @ bs) = ops as @ ops bs"
  by (simp_all add: ops_def)

lemma nested_simps [simp]: "nested 0 = [RUnlock]" "nested (Suc n) = RLock # RUnlock # nested n"
  by (simp_all add: nested_def)

subsection \<open>Every run ends\<close>

definition work :: "rw \<Rightarrow> nat" where
  "work s = 2 * sum_list (map length (rwTodo s)) + (case rwWriter s of None \<Rightarrow> 1 | _ \<Rightarrow> 0)"

lemma todo_shrinks:
  assumes "next_op s i x r"
  shows "sum_list (map length (rwTodo s)) = Suc (sum_list (map length ((rwTodo s)[i := r])))"
proof -
  from assms have "Suc (length r) \<le> sum_list (map length (rwTodo s))"
    using elem_le_sum_list [of i "map length (rwTodo s)"] by (simp add: next_op_def)
  with assms show ?thesis by (simp add: next_op_def map_update sum_list_update)
qed

lemma rw_step_work: "rw_step s t \<Longrightarrow> work t < work s"
  by (induction rule: rw_step.induct) (simp_all add: work_def todo_shrinks split: option.split)

subsection \<open>Where a goroutine is\<close>

datatype place = Outside | Inside nat | Deeper nat | InWrite

fun place_ops :: "place \<Rightarrow> block list \<Rightarrow> lock_op list" where
  "place_ops Outside bs = ops bs"
| "place_ops (Inside m) bs = nested m @ ops bs"
| "place_ops (Deeper m) bs = RUnlock # nested m @ ops bs"
| "place_ops InWrite bs = WUnlock # ops bs"

fun held :: "place \<Rightarrow> nat" where
  "held Outside = 0" | "held (Inside _) = 1" | "held (Deeper _) = 2" | "held InWrite = 0"

fun allowed :: "block list \<Rightarrow> place \<Rightarrow> bool" where
  "allowed b Outside \<longleftrightarrow> True"
| "allowed b (Inside m) \<longleftrightarrow> m = 0 \<or> rereads b"
| "allowed b (Deeper m) \<longleftrightarrow> rereads b"
| "allowed b InWrite \<longleftrightarrow> Writing \<in> set b"

definition located :: "block list \<Rightarrow> place \<Rightarrow> lock_op list \<Rightarrow> bool" where
  "located b p xs \<longleftrightarrow> (\<exists>rest. xs = place_ops p rest \<and> set rest \<subseteq> set b \<and> allowed b p)"

lemma ops_head:
  "ops bs = x # r \<Longrightarrow> (\<exists>n bs'. bs = Reading n # bs' \<and> x = RLock \<and> r = nested n @ ops bs') \<or>
     (\<exists>bs'. bs = Writing # bs' \<and> x = WLock \<and> r = WUnlock # ops bs')"
proof (cases bs)
  case (Cons b bs')
  then show "ops bs = x # r \<Longrightarrow> ?thesis" by (cases b) auto
qed simp

lemma nested_head: "nested m @ xs = x # r \<Longrightarrow> x = RLock \<or> x = RUnlock"
  by (cases m) auto

lemma rereadsD: "rereads b \<Longrightarrow> \<exists>n. Reading (Suc n) \<in> set b"
proof (induction b)
  case (Cons x b)
  then show ?case by (cases x) (auto simp: rereads_def gr0_conv_Suc)
qed (simp add: rereads_def)

lemma some_held: "sum_list (map held ps) \<noteq> 0 \<Longrightarrow> \<exists>k<length ps. held (ps ! k) \<noteq> 0"
  by (metis in_set_conv_nth length_map nth_map sum_list_eq_0_iff)

lemma rereadsI: "Reading n \<in> set b \<Longrightarrow> 0 < n \<Longrightarrow> rereads b"
  by (force simp: rereads_def list_ex_iff)

lemma located_rlock:
  assumes "located b p (RLock # r)"
  shows "\<exists>p'. located b p' r \<and> held p' = Suc (held p) \<and> p' \<noteq> InWrite \<and> p \<noteq> InWrite \<and> (0 < held p \<longrightarrow> rereads b)"
proof -
  from assms obtain rest where r: "RLock # r = place_ops p rest" "set rest \<subseteq> set b" "allowed b p"
    by (auto simp: located_def)
  show ?thesis
  proof (cases p)
    case Outside
    with r ops_head [of rest RLock r] obtain n bs' where n: "rest = Reading n # bs'" "r = nested n @ ops bs'" by auto
    with r have "located b (Inside n) r" by (cases n) (auto simp: located_def intro: rereadsI)
    with Outside show ?thesis by (intro exI [of _ "Inside n"]) simp
  next
    case (Inside m)
    with r obtain k where "m = Suc k" by (cases m) auto
    with r Inside show ?thesis by (intro exI [of _ "Deeper k"]) (auto simp: located_def)
  qed (use r in auto)
qed

lemma located_runlock:
  assumes "located b p (RUnlock # r)"
  shows "\<exists>p'. located b p' r \<and> held p = Suc (held p') \<and> p' \<noteq> InWrite \<and> p \<noteq> InWrite"
proof -
  from assms obtain rest where r: "RUnlock # r = place_ops p rest" "set rest \<subseteq> set b" "allowed b p"
    by (auto simp: located_def)
  show ?thesis
  proof (cases p)
    case Outside
    with r ops_head [of rest RUnlock r] show ?thesis by auto
  next
    case (Inside m)
    with r have "m = 0" by (cases m) auto
    with r Inside show ?thesis by (intro exI [of _ Outside]) (auto simp: located_def)
  next
    case (Deeper m)
    with r show ?thesis by (intro exI [of _ "Inside m"]) (auto simp: located_def)
  qed (use r in auto)
qed

lemma located_wlock: "located b p (WLock # r) \<Longrightarrow> p = Outside \<and> located b InWrite r \<and> Writing \<in> set b"
  by (cases p) (auto simp: located_def dest!: ops_head [OF sym] nested_head [OF sym])

lemma located_wunlock: "located b p (WUnlock # r) \<Longrightarrow> p = InWrite \<and> located b Outside r"
  by (cases p) (auto simp: located_def dest!: ops_head [OF sym] nested_head [OF sym])

lemma located_Nil: "located b p [] \<Longrightarrow> p = Outside"
  by (cases p) (auto simp: located_def nested_def)

definition rw_inv :: "block list list \<Rightarrow> place list \<Rightarrow> rw \<Rightarrow> bool" where
  "rw_inv bs ps s \<longleftrightarrow> length ps = length bs \<and> length (rwTodo s) = length bs \<and>
     (\<forall>i<length bs. located (bs ! i) (ps ! i) (rwTodo s ! i)) \<and>
     rwReaders s = sum_list (map held ps) \<and>
     (\<forall>i<length bs. ps ! i = InWrite \<longleftrightarrow> rwWriter s = Some (i, True)) \<and>
     (\<forall>i w. rwWriter s = Some (i, w) \<longrightarrow> i < length bs \<and> (w \<or> (\<exists>r. rwTodo s ! i = WLock # r)))"

lemma rw_inv_start: "rw_inv bs (replicate (length bs) Outside) (rw_start bs)"
  by (auto simp: rw_inv_def rw_start_def located_def sum_list_replicate)

lemma held_update: "i < length ps \<Longrightarrow> sum_list (map held (ps[i := p])) + held (ps ! i) = sum_list (map held ps) + held p"
  using elem_le_sum_list [of i "map held ps"] by (simp add: map_update sum_list_update)

lemma rw_inv_step:
  assumes "rw_step s t" "rw_inv bs ps s"
  shows "\<exists>ps. rw_inv bs ps t"
  using assms
proof (induction rule: rw_step.induct)
  case (rlock s i r)
  then have i: "i < length bs" "located (bs ! i) (ps ! i) (RLock # r)" "i < length ps"
    by (auto simp: next_op_def rw_inv_def)
  from located_rlock [OF i(2)] obtain p' where p: "located (bs ! i) p' r" "held p' = Suc (held (ps ! i))" "p' \<noteq> InWrite" by blast
  with rlock i held_update [OF i(3), of p'] show ?case
    by (intro exI [of _ "ps[i := p']"]) (auto simp: rw_inv_def nth_list_update)
next
  case (runlock s i r n)
  then have i: "i < length bs" "located (bs ! i) (ps ! i) (RUnlock # r)" "i < length ps" "rwTodo s ! i = RUnlock # r"
    by (auto simp: next_op_def rw_inv_def)
  from located_runlock [OF i(2)] obtain p' where p: "located (bs ! i) p' r" "held (ps ! i) = Suc (held p')" "p' \<noteq> InWrite" "ps ! i \<noteq> InWrite" by blast
  with runlock i held_update [OF i(3), of p'] show ?case
    by (intro exI [of _ "ps[i := p']"]) (auto simp: rw_inv_def nth_list_update)
next
  case (announce s i r)
  then show ?case by (intro exI [of _ ps]) (auto simp: rw_inv_def next_op_def)
next
  case (enter s i r)
  then have i: "i < length bs" "located (bs ! i) (ps ! i) (WLock # r)" "i < length ps"
    by (auto simp: next_op_def rw_inv_def)
  from located_wlock [OF i(2)] enter i held_update [OF i(3), of InWrite] show ?case
    by (intro exI [of _ "ps[i := InWrite]"]) (auto simp: rw_inv_def nth_list_update)
next
  case (wunlock s i r)
  then have i: "i < length bs" "located (bs ! i) (ps ! i) (WUnlock # r)" "i < length ps"
    by (auto simp: next_op_def rw_inv_def)
  from located_wunlock [OF i(2)] wunlock i held_update [OF i(3), of Outside] show ?case
    by (intro exI [of _ "ps[i := Outside]"]) (auto simp: rw_inv_def nth_list_update)
qed

lemma rw_inv_run: "rw_run (rw_start bs) s \<Longrightarrow> \<exists>ps. rw_inv bs ps s"
  by (induction rule: rtranclp_induct) (use rw_inv_start rw_inv_step in blast)+

subsection \<open>When calls get stuck\<close>

lemma stuck_needs:
  assumes "rw_inv bs ps s" "stuck s"
  shows "\<exists>i<length bs. \<exists>j<length bs. i \<noteq> j \<and> rereads (bs ! i) \<and> Writing \<in> set (bs ! j)"
proof -
  from assms(2) obtain i where i: "i < length (rwTodo s)" "rwTodo s ! i \<noteq> []" and halt: "\<And>t. \<not> rw_step s t"
    by (auto simp: stuck_def in_set_conv_nth)
  note inv = assms(1) [unfolded rw_inv_def]
  have runlock: "rwTodo s ! k \<noteq> RUnlock # r" if "k < length bs" for k r
  proof
    assume a: "rwTodo s ! k = RUnlock # r"
    with inv that located_runlock [of "bs ! k" "ps ! k" r] obtain p' where "held (ps ! k) = Suc (held p')" by metis
    with inv that have "0 < rwReaders s" using elem_le_sum_list [of k "map held ps"] by simp
    then obtain n where "rwReaders s = Suc n" using gr0_implies_Suc by blast
    with a inv that halt rw_step.runlock [of s k r n] show False by (auto simp: next_op_def)
  qed
  have wunlock: "rwTodo s ! k \<noteq> WUnlock # r" if "k < length bs" for k r
  proof
    assume a: "rwTodo s ! k = WUnlock # r"
    with inv that located_wunlock [of "bs ! k" "ps ! k" r] have "rwWriter s = Some (k, True)" by metis
    with a inv that halt rw_step.wunlock [of s k r] show False by (auto simp: next_op_def)
  qed
  show ?thesis
  proof (cases "rwWriter s")
    case None
    from i obtain x r where x: "next_op s i x r" by (auto simp: next_op_def neq_Nil_conv)
    with i inv runlock [of i r] wunlock [of i r] have "x = RLock \<or> x = WLock" by (cases x) (auto simp: next_op_def)
    with x None halt rw_step.rlock [of s i r] rw_step.announce [of s i r] show ?thesis by auto
  next
    case (Some jw)
    obtain j w where j: "rwWriter s = Some (j, w)" using Some by (cases jw) auto
    with inv have len: "j < length bs" by blast
    show ?thesis
    proof (cases w)
      case True
      with j len inv have "ps ! j = InWrite" by auto
      with inv len obtain rest where "rwTodo s ! j = WUnlock # ops rest" by (fastforce simp: located_def)
      with wunlock len show ?thesis by blast
    next
      case False
      with j inv obtain r where r: "rwTodo s ! j = WLock # r" by blast
      with inv len located_wlock [of "bs ! j" "ps ! j" r] have wj: "ps ! j = Outside" "Writing \<in> set (bs ! j)" by metis+
      have "next_op s j WLock r" using r len inv by (simp add: next_op_def)
      with False j halt rw_step.enter [of s j r] have "rwReaders s \<noteq> 0" by auto
      with inv some_held [of ps] obtain k where k: "k < length bs" "held (ps ! k) \<noteq> 0" by auto
      with wj have "k \<noteq> j" by auto
      have located: "located (bs ! k) (ps ! k) (rwTodo s ! k)" using inv k by blast
      then have "rwTodo s ! k \<noteq> []" using k(2) located_Nil by fastforce
      then obtain x r' where x: "rwTodo s ! k = x # r'" by (auto simp: neq_Nil_conv)
      with runlock [OF k(1)] wunlock [OF k(1)] located_wlock located k(2) have "x = RLock" by (cases x) (auto, fastforce)
      with x located k(2) located_rlock have "rereads (bs ! k)" by fastforce
      with k len \<open>k \<noteq> j\<close> wj show ?thesis by blast
    qed
  qed
qed

text \<open>A goroutine runs its blocks to the end while nobody else has the lock.\<close>

lemma run_nested:
  "i < length (rwTodo s) \<Longrightarrow> rwTodo s ! i = nested n @ xs \<Longrightarrow> rwReaders s = 1 \<Longrightarrow> rwWriter s = None \<Longrightarrow>
     rw_run s (s\<lparr>rwTodo := (rwTodo s)[i := xs], rwReaders := 0\<rparr>)"
proof (induction n arbitrary: s)
  case 0
  then have "rw_step s (s\<lparr>rwTodo := (rwTodo s)[i := xs], rwReaders := 0\<rparr>)"
    by (intro rw_step.runlock) (auto simp: next_op_def)
  then show ?case by blast
next
  case (Suc n)
  let ?a = "s\<lparr>rwTodo := (rwTodo s)[i := RUnlock # nested n @ xs], rwReaders := Suc (rwReaders s)\<rparr>"
  let ?b = "?a\<lparr>rwTodo := (rwTodo ?a)[i := nested n @ xs], rwReaders := 1\<rparr>"
  have "rw_step s ?a" by (rule rw_step.rlock) (use Suc.prems in \<open>auto simp: next_op_def\<close>)
  moreover have "rw_step ?a ?b" by (rule rw_step.runlock) (use Suc.prems in \<open>auto simp: next_op_def\<close>)
  moreover have "rw_run ?b (s\<lparr>rwTodo := (rwTodo s)[i := xs], rwReaders := 0\<rparr>)"
    using Suc.IH [of ?b] Suc.prems by simp
  ultimately show ?case by (meson converse_rtranclp_into_rtranclp)
qed

lemma run_alone:
  "i < length (rwTodo s) \<Longrightarrow> rwTodo s ! i = ops bs @ xs \<Longrightarrow> rwReaders s = 0 \<Longrightarrow> rwWriter s = None \<Longrightarrow>
     rw_run s (s\<lparr>rwTodo := (rwTodo s)[i := xs]\<rparr>)"
proof (induction bs arbitrary: s)
  case Nil
  then have "s\<lparr>rwTodo := (rwTodo s)[i := xs]\<rparr> = s" by (metis append_Nil list_update_id ops_simps(1) rw.surjective rw.update_convs(1))
  then show ?case by simp
next
  case (Cons b bs)
  let ?t = "s\<lparr>rwTodo := (rwTodo s)[i := ops bs @ xs]\<rparr>"
  have "rw_run s ?t"
  proof (cases b)
    case (Reading n)
    let ?a = "s\<lparr>rwTodo := (rwTodo s)[i := nested n @ ops bs @ xs], rwReaders := Suc (rwReaders s)\<rparr>"
    have "rw_step s ?a" by (rule rw_step.rlock) (use Cons.prems Reading in \<open>auto simp: next_op_def\<close>)
    moreover have "rw_run ?a ?t" using run_nested [of i ?a n "ops bs @ xs"] Cons.prems by (cases s) simp
    ultimately show ?thesis by (meson converse_rtranclp_into_rtranclp)
  next
    case Writing
    let ?a = "s\<lparr>rwWriter := Some (i, False)\<rparr>"
    let ?b = "?a\<lparr>rwTodo := (rwTodo ?a)[i := WUnlock # ops bs @ xs], rwWriter := Some (i, True)\<rparr>"
    let ?c = "?b\<lparr>rwTodo := (rwTodo ?b)[i := ops bs @ xs], rwWriter := None\<rparr>"
    have "rw_step s ?a" by (rule rw_step.announce) (use Cons.prems Writing in \<open>auto simp: next_op_def\<close>)
    moreover have "rw_step ?a ?b" by (rule rw_step.enter) (use Cons.prems Writing in \<open>auto simp: next_op_def\<close>)
    moreover have "rw_step ?b ?c" by (rule rw_step.wunlock) (use Cons.prems in \<open>auto simp: next_op_def\<close>)
    moreover have "?c = ?t" using Cons.prems by (cases s) simp
    ultimately show ?thesis by (metis (no_types, lifting) converse_rtranclp_into_rtranclp r_into_rtranclp)
  qed
  also have "rw_run ?t (s\<lparr>rwTodo := (rwTodo s)[i := xs]\<rparr>)" using Cons.IH [of ?t] Cons.prems by simp
  finally show ?case .
qed

lemma ops_plain: "ops b = x # r \<Longrightarrow> x = RLock \<or> x = WLock"
  by (auto dest: ops_head)

lemma pair_stuck:
  assumes "i < length bs" "j < length bs" "i \<noteq> j" "rereads (bs ! i)" "Writing \<in> set (bs ! j)"
  shows "\<exists>s. rw_run (rw_start bs) s \<and> stuck s"
proof -
  from rereadsD [OF assms(4)] obtain n where "Reading (Suc n) \<in> set (bs ! i)" ..
  then obtain a c where a: "bs ! i = a @ Reading (Suc n) # c" by (meson split_list)
  from assms(5) obtain a' c' where a': "bs ! j = a' @ Writing # c'" by (meson split_list)
  let ?s0 = "rw_start bs"
  let ?s1 = "?s0\<lparr>rwTodo := (rwTodo ?s0)[j := ops (Writing # c')]\<rparr>"
  let ?s2 = "?s1\<lparr>rwTodo := (rwTodo ?s1)[i := ops (Reading (Suc n) # c)]\<rparr>"
  let ?s3 = "?s2\<lparr>rwTodo := (rwTodo ?s2)[i := nested (Suc n) @ ops c], rwReaders := Suc (rwReaders ?s2)\<rparr>"
  let ?s4 = "?s3\<lparr>rwWriter := Some (j, False)\<rparr>"
  have "rw_run ?s0 ?s1" by (rule run_alone [of _ _ a']) (use assms a' in \<open>auto simp: rw_start_def\<close>)
  also have "rw_run ?s1 ?s2" by (rule run_alone [of _ _ a]) (use assms a in \<open>auto simp: rw_start_def\<close>)
  also have "rw_step ?s2 ?s3" by (rule rw_step.rlock) (use assms in \<open>auto simp: rw_start_def next_op_def\<close>)
  also have "rw_step ?s3 ?s4" by (rule rw_step.announce [of _ _ "WUnlock # ops c'"]) (use assms in \<open>auto simp: rw_start_def next_op_def\<close>)
  finally have run: "rw_run ?s0 ?s4" .
  have todo: "rwTodo ?s4 ! k = (if k = i then nested (Suc n) @ ops c else if k = j then WLock # WUnlock # ops c' else ops (bs ! k))"
    if "k < length bs" for k
    using assms that by (simp add: rw_start_def nth_list_update)
  have len: "length (rwTodo ?s4) = length bs" by (simp add: rw_start_def)
  have "\<not> rw_step ?s4 t" for t
  proof
    assume "rw_step ?s4 t"
    then obtain k r where k: "next_op ?s4 k RUnlock r \<or> next_op ?s4 k WUnlock r"
      by (cases rule: rw_step.cases) (auto simp: rw_start_def)
    then have "k < length bs" by (auto simp: next_op_def rw_start_def)
    with k todo show False by (auto simp: next_op_def len split: if_splits dest: ops_plain)
  qed
  moreover have "rwTodo ?s4 ! i \<in> set (rwTodo ?s4)" "rwTodo ?s4 ! i \<noteq> []"
    using todo [of i] assms(1) len nth_mem [of i "rwTodo ?s4"] by simp_all
  ultimately have "stuck ?s4" unfolding stuck_def by blast
  with run show ?thesis by blast
qed

text \<open>The calls that read while they hold the lock, and those that change the document.\<close>

fun nests :: "doc_call \<Rightarrow> bool" where
  "nests CheckValid \<longleftrightarrow> True"
| "nests ToJSON \<longleftrightarrow> True"
| "nests MergedFrom \<longleftrightarrow> True"
| "nests (MatchFields n) \<longleftrightarrow> 0 < n"
| "nests _ \<longleftrightarrow> False"

fun alters :: "doc_call \<Rightarrow> bool" where
  "alters Change \<longleftrightarrow> True"
| "alters (PatchOps n) \<longleftrightarrow> 0 < n"
| "alters _ \<longleftrightarrow> False"

definition shares :: "doc_call list list \<Rightarrow> bool" where
  "shares cs \<longleftrightarrow> list_ex (\<lambda>i. list_ex nests (cs ! i) \<and>
     list_ex (\<lambda>j. i \<noteq> j \<and> list_ex alters (cs ! j)) [0..<length cs]) [0..<length cs]"

lemma rereads_calls: "rereads (concat (map doc_blocks c)) \<longleftrightarrow> list_ex nests c"
proof (induction c)
  case (Cons x c)
  have "rereads (doc_blocks x) \<longleftrightarrow> nests x" by (cases x) (auto simp: rereads_def list_ex_iff)
  with Cons show ?case by (simp add: rereads_def)
qed (simp add: rereads_def)

lemma writes_calls: "Writing \<in> set (concat (map doc_blocks c)) \<longleftrightarrow> list_ex alters c"
proof (induction c)
  case (Cons x c)
  have "Writing \<in> set (doc_blocks x) \<longleftrightarrow> alters x" by (cases x) auto
  with Cons show ?case by simp
qed simp

lemma shares_iff: "shares cs \<longleftrightarrow> (\<exists>i<length (calls_blocks cs). \<exists>j<length (calls_blocks cs).
    i \<noteq> j \<and> rereads (calls_blocks cs ! i) \<and> Writing \<in> set (calls_blocks cs ! j))"
proof -
  have len: "length (calls_blocks cs) = length cs" by (simp add: calls_blocks_def)
  have calls: "rereads (calls_blocks cs ! i) \<longleftrightarrow> list_ex nests (cs ! i)" "Writing \<in> set (calls_blocks cs ! i) \<longleftrightarrow> list_ex alters (cs ! i)"
    if "i < length cs" for i
    using that rereads_calls writes_calls by (simp_all add: calls_blocks_def del: set_concat set_map)
  have "shares cs \<longleftrightarrow> (\<exists>i<length cs. list_ex nests (cs ! i) \<and> (\<exists>j<length cs. i \<noteq> j \<and> list_ex alters (cs ! j)))"
    unfolding shares_def list_ex_iff [of _ "[0..<length cs]"] by (simp add: Bex_def)
  then show ?thesis unfolding len using calls by blast
qed

text \<open>
  C28: goroutines that call the methods of one document can end up waiting for each other for
  ever exactly when one of them calls a method that takes the lock again while it reads (\<open>Valid\<close>,
  \<open>MarshalJSON\<close>, \<open>Where\<close>, or a merge from the document) and another one changes the document. In
  every other case all the calls return, since each step makes progress (\<open>rw_step_work\<close>).
\<close>

theorem document_calls_stick_iff:
  "(\<exists>s. rw_run (rw_start (calls_blocks cs)) s \<and> stuck s) \<longleftrightarrow> shares cs"
  unfolding shares_iff using stuck_needs pair_stuck rw_inv_run by meson

text \<open>Where no call shares, a run that cannot go on has returned from every call.\<close>

lemma calls_return:
  assumes "\<not> shares cs" "rw_run (rw_start (calls_blocks cs)) s" "\<And>t. \<not> rw_step s t"
  shows "\<forall>xs\<in>set (rwTodo s). xs = []"
proof (rule ccontr)
  assume "\<not> ?thesis"
  with assms(3) have "stuck s" by (auto simp: stuck_def)
  with assms(1,2) rw_inv_run stuck_needs show False unfolding shares_iff by blast
qed

text \<open>A query that filters a document while another goroutine sets a field of it is such a case.\<close>

lemma filter_while_setting: "shares [[MatchFields 1], [Change]]" "\<not> shares [[LookUp, Change], [LookUp, Change], [PatchOps 3]]"
  by (code_simp+)

end
