(* ===== verification/TikvLocker.thy ===== *)
theory TikvLocker
  imports LockProtocol
begin

text \<open>
  The lock of \<open>kv/tikv/locker.go\<close>, translated from its own source, and its protocol. The file
  declares the records of the badger lock again, field by field, so they are shared; the
  operations run in \<open>tikvKV.Tx\<close> and test the client's \<open>IsErrNotFound\<close> (\<open>nf\<close>). The simulation
  at the end carries what \<open>LockProtocol\<close> shows over to this lock.
\<close>

subsection \<open>The operations\<close>

definition tikv_setLock :: "('s, 'r) kv_ops \<Rightarrow> 'r lock_codec \<Rightarrow> lock \<Rightarrow> int \<Rightarrow> ('s, unit) eff" where
  "tikv_setLock ops C l now s =
     (let meta = \<lparr>lmID = lkID l, lmStart = lkStart l, lmLastUpdate = now, lmKey = lkKey l\<rparr>;
          bytes = lcMarshal C meta
      in case opSet ops (lkKey l) bytes s of Inl err \<Rightarrow> (Inl err, s) | Inr s \<Rightarrow> (Inr (), s))"

definition tikv_delLock :: "('s, 'r) kv_ops \<Rightarrow> lock \<Rightarrow> ('s, unit) eff" where
  "tikv_delLock ops l s = (case opDel ops (lkKey l) s of Inl err \<Rightarrow> (Inl err, s) | Inr s \<Rightarrow> (Inr (), s))"

definition tikv_getLock :: "('s, 'r) kv_ops \<Rightarrow> 'r lock_codec \<Rightarrow> lock \<Rightarrow> ('s, lock_meta) eff" where
  "tikv_getLock ops C l s = (case opGet ops (lkKey l) s of
     Inl err \<Rightarrow> (Inl err, s)
   | Inr val \<Rightarrow> (case lcUnmarshal C val of Inl err \<Rightarrow> (Inl (Fail err), s) | Inr m \<Rightarrow> (Inr m, s)))"

text \<open>
  The record that a read found: a decoding error is dropped, and what could not be decoded is
  the zero record. Whether it keeps the caller out:
\<close>

definition tikv_current :: "'r lock_codec \<Rightarrow> 'r option \<Rightarrow> lock_meta" where
  "tikv_current C val = (case lcUnmarshal C val of
     Inl err \<Rightarrow> \<lparr>lmID = [], lmStart = zero_time, lmLastUpdate = zero_time, lmKey = []\<rparr>
   | Inr m \<Rightarrow> m)"

definition tikv_expired :: "lock \<Rightarrow> int \<Rightarrow> lock_meta \<Rightarrow> bool" where
  "tikv_expired l now current \<longleftrightarrow>
     time_Since now (lmLastUpdate current) > int64 (4 * lkLease l) \<and> lmID current \<noteq> lkID l"

text \<open>The flag of the source starts at true here; the function only ever clears it.\<close>

definition tikv_IsLocked ::
  "(gerr \<Rightarrow> bool) \<Rightarrow> ('d, 's, 'r) kv_db \<Rightarrow> 'r lock_codec \<Rightarrow> lock \<Rightarrow> int \<Rightarrow> ('d, bool) eff" where
  "tikv_IsLocked nf K C l now = tikv_Tx K \<lparr>IsReadOnly = True, IsBatch = False\<rparr> (\<lambda>s.
     case opGet (dbOps K) (lkKey l) s of
       Inl (Fail err) \<Rightarrow> if \<not> nf err then (Inl (Fail err), s) else (Inr False, s)
     | Inl p \<Rightarrow> (Inl p, s)
     | Inr val \<Rightarrow> if tikv_expired l now (tikv_current C val) then (Inr False, s) else (Inr True, s))"

definition tikv_TryLock ::
  "(gerr \<Rightarrow> bool) \<Rightarrow> ('d, 's, 'r) kv_db \<Rightarrow> 'r lock_codec \<Rightarrow> lock \<Rightarrow> int \<Rightarrow> int \<Rightarrow> int \<Rightarrow> ('d, bool) eff" where
  "tikv_TryLock nf K C l0 start now later = (let l = l0\<lparr>lkStart := start\<rparr> in
     tikv_Tx K \<lparr>IsReadOnly = False, IsBatch = False\<rparr> (\<lambda>s. case opGet (dbOps K) (lkKey l) s of
       Inl (Fail err) \<Rightarrow> if \<not> nf err then (Inl (Fail err), s)
         else ebind (tikv_setLock (dbOps K) C l later) (\<lambda>_. ret True) s
     | Inl p \<Rightarrow> (Inl p, s)
     | Inr val \<Rightarrow> if tikv_expired l now (tikv_current C val)
         then ebind (tikv_setLock (dbOps K) C l later) (\<lambda>_. ret True) s
         else (Inr False, s)))"

definition tikv_keepalive_renew :: "('d, 's, 'r) kv_db \<Rightarrow> 'r lock_codec \<Rightarrow> lock \<Rightarrow> int \<Rightarrow> ('d, unit) eff" where
  "tikv_keepalive_renew K C l now = tikv_Tx K \<lparr>IsReadOnly = False, IsBatch = False\<rparr> (
     ebind (tikv_getLock (dbOps K) C l) (\<lambda>val.
     if lmID val = lkID l then tikv_setLock (dbOps K) C l now else ret ()))"

definition tikv_keepalive_release :: "('d, 's, 'r) kv_db \<Rightarrow> 'r lock_codec \<Rightarrow> lock \<Rightarrow> ('d, unit) eff" where
  "tikv_keepalive_release K C l = tikv_Tx K \<lparr>IsReadOnly = False, IsBatch = False\<rparr> (
     ebind (tikv_getLock (dbOps K) C l) (\<lambda>val.
     if lmID val = lkID l then tikv_delLock (dbOps K) l else ret ()))"

subsection \<open>The two locks, operation by operation\<close>

named_theorems tikv_lock "the operations of the TiKV lock as those of the badger lock"

lemma tikv_setLock_badger [tikv_lock]: "tikv_setLock ops C l now = setLock ops C l now"
  by (rule ext) (simp add: tikv_setLock_def setLock_def)

lemma tikv_delLock_badger [tikv_lock]: "tikv_delLock ops l = delLock ops l"
  by (rule ext) (simp add: tikv_delLock_def delLock_def)

lemma tikv_getLock_badger [tikv_lock]: "tikv_getLock ops C l = getLock ops C l"
  by (rule ext) (auto simp: tikv_getLock_def getLock_def rbind_def lift_err_def split: sum.splits)

lemma tikv_expired_badger [tikv_lock]: "tikv_expired l now (tikv_current C val) \<longleftrightarrow> lease_expired l now (current_meta C val)"
  by (auto simp: tikv_expired_def tikv_current_def lease_expired_def current_meta_def zero_meta_def split: sum.splits)

lemma tikv_operations:
  "tikv_IsLocked nf K C l now = IsLocked tikv_Tx nf K C l now"
  "tikv_TryLock nf K C l start now later = TryLock tikv_Tx nf K C l start now later"
  "tikv_keepalive_renew K C l now = keepalive_renew tikv_Tx K C l now"
  "tikv_keepalive_release K C l = keepalive_release tikv_Tx K C l"
proof -
  have locked: "(\<lambda>s. case opGet (dbOps K) (lkKey l) s of
       Inl (Fail err) \<Rightarrow> if \<not> nf err then (Inl (Fail err), s) else (Inr False, s)
     | Inl p \<Rightarrow> (Inl p, s)
     | Inr val \<Rightarrow> if tikv_expired l now (tikv_current C val) then (Inr False, s) else (Inr True, s)) =
    (\<lambda>s. case opGet (dbOps K) (lkKey l) s of
       Inl (Fail e) \<Rightarrow> (if nf e then Inr False else Inl (Fail e), s)
     | Inl p \<Rightarrow> (Inl p, s)
     | Inr val \<Rightarrow> (Inr (\<not> lease_expired l now (current_meta C val)), s))"
    by (rule ext) (simp add: tikv_lock split: sum.splits failure.splits)
  have tried: "(\<lambda>s. case opGet (dbOps K) (lkKey l) s of
       Inl (Fail err) \<Rightarrow> if \<not> nf err then (Inl (Fail err), s)
         else ebind (tikv_setLock (dbOps K) C l later) (\<lambda>_. ret True) s
     | Inl p \<Rightarrow> (Inl p, s)
     | Inr val \<Rightarrow> if tikv_expired l now (tikv_current C val)
         then ebind (tikv_setLock (dbOps K) C l later) (\<lambda>_. ret True) s else (Inr False, s)) =
    (\<lambda>s. case opGet (dbOps K) (lkKey l) s of
       Inl (Fail e) \<Rightarrow> (if nf e then ebind (setLock (dbOps K) C l later) (\<lambda>_. ret True) s else (Inl (Fail e), s))
     | Inl p \<Rightarrow> (Inl p, s)
     | Inr val \<Rightarrow> (if lease_expired l now (current_meta C val)
         then ebind (setLock (dbOps K) C l later) (\<lambda>_. ret True) s else (Inr False, s)))" for l
    by (rule ext) (simp add: tikv_lock split: sum.splits failure.splits)
  show "tikv_IsLocked nf K C l now = IsLocked tikv_Tx nf K C l now"
    unfolding tikv_IsLocked_def IsLocked_def locked ..
  show "tikv_TryLock nf K C l start now later = TryLock tikv_Tx nf K C l start now later"
    unfolding tikv_TryLock_def TryLock_def Let_def tried ..
  show "tikv_keepalive_renew K C l now = keepalive_renew tikv_Tx K C l now"
    unfolding tikv_keepalive_renew_def keepalive_renew_def tikv_lock ..
  show "tikv_keepalive_release K C l = keepalive_release tikv_Tx K C l"
    unfolding tikv_keepalive_release_def keepalive_release_def tikv_lock ..
qed

text \<open>Where a rollback cannot fail, the two ways of running a transaction are the same.\<close>

lemma tikv_Tx_no_rollback_error: "(\<And>s. dbRollback K s = Inr ()) \<Longrightarrow> tikv_Tx K = badger_Tx K"
  by (intro ext) (auto simp: tikv_Tx_def badger_Tx_def rollback_text_def split: sum.splits prod.splits failure.splits)

lemma tikv_Tx_mem: "tikv_Tx mem_db = badger_Tx mem_db"
  by (rule tikv_Tx_no_rollback_error) (simp add: mem_db_def)

lemma tikv_lock_mem:
  "tikv_TryLock nf mem_db C l start now later = TryLock badger_Tx nf mem_db C l start now later"
  "tikv_keepalive_renew mem_db C l now = keepalive_renew badger_Tx mem_db C l now"
  "tikv_keepalive_release mem_db C l = keepalive_release badger_Tx mem_db C l"
  by (simp_all add: tikv_operations TryLock_def keepalive_renew_def keepalive_release_def tikv_Tx_mem)

subsection \<open>The protocol\<close>

text \<open>
  The objects of \<open>LockProtocol\<close>, moved by the operations of this file: the attempt and the
  goroutine it starts, the ticker and the unlock channel of that goroutine, and \<open>Unlock\<close>.
\<close>

inductive tikv_lock_step :: "'r lock_codec \<Rightarrow> 'r lock_sys \<Rightarrow> 'r lock_sys \<Rightarrow> bool" for C where
  tikv_wait: "lsNow s \<le> now \<Longrightarrow> tikv_lock_step C s (s\<lparr>lsNow := now\<rparr>)"
| tikv_acquire: "c = lsClients s i \<Longrightarrow> clPhase c = Idle \<Longrightarrow> lsNow s \<le> t0 \<Longrightarrow> t0 \<le> t1 \<Longrightarrow> t1 \<le> t2 \<Longrightarrow>
    tikv_TryLock nf mem_db C (clLock c) t0 t1 t2 (lsStore s) = (Inr True, d) \<Longrightarrow>
    tikv_lock_step C s (move s i d t2 \<lparr>clLock = (clLock c)\<lparr>lkStart := t0\<rparr>, clPhase = Alive, clRenewed = t2\<rparr>)"
| tikv_refuse: "c = lsClients s i \<Longrightarrow> clPhase c = Idle \<Longrightarrow> lsNow s \<le> t0 \<Longrightarrow> t0 \<le> t1 \<Longrightarrow> t1 \<le> t2 \<Longrightarrow>
    tikv_TryLock nf mem_db C (clLock c) t0 t1 t2 (lsStore s) = (r, d) \<Longrightarrow> r \<noteq> Inr True \<Longrightarrow>
    tikv_lock_step C s (move s i d t2 (c\<lparr>clLock := (clLock c)\<lparr>lkStart := t0\<rparr>\<rparr>))"
| tikv_tick: "c = lsClients s i \<Longrightarrow> clPhase c = Alive \<Longrightarrow> lsNow s \<le> t \<Longrightarrow>
    tikv_keepalive_renew mem_db C (clLock c) t (lsStore s) = (Inr (), d) \<Longrightarrow>
    tikv_lock_step C s (move s i d t (c\<lparr>clRenewed := renewed_at C d c\<rparr>))"
| tikv_tick_fails: "c = lsClients s i \<Longrightarrow> clPhase c = Alive \<Longrightarrow> lsNow s \<le> t \<Longrightarrow>
    tikv_keepalive_renew mem_db C (clLock c) t (lsStore s) = (Inl e, d) \<Longrightarrow>
    tikv_lock_step C s (move s i d t (c\<lparr>clPhase := Dead\<rparr>))"
| tikv_Unlock: "c = lsClients s i \<Longrightarrow> clPhase c = Alive \<Longrightarrow>
    tikv_lock_step C s (move s i (lsStore s) (lsNow s) (c\<lparr>clPhase := Unlocking\<rparr>))"
| tikv_release: "c = lsClients s i \<Longrightarrow> clPhase c = Unlocking \<Longrightarrow>
    tikv_keepalive_release mem_db C (clLock c) (lsStore s) = (r, d) \<Longrightarrow>
    tikv_lock_step C s (move s i d (lsNow s) (c\<lparr>clPhase := Released\<rparr>))"
| tikv_stuck: "c = lsClients s i \<Longrightarrow> clPhase c = Dead \<Longrightarrow>
    tikv_lock_step C s (move s i (lsStore s) (lsNow s) (c\<lparr>clPhase := Blocked\<rparr>))"

inductive tikv_lock_run :: "'r lock_codec \<Rightarrow> 'r lock_sys \<Rightarrow> 'r lock_sys \<Rightarrow> bool" for C where
  tikv_here: "tikv_lock_run C s s"
| tikv_on: "tikv_lock_run C s t \<Longrightarrow> tikv_lock_step C t u \<Longrightarrow> tikv_lock_run C s u"

lemma tikv_step_badger: "tikv_lock_step C s t \<Longrightarrow> lock_step C s t"
  by (induction rule: tikv_lock_step.induct) (unfold tikv_lock_mem, (rule lock_step.intros; assumption)+)

lemma badger_step_tikv: "lock_step C s t \<Longrightarrow> tikv_lock_step C s t"
  by (induction rule: lock_step.induct) (unfold tikv_lock_mem [symmetric], (rule tikv_lock_step.intros; assumption)+)


end
