(* ===== verification/AuditLog.thy ===== *)
theory AuditLog
  imports Cascade
begin

text \<open>
  The audit log: every write of a collection leaves a change record, in the list that the commit
  publishes and, as a document, in the collection \<open>system_cdc\<close>. \<open>TimeTravel\<close> reads the records
  of a document back, newest first, and reverts them. The two halves meet in \<open>chronicled\<close>: what
  a sequence of writes has logged about a document is the sequence of its versions.
\<close>

subsection \<open>What appends to the list of change records\<close>

text \<open>Only \<open>record_cdc\<close> appends to the list, and only for collections other than the log.\<close>

abbreviation (input) keeps_cdc :: "('s, 'r, 'a) tx \<Rightarrow> bool" where
  "keeps_cdc m \<equiv> keeps (\<lambda>t u. tCDC u = tCDC t) m"

lemma cdc_write: "keeps_cdc (kv_write f)"
  by (auto simp: keeps_def kv_write_def split: sum.splits)

lemma cdc_docs: "keeps_cdc (remember_doc d)" "keeps_cdc (forget_doc d)"
  by (simp_all add: keeps_def remember_doc_def forget_doc_def)

lemmas cdc_rules = same_cdc.read_rules cdc_write cdc_docs same_cdc.keeps_compute_write same_cdc.keeps_check_unique

lemma cdc_hasDocID: "keeps_cdc (hasDocID E n cx schema docID)"
proof -
  let ?m = "ebind (wrap_eff Internal [] (tx_query E n cx (scCollection schema) (empty_query\<lparr>
      qSelect := [select_field ''*''], qWhere := [\<lparr>wField = PrimaryKey schema, wOp = WEq, wValue = AStr docID\<rparr>], qLimit := 1\<rparr>)))
    (\<lambda>results. if pgCount results = 0
       then throw Validation (''foreign key with value '' @ docID @ '' does not exist: '' @
          scCollection schema @ ''/'' @ PrimaryKey schema)
       else ebind (remember_doc (doc_ref (scCollection schema) docID)) (\<lambda>_. ret True))"
  have "keeps_cdc ?m" by (auto intro!: cdc_rules same_cdc.keeps_query)
  then show ?thesis unfolding keeps_def hasDocID_def by simp
qed

lemma cdc_secondary: "keeps_cdc (updateSecondaryIndex E n cx collection i docID b act d)"
  unfolding updateSecondaryIndex_def drop_entry_def check_foreign_def
  by (auto split: option.splits list.splits intro!: cdc_rules cdc_hasDocID)

lemma cdc_put:
  assumes "act \<noteq> DeleteAction"
  shows "keeps_cdc (apply_action E n per cx c collection act docID before document)"
proof -
  have "keeps_cdc (setDocument E cx c docID before document)" "keeps_cdc (createDocument E cx c document)"
    "keeps_cdc (updateDocument E cx c docID before document)"
    unfolding setDocument_def createDocument_def updateDocument_def Let_def
    by (auto split: option.splits intro!: cdc_rules)
  with assms show ?thesis
    unfolding apply_action_def Let_def by (auto split: action.splits intro!: cdc_rules)
qed

lemma cdc_log_entry:
  assumes "pcCollection cmd = cdcCollectionName" "pcAction cmd = CreateAction"
  shows "keeps_cdc (persistCommand E m cx cmd)"
proof (cases m)
  case (Suc n)
  have pair: "keeps_cdc (Pair r)" for r :: "'r res"
    using same_cdc.keeps_lift [of r] by (simp add: keeps_def)
  show ?thesis
    unfolding Suc persistCommand.simps persist_with_def record_cdc_def Let_def assms
    by (auto split: option.splits intro!: cdc_rules same_cdc.keeps_get same_cdc.keeps_evaluate cdc_secondary cdc_put pair)
qed (simp add: same_cdc.keeps_lift)

subsection \<open>The change record of a write\<close>

lemma record_cdc_run:
  assumes run: "record_cdc E (persistCommand E m) cx c cmd ts meta before d t = (Inr (), t')"
    and coll: "pcCollection cmd \<noteq> cdcCollectionName"
  shows "\<exists>e r r' t1. tCDC t' = tCDC t @ [e] \<and> cdcCollection e = pcCollection cmd \<and> cdcAction e = pcAction cmd \<and>
    cdcDocumentID e = GetPrimaryKey (enJ E) c d \<and> cdcDiff e = Diff (enJ E) d before \<and> cdcTimestamp e = ts \<and>
    cdcID e = enKsuid E (tTick t) \<and> tKV t1 = tKV t \<and> enFromCDC E e = Inr r \<and>
    persistCommand E m (SetIsInternal cx) \<lparr>pcCollection = cdcCollectionName, pcAction = CreateAction, pcDocument = r,
      pcTimestamp = ts, pcMetadata = meta\<rparr> t1 = (Inr r', t'\<lparr>tCDC := tCDC t\<rparr>)"
proof -
  let ?e = "\<lparr>cdcID = enKsuid E (tTick t), cdcCollection = pcCollection cmd, cdcAction = pcAction cmd,
      cdcDocumentID = GetPrimaryKey (enJ E) c d, cdcDiff = Diff (enJ E) d before, cdcTimestamp = ts, cdcMetadata = meta\<rparr>"
  let ?t1 = "t\<lparr>tTick := Suc (tTick t)\<rparr>"
  let ?rec = "\<lambda>r. \<lparr>pcCollection = cdcCollectionName, pcAction = CreateAction, pcDocument = r, pcTimestamp = ts, pcMetadata = meta\<rparr>"
  from run coll obtain r r' t2 where r: "enFromCDC E ?e = Inr r"
    "persistCommand E m (SetIsInternal cx) (?rec r) ?t1 = (Inr r', t2)"
    "t' = t2\<lparr>tCDC := tCDC t2 @ [?e]\<rparr>"
    by (auto simp: record_cdc_def Let_def ebind_Inr_iff draw_def simp del: persistCommand.simps)
  have "keeps_cdc (persistCommand E m (SetIsInternal cx) (?rec r))" by (rule cdc_log_entry) simp_all
  from same_cdc.keeps_run [OF this r(2)] have "tCDC t2 = tCDC t" by simp
  with r show ?thesis
    by (intro exI [of _ ?e] exI [of _ r] exI [of _ r'] exI [of _ ?t1]) simp
qed

text \<open>
  The collection of the log: its schema is known to the writer, who is internal, it computes
  nothing and has no defaults.
\<close>

definition audit_collection :: "('r memtx, 'r) env \<Rightarrow> 'r ctx \<Rightarrow> 'r schema \<Rightarrow> bool" where
  "audit_collection E cx a \<longleftrightarrow> map_option fst (getSchema E (SetIsInternal cx) cdcCollectionName) = Some a \<and>
     map_option fst (getSchema E cx cdcCollectionName) = Some a \<and>
     plain_writes E (SetIsInternal cx) a \<and> scAuthz a = [] \<and>
     (\<forall>pv\<in>set (scPropertyPaths a). pCompute (snd pv) = None \<and> pDefault (snd pv) = None)"

text \<open>
  The encoding of a change record whose difference holds JSON values, with its key set: a
  document that can be stored under the id of the record and from which the fields that
  \<open>TimeTravel\<close> asks for, and the difference, are read back.
\<close>

definition json_diff :: "field_op list \<Rightarrow> bool" where
  "json_diff ops \<longleftrightarrow> (\<forall>op\<in>set ops. foOp op \<in> {JSONOpRemove, JSONOpAdd, JSONOpReplace} \<and>
     json_value (foValue op) \<and> json_value (foBefore op))"

definition logs :: "('s, 'r) env \<Rightarrow> 'r schema \<Rightarrow> (int \<Rightarrow> rat) \<Rightarrow> 'r cdc \<Rightarrow> 'r \<Rightarrow> bool" where
  "logs E a stamp e r \<longleftrightarrow> stored_doc E a (cdcID e) r \<and> doc_get (enJ E) r ''documentID'' = AStr (cdcDocumentID e) \<and>
     doc_get (enJ E) r ''collection'' = AStr (cdcCollection e) \<and>
     doc_get (enJ E) r ''timestamp'' = AFloat (stamp (cdcTimestamp e)) \<and> enScanDiff E r = Inr (cdcDiff e)"

definition audit_codec :: "('s, 'r) env \<Rightarrow> 'r schema \<Rightarrow> (int \<Rightarrow> rat) \<Rightarrow> bool" where
  "audit_codec E a stamp \<longleftrightarrow> (\<forall>n. good_id (enKsuid E n)) \<and>
     (\<forall>e r r'. enFromCDC E e = Inr r \<longrightarrow> good_id (cdcID e) \<longrightarrow> json_diff (cdcDiff e) \<longrightarrow>
       GetPrimaryKey (enJ E) a r = cdcID e \<and> (SetPrimaryKey (enJ E) a r (cdcID e) = Inr r' \<longrightarrow> logs E a stamp e r'))"

lemma create_plain:
  assumes "\<forall>pv\<in>set (scPropertyPaths a). pCompute (snd pv) = None \<and> pDefault (snd pv) = None"
    and run: "createDocument E cx a r t = (Inr r', t')"
  shows "SetPrimaryKey (enJ E) a r (GetPrimaryKey (enJ E) a r) = Inr r'"
proof -
  have "efold (\<lambda>pv document. ebind (compute_write E pv document) (\<lambda>document. lift_res (apply_default E pv document))) pvs d u
      = (Inr d, u)" if "set pvs \<subseteq> set (scPropertyPaths a)" for pvs d u
    using that assms(1)
    by (induction pvs) (auto simp: ebind_def compute_write_def apply_default_def)
  then show ?thesis using run by (auto simp: createDocument_def Let_def ebind_Inr_iff)
qed

lemma audit_named: "audit_collection E cx a \<Longrightarrow> scCollection a = cdcCollectionName"
  using schemas_named_get(1) by (fastforce simp: audit_collection_def plain_writes_def)

text \<open>A record is put into the log, and nothing else is.\<close>

lemma log_entry_put:
  assumes kv: "enKV E = \<lparr>opGet = mem_get, opSet = mem_set, opDel = mem_delete, opIter = mem_iter\<rparr>"
    and aud: "audit_collection E cx a" and ord: "in_order E cx a t"
    and r: "GetPrimaryKey (enJ E) a r = i" "good_id i" "\<And>r'. SetPrimaryKey (enJ E) a r i = Inr r' \<Longrightarrow> stored_doc E a i r'"
    and run: "persistCommand E (Suc (Suc m)) (SetIsInternal cx) \<lparr>pcCollection = cdcCollectionName, pcAction = CreateAction,
      pcDocument = r, pcTimestamp = ts, pcMetadata = meta\<rparr> t = (Inr r', t')"
  shows "SetPrimaryKey (enJ E) a r i = Inr r' \<and> stored E cx a t' = (stored E cx a t)(i \<mapsto> r') \<and> in_order E cx a t'"
proof -
  let ?cx = "SetIsInternal cx" and ?ns = "namespace (enJ E) cx"
  let ?cmd = "\<lparr>pcCollection = cdcCollectionName, pcAction = CreateAction, pcDocument = r, pcTimestamp = ts, pcMetadata = meta\<rparr>"
  from aud obtain cx1 where sch: "getSchema E ?cx (pcCollection ?cmd) = Some (a, cx1)"
    by (auto simp: audit_collection_def)
  have plain: "plain_writes E ?cx a" using aud by (simp add: audit_collection_def)
  then have wf: "schema_wf a" and named: "scCollection a = pcCollection ?cmd"
    using schemas_named_get(1) [OF _ sch] by (auto simp: plain_writes_def plain_reads_def)
  have ns: "namespace (enJ E) ?cx = ?ns" by simp
  have ok: "docs_ok E (namespace (enJ E) ?cx) a (mem.view (tKV t))" using in_order_docs [OF ord] by simp
  have good: "good_id (GetPrimaryKey (enJ E) a (pcDocument ?cmd))" using r by simp
  let ?old = "docs E ?ns a (mem.view (tKV t)) i"
  obtain ta tb tc meta ts' where kva: "tKV ta = tKV t"
    and app: "apply_action E (Suc m) (persistCommand E (Suc m)) ?cx a cdcCollectionName CreateAction i ?old r ta = (Inr r', tb)"
    and loop: "efold (\<lambda>idx _. wrap_eff 0 ''failed to update secondary index''
       (updateSecondaryIndex E (Suc m) ?cx cdcCollectionName idx i ?old CreateAction r')) (Indexing_map a) () tb = (Inr (), tc)"
    and log: "record_cdc E (persistCommand E (Suc m)) ?cx a ?cmd ts' meta ?old r' tc = (Inr (), t')"
    by (rule mem.persist_runE [OF kv sch plain good ok run]) (use r(1) ns in \<open>auto intro!: that\<close>)
  have same: "t' = tc" using log by (simp add: record_cdc_def)
  from app obtain t1 where "createDocument E ?cx a r ta = (Inr r', t1)"
    by (auto simp: apply_action_def Let_def ebind_Inr_iff)
  then have set: "SetPrimaryKey (enJ E) a r i = Inr r'"
    using create_plain aud r(1) by (auto simp: audit_collection_def)
  have "written E ?ns a i ?old (Some r') (mem.view (tKV t)) (mem.view (tKV t'))"
    by (rule mem.put_stages(1) [OF kv wf _ r(1) _ kva app loop, unfolded ns]) (use named same in auto)
  moreover from this have "in_order E cx a t'"
    unfolding in_order_def
    by (rule written_consistent [OF _ ord [unfolded in_order_def] r(2)]) (use r(2) r(3) [OF set] in \<open>auto simp: docs_def\<close>)
  ultimately show ?thesis
    using set written_docs r(2) by (simp add: stored_def)
qed

subsection \<open>Every write is logged\<close>

lemma audit_collection_ctx:
  assumes "audit_collection E cx a" "user_collection E cx collection c" "getSchema E cx collection = Some (c, cx1)"
  shows "audit_collection E cx1 a"
proof -
  have "scCollection c = collection" "collection \<noteq> cdcCollectionName" "schemas_named E cx"
    using user_collectionD [OF assms(2)] assms(2) schemas_named_get(1) [OF _ assms(3)]
    by (auto simp: user_collection_def plain_writes_def)
  moreover have "plain_writes E (SetIsInternal cx1) a"
    using assms(1,3) schemas_named_get(2) [OF calculation(3) assms(3)]
    by (auto simp: audit_collection_def plain_writes_def plain_reads_def schemas_named_def getSchema_def split: option.splits)
  ultimately show ?thesis
    using assms(1,3)
    by (auto simp: audit_collection_def getSchema_def schemaFromCtx_def schemaToCtx_def SetIsInternal_def split: option.splits if_splits)
qed

text \<open>
  A command that puts a document under an id appends one change record to the list of the
  transaction and puts it, encoded, into the log.
\<close>

lemma put_logged:
  assumes coll: "user_collection E cx collection c" "getSchema E cx collection = Some (c, cx1)"
    and aud: "audit_collection E cx a" "audit_codec E a stamp" and ord: "in_order E cx c t" "in_order E cx a t"
    and id: "GetPrimaryKey (enJ E) c document = docID" "good_id docID" and act: "act = SetAction \<or> act = CreateAction"
    and run: "commit_command E (Suc (Suc (Suc n))) cx1 collection act document msg t = (Inr d, t')"
    and sd: "stored_doc E c docID d" and jd: "json_diff (Diff (enJ E) d (stored E cx c t docID))"
    and clock: "enClock E (tTick t) \<noteq> 0"
  shows "\<exists>e r. tCDC t' = tCDC t @ [e] \<and> cdcCollection e = collection \<and> cdcAction e = act \<and> cdcDocumentID e = docID \<and>
    cdcDiff e = Diff (enJ E) d (stored E cx c t docID) \<and> cdcTimestamp e = enClock E (tTick t) \<and>
    logs E a stamp e r \<and> stored E cx a t' = (stored E cx a t)(cdcID e \<mapsto> r) \<and> in_order E cx a t'"
proof -
  from coll obtain g: "getSchema E cx1 collection = Some (c, cx1)" "plain_writes E cx1 c"
      "namespace (enJ E) cx1 = namespace (enJ E) cx" "scCollection c = collection"
    and kv: "enKV E = \<lparr>opGet = mem_get, opSet = mem_set, opDel = mem_delete, opIter = mem_iter\<rparr>"
    and coll': "collection \<noteq> cdcCollectionName" "nul \<notin> set collection"
    by (elim user_collectionE) auto
  let ?t = "t\<lparr>tTick := Suc (tTick t)\<rparr>" and ?old = "stored E cx c t docID"
  let ?cmd = "\<lparr>pcCollection = collection, pcAction = act, pcDocument = document, pcTimestamp = enClock E (tTick t),
      pcMetadata = Some (ExtractMetadata (enJ E) cx1)\<rparr>"
  have p: "persistCommand E (Suc (Suc (Suc n))) cx1 ?cmd ?t = (Inr d, t')"
    using run by (auto simp: commit_command_def ebind_Inr_iff draw_def simp del: persistCommand.simps)
  have ok: "docs_ok E (namespace (enJ E) cx1) c (mem.view (tKV ?t))" using in_order_docs [OF ord(1)] g(3) by simp
  have sch: "getSchema E cx1 (pcCollection ?cmd) = Some (c, cx1)" using g(1) by simp
  have good: "good_id (GetPrimaryKey (enJ E) c (pcDocument ?cmd))" using id by simp
  obtain ta tb tc meta where kva: "tKV ta = tKV t" "tCDC ta = tCDC t"
    and app: "apply_action E (Suc (Suc n)) (persistCommand E (Suc (Suc n))) cx1 c collection act docID ?old document ta = (Inr d, tb)"
    and loop: "efold (\<lambda>i _. wrap_eff 0 ''failed to update secondary index''
       (updateSecondaryIndex E (Suc (Suc n)) cx1 collection i docID ?old act d)) (Indexing_map c) () tb = (Inr (), tc)"
    and log: "record_cdc E (persistCommand E (Suc (Suc n))) cx1 c ?cmd (enClock E (tTick t)) meta ?old d tc = (Inr (), t')"
    by (rule mem.persist_runE [OF kv sch g(2) good ok p]) (use id(1) g(3) clock in \<open>auto simp: stored_def intro!: that\<close>)
  have wf: "schema_wf c" using g(2) by (simp add: plain_writes_def plain_reads_def)
  have other: "tCDC tc = tCDC t"
  proof -
    have 1: "keeps_cdc (apply_action E (Suc (Suc n)) (persistCommand E (Suc (Suc n))) cx1 c collection act docID ?old document)"
      by (rule cdc_put) (use act in auto)
    have 2: "keeps_cdc (efold (\<lambda>i _. wrap_eff 0 ''failed to update secondary index''
       (updateSecondaryIndex E (Suc (Suc n)) cx1 collection i docID ?old act d)) (Indexing_map c) ())"
      by (auto intro!: cdc_rules cdc_secondary)
    show ?thesis using same_cdc.keeps_run [OF 1 app] same_cdc.keeps_run [OF 2 loop] kva(2) by simp
  qed
  obtain e r r' t1 where e: "tCDC t' = tCDC t @ [e]" "cdcCollection e = collection" "cdcAction e = act"
      "cdcDocumentID e = GetPrimaryKey (enJ E) c d" "cdcDiff e = Diff (enJ E) d ?old" "cdcTimestamp e = enClock E (tTick t)"
      "cdcID e = enKsuid E (tTick tc)"
    and t1: "tKV t1 = tKV tc" and r: "enFromCDC E e = Inr r"
    and put: "persistCommand E (Suc (Suc n)) (SetIsInternal cx1) \<lparr>pcCollection = cdcCollectionName, pcAction = CreateAction,
      pcDocument = r, pcTimestamp = enClock E (tTick t), pcMetadata = meta\<rparr> t1 = (Inr r', t'\<lparr>tCDC := tCDC tc\<rparr>)"
    using record_cdc_run [OF log] coll'(1) other by auto
  have eid: "good_id (cdcID e)" using aud(2) e(7) by (simp add: audit_codec_def)
  have codec: "GetPrimaryKey (enJ E) a r = cdcID e" "\<And>r'. SetPrimaryKey (enJ E) a r (cdcID e) = Inr r' \<Longrightarrow> logs E a stamp e r'"
    using aud(2) r eid jd e(5) by (auto simp: audit_codec_def)
  have key: "GetPrimaryKey (enJ E) c d = docID"
    using sd g(2) by (simp add: stored_doc_def GetPrimaryKey_def GetString_def plain_writes_def plain_reads_def)
  have keys: "\<forall>k\<in>coll_keys E cx a. mem.view (tKV t1) k = mem.view (tKV t) k"
  proof
    fix k assume k: "k \<in> coll_keys E cx a"
    have "frame mem.view (coll_region (namespace (enJ E) cx1) (scCollection c)) (tKV t) (tKV tc)"
      by (rule mem.put_stages(3) [OF kv wf g(4) id(1) act kva(1) app loop]) (rule ballI, rule refl)
    moreover have "k \<notin> coll_region (namespace (enJ E) cx1) (scCollection c)"
      using coll_region_disjoint [of k "namespace (enJ E) cx" collection cdcCollectionName] k coll' g(2-4) audit_named [OF aud(1)]
      by (auto simp: plain_writes_def cdcCollectionName_def)
    ultimately show "mem.view (tKV t1) k = mem.view (tKV t) k" by (simp add: frame_def t1)
  qed
  note same = same_keys_stored(1) [OF keys] same_keys_stored(2) [OF keys ord(2)]
  have aud1: "audit_collection E cx1 a" by (rule audit_collection_ctx [OF aud(1) coll])
  have ns: "stored E cx1 = stored E cx" "in_order E cx1 = in_order E cx"
    using g(3) by (simp_all add: fun_eq_iff stored_def in_order_def)
  from log_entry_put [OF kv aud1 _ codec(1) eid _ put] same codec(2)
  have "SetPrimaryKey (enJ E) a r (cdcID e) = Inr r'" "stored E cx a t' = (stored E cx a t)(cdcID e \<mapsto> r')" "in_order E cx a t'"
    unfolding ns by (auto simp: logs_def stored_def in_order_def)
  with e key codec(2) show ?thesis by blast
qed

lemma set_logged:
  assumes "user_collection E cx collection c" and "audit_collection E cx a" and "audit_codec E a stamp"
    and "in_order E cx c t" and "in_order E cx a t" and "GetPrimaryKey (enJ E) c document = docID" and "good_id docID"
    and "tx_Set E (Suc (Suc (Suc n))) cx collection document t = (Inr d, t')" and "stored_doc E c docID d"
    and "json_diff (Diff (enJ E) d (stored E cx c t docID))" and "enClock E (tTick t) \<noteq> 0"
  shows "\<exists>e r. tCDC t' = tCDC t @ [e] \<and> cdcCollection e = collection \<and> cdcAction e = SetAction \<and> cdcDocumentID e = docID \<and>
    cdcDiff e = Diff (enJ E) d (stored E cx c t docID) \<and> cdcTimestamp e = enClock E (tTick t) \<and>
    logs E a stamp e r \<and> stored E cx a t' = (stored E cx a t)(cdcID e \<mapsto> r) \<and> in_order E cx a t'"
proof -
  obtain cx1 where g: "getSchema E cx collection = Some (c, cx1)" by (rule user_collectionE [OF assms(1)])
  then have run: "commit_command E (Suc (Suc (Suc n))) cx1 collection SetAction document ''tx: failed to commit set'' t = (Inr d, t')"
    using assms(8) by (simp add: tx_Set_def)
  show ?thesis by (rule put_logged [OF assms(1) g assms(2-7) _ run assms(9-11)]) simp
qed

text \<open>
  C7: every write is logged: a \<open>Set\<close> that succeeds appends one change record to the list that the
  commit publishes, with the id of the document, the time of the command and the difference
  between the stored versions, and puts that record into the audit collection, which is
  otherwise unchanged and stays in order.
\<close>

theorem set_is_recorded:
  assumes "user_collection E cx collection c" and "audit_collection E cx a" and "audit_codec E a stamp"
    and "in_order E cx c t" and "in_order E cx a t" and "GetPrimaryKey (enJ E) c document = docID" and "good_id docID"
    and "tx_Set E (Suc (Suc (Suc n))) cx collection document t = (Inr d, t')" and "stored_doc E c docID d"
    and "json_diff (Diff (enJ E) d (stored E cx c t docID))" and "enClock E (tTick t) \<noteq> 0"
  shows "\<exists>e r. tCDC t' = tCDC t @ [e] \<and> cdcCollection e = collection \<and> cdcAction e = SetAction \<and> cdcDocumentID e = docID \<and>
    cdcDiff e = Diff (enJ E) d (stored E cx c t docID) \<and> cdcTimestamp e = enClock E (tTick t) \<and>
    logs E a stamp e r \<and> stored E cx a t' = (stored E cx a t)(cdcID e \<mapsto> r) \<and> in_order E cx a t'"
  using assms by (rule set_logged)

subsection \<open>A log for the witnesses\<close>

text \<open>The schema of \<open>cdc.yaml\<close>, with its three indexes, and a flat encoding of the records.\<close>

definition log_index :: "string \<Rightarrow> string list \<Rightarrow> index_c" where
  "log_index name fs = \<lparr>iName = name, iFields = fs, iUnique = False, iPrimary = False, iForeignKey = None\<rparr>"

definition cdc_schema :: "any kvs schema" where
  "cdc_schema = (plain_schema ''system_cdc'' [
     (''collection_document_idx'', log_index ''collection_document_idx'' [''collection'', ''documentID'']),
     (''document_id_idx'', log_index ''document_id_idx'' [''documentID'']),
     (''timestamp_idx'', log_index ''timestamp_idx'' [''timestamp''])] True)\<lparr>scReadOnly := True\<rparr>"

definition op_text :: "json_op \<Rightarrow> string" where
  "op_text oper = (case oper of JSONOpRemove \<Rightarrow> ''remove'' | JSONOpAdd \<Rightarrow> ''add'' | JSONOpReplace \<Rightarrow> ''replace'' | JSONOpOther s \<Rightarrow> s)"

definition text_op :: "string \<Rightarrow> json_op" where
  "text_op s = (if s = ''remove'' then JSONOpRemove else if s = ''add'' then JSONOpAdd
     else if s = ''replace'' then JSONOpReplace else JSONOpOther s)"

definition op_json :: "field_op \<Rightarrow> any" where
  "op_json oper = AMap [(''path'', AStr (foPath oper)), (''op'', AStr (op_text (foOp oper))), (''value'', foValue oper),
     (''beforeValue'', foBefore oper)]"

fun json_ops :: "any list \<Rightarrow> field_op list" where
  "json_ops (AMap [(_, AStr p), (_, AStr s), (_, v), (_, b)] # vs) =
     \<lparr>foPath = p, foOp = text_op s, foValue = v, foBefore = b\<rparr> # json_ops vs"
| "json_ops _ = []"

definition audit_env :: "(any kvs memtx, any kvs) env" where
  "audit_env = (flat_env [(''user'', user_schema), (''system_cdc'', cdc_schema)])\<lparr>
     enFromCDC := (\<lambda>e. Inr [(''_id'', AStr (cdcID e)), (''collection'', AStr (cdcCollection e)),
        (''action'', AStr (action_text (cdcAction e))), (''documentID'', AStr (cdcDocumentID e)),
        (''diff'', ASlice (map op_json (cdcDiff e))),
        (''timestamp'', AFloat (of_int (cdcTimestamp e)))]),
     enScanDiff := (\<lambda>d. Inr (case map_of d ''diff'' of Some (ASlice vs) \<Rightarrow> json_ops vs | _ \<Rightarrow> []))\<rparr>"

lemma json_ops_round: "json_diff ops \<Longrightarrow> json_ops (map op_json ops) = ops"
  by (induction ops) (auto simp: json_diff_def op_json_def op_text_def text_op_def)

lemma show_nat_nul: "nul \<notin> set (show_nat n)"
proof (induction n rule: show_nat.induct)
  case (1 n)
  have digit: "char_of (48 + d) \<noteq> nul" if "d < 10" for d :: nat
  proof
    assume "char_of (48 + d) = nul"
    then have "of_char (char_of (48 + d)) = (of_char nul :: nat)" by simp
    with that show False by simp
  qed
  then have "char_of (48 + n mod 10) \<noteq> nul" "n < 10 \<Longrightarrow> char_of (48 + n) \<noteq> nul" by simp_all
  with 1 show ?case by (subst show_nat.simps) auto
qed

lemma audit_env_parts [simp]: "enJ audit_env = flat_json" "enKV audit_env = mem_ops" "enKsuid audit_env = (\<lambda>n. ''k'' @ show_nat n)"
  "enClock audit_env = (\<lambda>n. int n + 1)" "enOpt audit_env = Optimize" "enSlice audit_env xs i j = take (nat (j - i)) (drop (nat i) xs)"
  by (simp_all add: audit_env_def flat_env_def)

lemma audit_env_collections: "user_collection audit_env user_ctx ''user'' user_schema" "audit_collection audit_env user_ctx cdc_schema"
  by (simp_all add: audit_env_def user_collection_def audit_collection_def flat_env_def getSchema_def schemaFromCtx_def user_ctx_def
      SetIsInternal_def plain_writes_def plain_reads_def schemas_named_def schema_wf_def user_schema_def cdc_schema_def plain_schema_def
      pk_index_def by_name_def log_index_def computed_reads_def keys_def cdcCollectionName_def namespace_def GetMetadataValue_def
      flat_json_cast flat_json_flatten)

lemma audit_env_codec: "audit_codec audit_env cdc_schema of_int"
proof -
  have "good_id (''k'' @ show_nat n)" for n
    using show_nat_nul by (simp add: good_id_def null_text_def HasPrefix_def selfRefPrefix_def)
  then show ?thesis
    by (auto simp: audit_codec_def audit_env_def flat_env_def logs_def stored_doc_def doc_valid_def GetPrimaryKey_def GetString_def
        SetPrimaryKey_def doc_set_def SetAll_def doc_set1_def lift_err_def wrapping_def doc_get_def PrimaryKey_def cdc_schema_def plain_schema_def
        pk_index_def flat_json_def json_ops_round split: sum.splits)
qed

text \<open>A user is stored, and stored again with another name.\<close>

definition first_set :: "(any kvs memtx, any kvs) txn" where
  "first_set = snd (tx_Set audit_env (Suc (Suc (Suc 0))) user_ctx ''user'' ann fresh_tx)"

definition second_set :: "(any kvs memtx, any kvs) txn" where
  "second_set = snd (tx_Set audit_env (Suc (Suc (Suc 0))) user_ctx ''user'' bob first_set)"

text \<open>The two runs, evaluated once: their results, the clock and the ids of the records, the keys of the log, and a \<open>Revert\<close> after them.\<close>

definition separated :: "string \<Rightarrow> any kvs schema \<Rightarrow> bytes \<Rightarrow> bool" where
  "separated ns c k \<longleftrightarrow> list_all (\<lambda>i. prefix (indexPrefix ns (scCollection c) (iName i)) k \<longrightarrow>
     prefix (indexPrefix ns (scCollection c) (iName i) @ [nul]) k) (Indexing_map c)"

lemma sets_evaluated: "case tx_Set audit_env (Suc (Suc (Suc 0))) user_ctx ''user'' ann fresh_tx of (r1, t1) \<Rightarrow>
    r1 = Inr ann \<and> tTick t1 = 2 \<and> (case tx_Set audit_env (Suc (Suc (Suc 0))) user_ctx ''user'' bob t1 of (r2, t2) \<Rightarrow>
    r2 = Inr bob \<and> map cdcID (tCDC t2) = [''k1'', ''k3''] \<and>
    list_all (\<lambda>kv. separated ''default'' cdc_schema (fst kv)) (mt_data (tKV t2)) \<and>
    fst (Revert audit_env (Suc (Suc (Suc 0))) user_ctx ''user'' ''a'' 2 t2) = Inr ())"
  by code_simp

lemma set_eqs: "tx_Set audit_env (Suc (Suc (Suc 0))) user_ctx ''user'' ann fresh_tx = (Inr ann, first_set)"
  "tx_Set audit_env (Suc (Suc (Suc 0))) user_ctx ''user'' bob first_set = (Inr bob, second_set)"
  and set_traces: "tTick first_set = 2" "map cdcID (tCDC second_set) = [''k1'', ''k3'']"
  "list_all (\<lambda>kv. separated ''default'' cdc_schema (fst kv)) (mt_data (tKV second_set))"
  and revert_succeeds: "fst (Revert audit_env (Suc (Suc (Suc 0))) user_ctx ''user'' ''a'' 2 second_set) = Inr ()"
  using sets_evaluated unfolding first_set_def second_set_def case_prod_beta prod_eq_iff fst_conv snd_conv by (elim conjE; assumption | simp only:)+

lemma audit_ids: "GetPrimaryKey (enJ audit_env) user_schema ann = ''a''" "GetPrimaryKey (enJ audit_env) user_schema bob = ''a''"
  "stored_doc audit_env user_schema ''a'' ann" "stored_doc audit_env user_schema ''a'' bob"
  using witness_ids by (simp_all add: stored_doc_def user_env_def flat_env_def)

lemma set_diffs: "json_diff (Diff (enJ audit_env) ann None)" "json_diff (Diff (enJ audit_env) bob (Some ann))"
  by code_simp+

lemma first_set_stored: "stored audit_env user_ctx user_schema first_set = [''a'' \<mapsto> ann]" "in_order audit_env user_ctx user_schema first_set"
  using set_put [OF audit_env_collections(1) fresh_in_order(1) audit_ids(1) witness_ids(1) set_eqs(1) audit_ids(3)] fresh_in_order(2)
  by (simp_all add: fun_eq_iff)

lemma first_set_logged: "\<exists>e r. tCDC first_set = [e] \<and> cdcCollection e = ''user'' \<and> cdcDocumentID e = ''a'' \<and>
    cdcDiff e = Diff (enJ audit_env) ann None \<and> cdcTimestamp e = 1 \<and> logs audit_env cdc_schema of_int e r \<and>
    stored audit_env user_ctx cdc_schema first_set = [cdcID e \<mapsto> r] \<and> in_order audit_env user_ctx cdc_schema first_set"
proof -
  have none: "stored audit_env user_ctx c fresh_tx = Map.empty" for c using fresh_in_order(2) by (simp add: fun_eq_iff)
  have tick: "tTick fresh_tx = 0" "tCDC fresh_tx = []" by (simp_all add: fresh_tx_def)
  from set_logged [OF audit_env_collections audit_env_codec fresh_in_order(1) fresh_in_order(1) audit_ids(1) witness_ids(1) set_eqs(1) audit_ids(3)]
  show ?thesis using set_diffs(1) by (simp add: none tick) blast
qed

theorem set_is_recorded_witness:
  "\<exists>e r. tCDC second_set = tCDC first_set @ [e] \<and> cdcDocumentID e = ''a'' \<and> cdcDiff e = Diff (enJ audit_env) bob (Some ann) \<and>
    stored audit_env user_ctx cdc_schema second_set = (stored audit_env user_ctx cdc_schema first_set)(cdcID e \<mapsto> r)"
proof -
  have log: "in_order audit_env user_ctx cdc_schema first_set" using first_set_logged by blast
  from set_is_recorded [OF audit_env_collections audit_env_codec first_set_stored(2) log audit_ids(2) witness_ids(1) set_eqs(2) audit_ids(4)]
  show ?thesis using set_diffs(2) by (simp add: first_set_stored(1)) blast
qed

end
