(* ===== verification/Chronicle.thy ===== *)
theory Chronicle
  imports AuditLog
begin

text \<open>
  \<open>TimeTravel\<close> over the log that writes leave: \<open>chronicled\<close> says that the change records of a
  document from a time on, newest first, lead from its present version back through the
  versions it had. A write of the document keeps it, with one more version in front, and
  \<open>TimeTravel\<close> gets from it back to the oldest.
\<close>

subsection \<open>The versions of a document\<close>

definition period :: "string \<Rightarrow> string \<Rightarrow> int \<Rightarrow> where_c list" where
  "period collection docID ns = qWhere (time_travel_query collection docID ns)"

definition newest_first :: "order_by list" where
  "newest_first = [\<lparr>obDirection = Desc, obField = ''timestamp''\<rparr>]"

fun chronicle :: "('s, 'r) env \<Rightarrow> 'r list \<Rightarrow> 'r list \<Rightarrow> bool" where
  "chronicle E [v] [] = True"
| "chronicle E (v # w # vs) (r # rs) = (enScanDiff E r = Inr (Diff (enJ E) v (Some w)) \<and> chronicle E (w # vs) rs)"
| "chronicle E _ _ = False"

definition newer :: "('s, 'r) env \<Rightarrow> 'r \<Rightarrow> 'r \<Rightarrow> bool" where
  "newer E r s \<longleftrightarrow> (\<exists>x y. doc_get (enJ E) r ''timestamp'' = AFloat x \<and> doc_get (enJ E) s ''timestamp'' = AFloat y \<and> y < x)"

definition dated :: "('s, 'r) env \<Rightarrow> 'r \<Rightarrow> bool" where
  "dated E r \<longleftrightarrow> (\<exists>x. doc_get (enJ E) r ''timestamp'' = AFloat x)"

definition chronicled ::
  "('r memtx, 'r) env \<Rightarrow> 'r ctx \<Rightarrow> 'r schema \<Rightarrow> string \<Rightarrow> string \<Rightarrow> int \<Rightarrow> 'r list \<Rightarrow> ('r memtx, 'r) txn \<Rightarrow> bool" where
  "chronicled E cx a collection docID ns vs t \<longleftrightarrow>
     (\<exists>ids. distinct ids \<and> set ids = matching E cx a t (period collection docID ns) \<and>
        (let rs = map (\<lambda>i. the (stored E cx a t i)) ids
         in chronicle E vs rs \<and> sorted_wrt (newer E) rs \<and> (\<forall>r\<in>set rs. dated E r)))"

text \<open>A list that is sorted strictly is the only sorted list of its elements.\<close>

lemma sorted_unique:
  assumes "mset xs = mset ys" "sorted_wrt P ys" "sorted_wrt Q xs" "\<And>x y. P x y \<Longrightarrow> \<not> Q y x"
  shows "xs = ys"
  using assms(1-3)
proof (induction ys arbitrary: xs)
  case (Cons y ys)
  then obtain x xs' where xs: "xs = x # xs'" by (cases xs) auto
  have "x = y"
  proof (rule ccontr)
    assume ne: "x \<noteq> y"
    have "x \<in> set (y # ys)" "y \<in> set xs" using Cons.prems(1) xs mset_eq_setD by fastforce+
    with ne xs have "x \<in> set ys" "y \<in> set xs'" by auto
    then have "P y x" "Q x y" using Cons.prems(2,3) xs by auto
    with assms(4) show False by blast
  qed
  with Cons.IH [of xs'] Cons.prems xs show ?case by simp
qed simp

lemma chronicle_length: "chronicle E vs rs \<Longrightarrow> length vs = Suc (length rs)"
  by (induction E vs rs rule: chronicle.induct) auto

text \<open>The query of \<open>TimeTravel\<close> finds the records of the chronicle in their order.\<close>

lemma newer_sorts: "newer E r s \<Longrightarrow> sorts_before (enJ E) newest_first r s"
  by (auto simp: newer_def newest_first_def)

lemma ranked_chronicle:
  assumes "ranked E cx a t ws newest_first rs" "distinct ids" "set ids = matching E cx a t ws"
    and "sorted_wrt (newer E) (map (\<lambda>i. the (stored E cx a t i)) ids)"
  shows "rs = map (\<lambda>i. the (stored E cx a t i)) ids"
proof (rule sorted_unique)
  show "mset rs = mset (map (\<lambda>i. the (stored E cx a t i)) ids)"
    using assms(1-3) mset_set_set [of ids] by (simp add: ranked_def)
  show "sorted_wrt (newer E) (map (\<lambda>i. the (stored E cx a t i)) ids)" by (rule assms(4))
  show "sorted_wrt (\<lambda>d e. \<not> sorts_before (enJ E) newest_first e d) rs"
    using assms(1) by (simp add: ranked_def newest_first_def)
  show "\<And>r s. newer E r s \<Longrightarrow> \<not> \<not> sorts_before (enJ E) newest_first r s"
    by (simp add: newer_sorts)
qed

text \<open>Reverting the records of a chronicle one by one.\<close>

lemma chronicle_reverts:
  assumes "json_laws (enJ E) R P" "chronicle E vs rs" "\<forall>v\<in>set vs. doc_ok (enJ E) P v" "R d" "shows_version (enJ E) (hd vs) d"
  shows "\<exists>d'. rfold (\<lambda>r d. rbind (enScanDiff E r) (\<lambda>diff. RevertOps (enJ E) diff d)) rs d = Inr d' \<and>
    R d' \<and> shows_version (enJ E) (last vs) d'"
  using assms
proof (induction E vs rs arbitrary: d rule: chronicle.induct)
  case (2 E v w vs r rs)
  have ok: "doc_ok (enJ E) P v" "doc_ok (enJ E) P w" and r: "enScanDiff E r = Inr (Diff (enJ E) v (Some w))"
    using 2 by simp_all
  obtain d1 where d1: "RevertOps (enJ E) (Diff (enJ E) v (Some w)) d = Inr d1" "R d1" "shows_version (enJ E) w d1"
    using RevertOps_version [OF 2(2,5) ok] 2(6) by auto
  with 2(1) [of d1] 2(2-4) r show ?case by simp
qed auto

subsection \<open>Going back\<close>

lemma audit_reads:
  assumes "audit_collection E cx a"
  shows "plain_reads E cx a"
  using assms by (auto simp: audit_collection_def plain_writes_def plain_reads_def)

lemma chronicled_travel:
  assumes user: "user_collection E cx collection c" "in_order E cx c t" and id: "good_id docID" "stored E cx c t docID = Some v"
    and aud: "audit_collection E cx a" "in_order E cx a t" "answerable E cx a t (period collection docID ns)"
    and query: "plain_query E (time_travel_query collection docID ns)"
    and log: "chronicled E cx a collection docID ns vs t" "hd vs = v" "1 < length vs"
    and docs: "json_laws (enJ E) R P" "R v" "\<forall>w\<in>set vs. doc_ok (enJ E) P w"
  shows "\<exists>d'. TimeTravel E (Suc (Suc m)) cx collection docID ns t = (Inr d', t) \<and> R d' \<and> shows_version (enJ E) (last vs) d'"
proof -
  obtain cx1 where g: "getSchema E cx collection = Some (c, cx1)" "scCollection c = collection"
    and kv: "enKV E = \<lparr>opGet = mem_get, opSet = mem_set, opDel = mem_delete, opIter = mem_iter\<rparr>"
    by (rule user_collectionE [OF user(1)])
  have plain: "plain_reads E cx c" using user(1) by (simp add: user_collection_def plain_writes_def)
  then have cast: "cast_laws (enJ E)" by (simp add: plain_reads_def)
  have get: "tx_get E (Suc (Suc m)) cx collection docID t = (Inr v, t)"
    using mem.tx_get_docs [OF kv g plain id(1) in_order_docs [OF user(2)], of "Suc m"] id(2) by (simp add: stored_def)
  from log(1) obtain ids where ids: "distinct ids" "set ids = matching E cx a t (period collection docID ns)"
    and ch: "chronicle E vs (map (\<lambda>i. the (stored E cx a t i)) ids)"
    and newest: "sorted_wrt (newer E) (map (\<lambda>i. the (stored E cx a t i)) ids)"
    and dated: "\<forall>i\<in>set ids. dated E (the (stored E cx a t i))"
    by (auto simp: chronicled_def Let_def)
  let ?rs = "map (\<lambda>i. the (stored E cx a t i)) ids"
  from aud(1) obtain cx2 where ga: "getSchema E cx cdcCollectionName = Some (a, cx2)"
    by (auto simp: audit_collection_def)
  have sort: "sortable (enJ E) newest_first ((\<lambda>i. the (stored E cx a t i)) ` matching E cx a t (period collection docID ns))"
    using dated ids(2) by (auto simp: sortable_def newest_first_def dated_def)
  let ?q = "time_travel_query collection docID ns"
  have q: "qWhere ?q = period collection docID ns" "qOrderBy ?q = newest_first" "qLimit ?q = 0" "qPage ?q = 0"
    by (simp_all add: period_def time_travel_query_def newest_first_def empty_query_def)
  from mem_query_ranked [OF kv ga audit_named [OF aud(1)] audit_reads [OF aud(1)] aud(2,3) cast sort, of m] q query
  obtain rs match where "ranked E cx a t (period collection docID ns) newest_first rs"
    and run: "tx_query E (Suc (Suc m)) cx cdcCollectionName ?q t = (Inr (page_of E ?q match rs), t)" by blast
  then have rs: "rs = ?rs" using ranked_chronicle [OF _ ids newest] by blast
  have pg: "pgDocuments (page_of E ?q match rs) = ?rs" using q(3) by (simp add: page_of_def paginate_def rs)
  have "?rs \<noteq> []" using chronicle_length [OF ch] log(3) by auto
  moreover obtain d' where "rfold (\<lambda>r d. rbind (enScanDiff E r) (\<lambda>diff. RevertOps (enJ E) diff d)) ?rs v = Inr d'"
    "R d'" "shows_version (enJ E) (last vs) d'"
    using chronicle_reverts [OF docs(1) ch docs(3,2)] shows_version_refl log(2) by metis
  ultimately show ?thesis
    using get run pg by (auto simp: TimeTravel_def ebind_def simp del: tx_query.simps)
qed

text \<open>
  C4: \<open>TimeTravel\<close> goes back through the log: when the change records of a document since a time
  lead through its versions since then, it returns a document with every field that the
  version of that time had, other than null, and with its values. It writes nothing.
\<close>

theorem time_travel_restores:
  assumes "user_collection E cx collection c" and "in_order E cx c t" and "good_id docID" and "stored E cx c t docID = Some v"
    and "audit_collection E cx a" and "in_order E cx a t" and "answerable E cx a t (period collection docID ns)"
    and "plain_query E (time_travel_query collection docID ns)"
    and "chronicled E cx a collection docID ns vs t" and "hd vs = v" and "1 < length vs"
    and "json_laws (enJ E) R P" and "R v" and "\<forall>w\<in>set vs. doc_ok (enJ E) P w"
  shows "\<exists>d'. TimeTravel E (Suc (Suc m)) cx collection docID ns t = (Inr d', t) \<and>
    (\<forall>p\<in>set (FieldPaths (enJ E) (last vs)). doc_get (enJ E) (last vs) p \<noteq> ANil \<longrightarrow>
       same_value (gjGet (enJ E) d' p) (gjGet (enJ E) (last vs) p))"
  using chronicled_travel [OF assms] unfolding shows_version_def by blast

subsection \<open>Writing the old version\<close>

text \<open>Without computed, default and immutable properties a \<open>Set\<close> stores the document it is given.\<close>

definition as_given :: "'r schema \<Rightarrow> bool" where
  "as_given c \<longleftrightarrow> (\<forall>pv\<in>set (scPropertyPaths c). pCompute (snd pv) = None \<and> pDefault (snd pv) = None \<and> \<not> pImmutable (snd pv))"

lemma set_as_given:
  assumes "as_given c" and run: "setDocument E cx c docID before document t = (Inr d, t')"
  shows "d = document"
proof -
  have "efold (\<lambda>pv document. ebind (compute_write E pv document) (\<lambda>document.
             lift_res (rbind (apply_default E pv document) (\<lambda>document.
               case before of
                 None \<Rightarrow> Inr document
               | Some b \<Rightarrow> if pImmutable (snd pv)
                   then rbind (iface_neq (doc_get (enJ E) document (fst pv)) (doc_get (enJ E) b (fst pv)))
                     (\<lambda>ne. if ne then keep_immutable E b pv document else Inr document)
                   else Inr document)))) pvs x u = (Inr x, u)" if "set pvs \<subseteq> set (scPropertyPaths c)" for pvs x u
    using that assms(1)
    by (induction pvs) (auto simp: as_given_def ebind_def compute_write_def apply_default_def split: option.split)
  then show ?thesis using run by (auto simp: setDocument_def ebind_Inr_iff split: if_splits)
qed

lemma tx_Set_as_given:
  assumes user: "user_collection E cx collection c" "in_order E cx c t" "as_given c"
    and id: "GetPrimaryKey (enJ E) c document = docID" "good_id docID"
    and run: "tx_Set E (Suc (Suc n)) cx collection document t = (Inr d, t')"
  shows "d = document"
proof -
  obtain cx1 where g: "getSchema E cx collection = Some (c, cx1)" "getSchema E cx1 collection = Some (c, cx1)"
      "plain_writes E cx1 c" "namespace (enJ E) cx1 = namespace (enJ E) cx"
    and kv: "enKV E = \<lparr>opGet = mem_get, opSet = mem_set, opDel = mem_delete, opIter = mem_iter\<rparr>"
    by (rule user_collectionE [OF user(1)])
  have "commit_command E (Suc (Suc n)) cx1 collection SetAction document ''tx: failed to commit set'' t = (Inr d, t')"
    using run g(1) by (simp add: tx_Set_def)
  then obtain now where p: "persistCommand E (Suc (Suc n)) cx1 \<lparr>pcCollection = collection, pcAction = SetAction, pcDocument = document,
      pcTimestamp = now, pcMetadata = Some (ExtractMetadata (enJ E) cx1)\<rparr> (t\<lparr>tTick := Suc (tTick t)\<rparr>) = (Inr d, t')"
    by (rule commit_commandE)
  have ok: "docs_ok E (namespace (enJ E) cx1) c (mem.view (tKV (t\<lparr>tTick := Suc (tTick t)\<rparr>)))"
    using in_order_docs [OF user(2)] g(4) by simp
  obtain before ta tb where "apply_action E (Suc n) (persistCommand E (Suc n)) cx1 c collection SetAction docID before document ta = (Inr d, tb)"
    by (rule mem.persist_runE [OF kv _ g(3) _ ok p]) (use g(2) id in \<open>auto intro: that\<close>)
  then show ?thesis using set_as_given [OF user(3)] by (auto simp: apply_action_def Let_def ebind_Inr_iff)
qed

text \<open>The version that \<open>TimeTravel\<close> returns has the primary key of the version it goes back to.\<close>

lemma shows_version_key:
  assumes "shows_version L v d" "k \<in> set (FieldPaths L v)" "gjGet L v k = Some (AStr s)"
  shows "doc_get L d k = AStr s"
proof -
  have "map_option canon (gjGet L d k) = Some (AStr s)"
    using assms by (auto simp: shows_version_def doc_get_def same_value_def)
  then obtain x where "gjGet L d k = Some x" "canon x = AStr s" by auto
  then show ?thesis by (cases x) (auto simp: doc_get_def)
qed


subsection \<open>Writing the chronicle\<close>

text \<open>The clauses of \<open>TimeTravel\<close> are plain: no id and no number reads as a reference to a field.\<close>

definition plain_period :: "('s, 'r) env \<Rightarrow> string \<Rightarrow> string \<Rightarrow> int \<Rightarrow> bool" where
  "plain_period E collection docID ns \<longleftrightarrow> good_id docID \<and> good_id collection \<and>
     \<not> HasPrefix (ToString (enJ E) (ANum KInt64 (of_int ns))) selfRefPrefix"

lemma period_decides:
  assumes cast: "cast_laws (enJ E)" and plain: "plain_period E collection docID ns"
    and r: "doc_get (enJ E) r ''documentID'' = AStr i" "doc_get (enJ E) r ''collection'' = AStr k" "doc_get (enJ E) r ''timestamp'' = AFloat x"
  shows "doc_where (enJ E) r (period collection docID ns) = Inr (i = docID \<and> k = collection \<and> of_int ns \<le> x)"
proof -
  let ?eq = "\<lambda>f s. \<lparr>wField = f, wOp = WEq, wValue = AStr s\<rparr>"
    and ?ge = "\<lparr>wField = ''timestamp'', wOp = WGte, wValue = ANum KInt64 (of_int ns)\<rparr>"
  have str: "where_clause (enJ E) r (?eq f s) = Inr (if doc_get (enJ E) r f = AStr s then Continue else Reject)" if "good_id s" for f s
  proof -
    have o: "operand (enJ E) r (?eq f s) = AStr s" using that cast by (simp add: operand_def good_id_def)
    then have "clause_safe (enJ E) r (?eq f s)" by (simp add: clause_safe_def)
    with o that show ?thesis by (simp add: where_clause_spec [OF cast] clause_spec_def Let_def good_id_def)
  qed
  have "operand (enJ E) r ?ge = ANum KInt64 (of_int ns)" using plain by (simp add: operand_def plain_period_def)
  moreover from this have "clause_safe (enJ E) r ?ge" by (simp add: clause_safe_def)
  ultimately have ge: "where_clause (enJ E) r ?ge = Inr (if of_int ns \<le> x then Continue else Reject)"
    using cast r(3) by (simp add: where_clause_spec [OF cast] clause_spec_def Let_def)
  show ?thesis
    using plain r(1,2) by (auto simp: period_def time_travel_query_def empty_query_def str ge plain_period_def)
qed

lemma matching_put:
  assumes "stored E cx a t' = (stored E cx a t)(i \<mapsto> r)" "stored E cx a t i = None" "doc_where (enJ E) r ws = Inr b"
  shows "matching E cx a t' ws = (if b then insert i (matching E cx a t ws) else matching E cx a t ws)" "i \<notin> matching E cx a t ws"
  using assms by (auto simp: matching_def)

text \<open>A record with a new id and a later time puts one more version in front of the chronicle of its document.\<close>

lemma chronicled_put:
  assumes log: "chronicled E cx a collection docID ns vs t" and cast: "cast_laws (enJ E)" "plain_period E collection docID ns"
    and new: "stored E cx a t' = (stored E cx a t)(cdcID e \<mapsto> r)" "stored E cx a t (cdcID e) = None" "logs E a stamp e r"
    and e: "cdcCollection e = collection" "cdcDiff e = Diff (enJ E) d (Some (hd vs))"
    and late: "\<forall>i\<in>matching E cx a t (period collection docID ns). \<exists>x. doc_get (enJ E) (the (stored E cx a t i)) ''timestamp'' = AFloat x \<and>
      x < stamp (cdcTimestamp e)" "of_int ns \<le> stamp (cdcTimestamp e)" and own: "cdcDocumentID e = docID"
  shows "chronicled E cx a collection docID ns (d # vs) t'"
proof -
  let ?m = "matching E cx a t (period collection docID ns)" and ?get = "\<lambda>i. the (stored E cx a t i)"
  from log obtain ids where ids: "distinct ids" "set ids = ?m" and ch: "chronicle E vs (map ?get ids)"
    and newest: "sorted_wrt (newer E) (map ?get ids)" and dt: "\<forall>i\<in>set ids. dated E (?get i)"
    by (auto simp: chronicled_def Let_def)
  have "doc_where (enJ E) r (period collection docID ns) = Inr True"
    using period_decides [OF cast] new(3) e(1) own late(2) by (auto simp: logs_def)
  note m = matching_put [OF new(1,2) this]
  have "map (\<lambda>i. the (stored E cx a t' i)) ids = map ?get ids" using m(2) ids(2) new(1) by auto
  then have recs: "map (\<lambda>i. the (stored E cx a t' i)) (cdcID e # ids) = r # map ?get ids" using new(1) by simp
  have "chronicle E (d # vs) (r # map ?get ids)"
    using ch new(3) e(2) by (cases vs) (auto simp: logs_def)
  moreover have "sorted_wrt (newer E) (r # map ?get ids)"
    using newest late(1) ids(2) new(3) by (auto simp: newer_def logs_def)
  moreover have "\<forall>r\<in>set (r # map ?get ids). dated E r" using dt new(3) by (auto simp: dated_def logs_def)
  moreover have "distinct (cdcID e # ids)" "set (cdcID e # ids) = matching E cx a t' (period collection docID ns)"
    using ids m by simp_all
  ultimately show ?thesis
    unfolding chronicled_def Let_def recs [symmetric] by blast
qed

lemma chronicled_other:
  assumes log: "chronicled E cx a collection docID ns vs t" and cast: "cast_laws (enJ E)" "plain_period E collection docID ns"
    and new: "stored E cx a t' = (stored E cx a t)(cdcID e \<mapsto> r)" "stored E cx a t (cdcID e) = None" "logs E a stamp e r"
    and other: "cdcDocumentID e \<noteq> docID"
  shows "chronicled E cx a collection docID ns vs t'"
proof -
  from log obtain ids where ids: "distinct ids" "set ids = matching E cx a t (period collection docID ns)"
    and ch: "let rs = map (\<lambda>i. the (stored E cx a t i)) ids in chronicle E vs rs \<and> sorted_wrt (newer E) rs \<and> (\<forall>r\<in>set rs. dated E r)"
    by (auto simp: chronicled_def)
  have "doc_where (enJ E) r (period collection docID ns) = Inr False"
    using period_decides [OF cast] new(3) other by (auto simp: logs_def)
  note m = matching_put [OF new(1,2) this]
  have recs: "map (\<lambda>i. the (stored E cx a t' i)) ids = map (\<lambda>i. the (stored E cx a t i)) ids" using m(2) ids(2) new(1) by auto
  have "set ids = matching E cx a t' (period collection docID ns)" using ids(2) m(1) by simp
  with ids(1) ch show ?thesis unfolding chronicled_def recs [symmetric] by blast
qed

lemma chronicled_start: "matching E cx a t (period collection docID ns) = {} \<Longrightarrow> chronicled E cx a collection docID ns [v] t"
  by (auto simp: chronicled_def intro: exI [of _ "[]"])

lemma set_chronicles:
  assumes "user_collection E cx collection c" and "audit_collection E cx a" and "audit_codec E a stamp"
    and "in_order E cx c t" and "in_order E cx a t" and "GetPrimaryKey (enJ E) c document = docID" and "good_id docID"
    and "tx_Set E (Suc (Suc (Suc n))) cx collection document t = (Inr d, t')" and "stored_doc E c docID d"
    and "json_diff (Diff (enJ E) d (stored E cx c t docID))" and "enClock E (tTick t) \<noteq> 0"
    and log: "chronicled E cx a collection k ns vs t" "stored E cx c t k = Some (hd vs)" "plain_period E collection k ns"
    and new: "stored E cx a t (cdcID (last (tCDC t'))) = None" "of_int ns \<le> stamp (enClock E (tTick t))"
      "\<forall>i\<in>matching E cx a t (period collection k ns). \<exists>x. doc_get (enJ E) (the (stored E cx a t i)) ''timestamp'' = AFloat x \<and>
         x < stamp (enClock E (tTick t))"
  shows "chronicled E cx a collection k ns (if k = docID then d # vs else vs) t'"
proof -
  from set_logged [OF assms(1-11)] obtain e r where e: "tCDC t' = tCDC t @ [e]" "cdcCollection e = collection" "cdcDocumentID e = docID"
    "cdcDiff e = Diff (enJ E) d (stored E cx c t docID)" "cdcTimestamp e = enClock E (tTick t)" and r: "logs E a stamp e r"
    "stored E cx a t' = (stored E cx a t)(cdcID e \<mapsto> r)" by blast
  have cast: "cast_laws (enJ E)" using assms(1) by (simp add: user_collection_def plain_writes_def plain_reads_def)
  have fresh: "stored E cx a t (cdcID e) = None" using new(1) e(1) by simp
  show ?thesis
  proof (cases "k = docID")
    case True
    then have "cdcDiff e = Diff (enJ E) d (Some (hd vs))" "cdcDocumentID e = k" using e(3,4) log(2) by simp_all
    from chronicled_put [OF log(1) cast log(3) r(2) fresh r(1) e(2) this(1) _ _ this(2)] new(2,3) e(5) True show ?thesis by simp
  next
    case False
    with chronicled_other [OF log(1) cast log(3) r(2) fresh r(1)] e(3) show ?thesis by simp
  qed
qed

text \<open>
  C6: writes keep the chronicle: if the change records of a document since a time lead through
  its versions, then they still do after a \<open>Set\<close> in the collection, with the new version in
  front if it is a \<open>Set\<close> of that document; provided the record gets an id of its own and a
  later time than the records before it.
\<close>

theorem set_keeps_chronicle:
  assumes "user_collection E cx collection c" and "audit_collection E cx a" and "audit_codec E a stamp"
    and "in_order E cx c t" and "in_order E cx a t" and "GetPrimaryKey (enJ E) c document = docID" and "good_id docID"
    and "tx_Set E (Suc (Suc (Suc n))) cx collection document t = (Inr d, t')" and "stored_doc E c docID d"
    and "json_diff (Diff (enJ E) d (stored E cx c t docID))" and "enClock E (tTick t) \<noteq> 0"
    and "chronicled E cx a collection k ns vs t" and "stored E cx c t k = Some (hd vs)" and "plain_period E collection k ns"
    and "stored E cx a t (cdcID (last (tCDC t'))) = None" and "of_int ns \<le> stamp (enClock E (tTick t))"
    and "\<forall>i\<in>matching E cx a t (period collection k ns). \<exists>x. doc_get (enJ E) (the (stored E cx a t i)) ''timestamp'' = AFloat x \<and>
         x < stamp (enClock E (tTick t))"
  shows "chronicled E cx a collection k ns (if k = docID then d # vs else vs) t'"
  using assms by (rule set_chronicles)

subsection \<open>Back to the first name\<close>

lemma ticks: "cdcID (last (tCDC second_set)) = ''k3''" "map cdcID (tCDC first_set) = [''k1'']"
proof -
  note ids = set_traces(2)
  moreover from ids have "tCDC second_set \<noteq> []" by auto
  ultimately show "cdcID (last (tCDC second_set)) = ''k3''" using last_map [of "tCDC second_set" cdcID] by simp
  have "\<exists>e. tCDC second_set = tCDC first_set @ [e]"
    using set_logged [OF audit_env_collections audit_env_codec first_set_stored(2) _ audit_ids(2) witness_ids(1) set_eqs(2) audit_ids(4)]
      first_set_logged set_diffs(2) by (simp add: first_set_stored(1)) blast
  then obtain e where "tCDC second_set = tCDC first_set @ [e]" by blast
  with ids have "map cdcID (tCDC first_set) @ [cdcID e] = [''k1''] @ [''k3'']" by (simp del: append_eq_append_conv append_Cons)
  then show "map cdcID (tCDC first_set) = [''k1'']" by (simp only: append1_eq_conv)
qed

lemma first_set_quiet: "stored audit_env user_ctx cdc_schema first_set (cdcID (last (tCDC second_set))) = None"
  "matching audit_env user_ctx cdc_schema first_set (period ''user'' ''a'' 2) = {}" "plain_period audit_env ''user'' ''a'' 2"
proof -
  from first_set_logged obtain e r where e: "tCDC first_set = [e]" "cdcTimestamp e = 1" "logs audit_env cdc_schema of_int e r"
    "stored audit_env user_ctx cdc_schema first_set = [cdcID e \<mapsto> r]" by blast
  then show "stored audit_env user_ctx cdc_schema first_set (cdcID (last (tCDC second_set))) = None" using ticks by simp
  have "\<not> HasPrefix (ToString flat_json (ANum KInt64 2)) selfRefPrefix" by code_simp
  then show period: "plain_period audit_env ''user'' ''a'' 2" using witness_ids(1)
    by (simp add: plain_period_def good_id_def null_text_def HasPrefix_def selfRefPrefix_def)
  have "doc_where (enJ audit_env) r (period ''user'' ''a'' 2) = Inr False"
    using period_decides [OF _ period] flat_json_cast e(2,3) by (auto simp: logs_def)
  then show "matching audit_env user_ctx cdc_schema first_set (period ''user'' ''a'' 2) = {}"
    using e(4) by (auto simp: matching_def)
qed

lemma second_chronicled: "chronicled audit_env user_ctx cdc_schema ''user'' ''a'' 2 [bob, ann] second_set"
  and second_stored: "stored audit_env user_ctx user_schema second_set ''a'' = Some bob" "in_order audit_env user_ctx user_schema second_set"
proof -
  have log: "in_order audit_env user_ctx cdc_schema first_set" using first_set_logged by blast
  have "json_diff (Diff (enJ audit_env) bob (stored audit_env user_ctx user_schema first_set ''a''))"
    using set_diffs(2) by (simp add: first_set_stored(1))
  from set_chronicles [OF audit_env_collections audit_env_codec first_set_stored(2) log audit_ids(2) witness_ids(1) set_eqs(2) audit_ids(4) this _
      chronicled_start [OF first_set_quiet(2), of ann] _ first_set_quiet(3,1)]
  show "chronicled audit_env user_ctx cdc_schema ''user'' ''a'' 2 [bob, ann] second_set"
    using first_set_quiet(2) by (simp add: first_set_stored(1) set_traces(1))
  from set_put [OF audit_env_collections(1) first_set_stored(2) audit_ids(2) witness_ids(1) set_eqs(2) audit_ids(4)]
  show "stored audit_env user_ctx user_schema second_set ''a'' = Some bob" "in_order audit_env user_ctx user_schema second_set" by simp_all
qed

theorem set_keeps_chronicle_witness: "chronicled audit_env user_ctx cdc_schema ''user'' ''a'' 2 [bob, ann] second_set"
proof -
  have log: "in_order audit_env user_ctx cdc_schema first_set" using first_set_logged by blast
  have "json_diff (Diff (enJ audit_env) bob (stored audit_env user_ctx user_schema first_set ''a''))"
    using set_diffs(2) by (simp add: first_set_stored(1))
  from set_keeps_chronicle [OF audit_env_collections audit_env_codec first_set_stored(2) log audit_ids(2) witness_ids(1) set_eqs(2) audit_ids(4) this _
      chronicled_start [OF first_set_quiet(2), of ann] _ first_set_quiet(3,1)]
  show ?thesis using first_set_quiet(2) by (simp add: first_set_stored(1) set_traces(1))
qed

lemma second_log: "\<exists>e e' r r'. logs audit_env cdc_schema of_int e r \<and> logs audit_env cdc_schema of_int e' r' \<and>
    stored audit_env user_ctx cdc_schema second_set = [cdcID e \<mapsto> r, cdcID e' \<mapsto> r'] \<and> in_order audit_env user_ctx cdc_schema second_set"
proof -
  have diff: "json_diff (Diff (enJ audit_env) bob (stored audit_env user_ctx user_schema first_set ''a''))"
    using set_diffs(2) by (simp add: first_set_stored(1))
  have log: "in_order audit_env user_ctx cdc_schema first_set" using first_set_logged by blast
  from set_logged [OF audit_env_collections audit_env_codec first_set_stored(2) log audit_ids(2) witness_ids(1) set_eqs(2) audit_ids(4) diff]
    first_set_logged
  show ?thesis by (simp del: fun_upd_apply) metis
qed

lemma second_answerable: "answerable audit_env user_ctx cdc_schema second_set (period ''user'' ''a'' 2)"
proof -
  have ns: "namespace (enJ audit_env) user_ctx = ''default''" by code_simp
  note [simp del] = audit_env_parts(1)
  have view: "mem.view (tKV second_set) = map_of (mt_data (tKV second_set))" by (simp add: mem.view_def map_of_sort_clearjunk)
  have "tidy ''default'' cdc_schema (mem.view (tKV second_set))"
    using set_traces(3) unfolding tidy_def region_def view
    by (fastforce simp: list_all_iff separated_def cdc_schema_def plain_schema_def dest!: map_of_SomeD)
  moreover have "flat_docs audit_env ''default'' cdc_schema (mem.view (tKV second_set))"
    by (auto simp: flat_docs_def entry_of_def flat_fields_def doc_value_def audit_env_parts(1) flat_json_def)
  moreover have "\<exists>ex. Optimize cdc_schema (period ''user'' ''a'' 2) = Inr ex \<and> leading ex"
  proof -
    have "Optimize cdc_schema (period ''user'' ''a'' 2) = Inr \<lparr>eCollection = ''system_cdc'',
        eIndex = log_index ''document_id_idx'' [''documentID''], eMatchedFields = [''documentID''],
        eMatchedValues = [(''documentID'', AStr ''a'')], eSeekFields = [], eSeekValues = [], eReverse = False\<rparr>" by code_simp
    then show ?thesis by (auto simp: leading_def log_index_def intro: exI [of _ 1])
  qed
  moreover have "clauses_plain flat_json (period ''user'' ''a'' 2)"
    by (simp add: clauses_plain_def period_def time_travel_query_def empty_query_def HasPrefix_def selfRefPrefix_def flat_json_def)
  moreover have "\<exists>b. doc_where flat_json d (period ''user'' ''a'' 2) = Inr b"
    if "stored audit_env user_ctx cdc_schema second_set i = Some d" for i d
    using second_log that period_decides [OF _ first_set_quiet(3)] flat_json_cast by (auto simp: logs_def audit_env_parts(1) split: if_splits)
  ultimately show ?thesis unfolding answerable_def ns by (simp add: audit_env_parts(1))
qed

lemma names_ok: "\<forall>w\<in>set [bob, ann]. doc_ok (enJ audit_env) {''_id'', ''name''} w"
  by (simp add: doc_ok_def FieldPaths_def bob_def ann_def flat_json_def)

lemma travel_plain: "plain_query audit_env (time_travel_query ''user'' ''a'' 2)"
  by (simp add: plain_query_def time_travel_query_def empty_query_def audit_env_def flat_env_def)

lemma ann_fields: "gjGet (enJ audit_env) = map_of" "set (FieldPaths (enJ audit_env) ann) = {''_id'', ''name''}"
  "map_of ann ''name'' = Some (AStr ''ann'')" "map_of ann ''_id'' = Some (AStr ''a'')"
  by (simp_all add: flat_json_def FieldPaths_def ann_def)

theorem time_travel_restores_witness:
  "\<exists>d'. TimeTravel audit_env (Suc (Suc 0)) user_ctx ''user'' ''a'' 2 second_set = (Inr d', second_set) \<and>
    same_value (map_of d' ''name'') (Some (AStr ''ann''))"
proof -
  have log: "in_order audit_env user_ctx cdc_schema second_set" using second_log by blast
  have "json_laws (enJ audit_env) (\<lambda>_. True) {''_id'', ''name''}" by (simp add: flat_json_laws)
  from time_travel_restores [OF audit_env_collections(1) second_stored(2) witness_ids(1) second_stored(1) audit_env_collections(2) log
      second_answerable travel_plain second_chronicled _ _ this TrueI, of 0] names_ok
  have "\<exists>d'. TimeTravel audit_env (Suc (Suc 0)) user_ctx ''user'' ''a'' 2 second_set = (Inr d', second_set) \<and>
    (\<forall>p\<in>set (FieldPaths (enJ audit_env) ann). doc_get (enJ audit_env) ann p \<noteq> ANil \<longrightarrow>
       same_value (gjGet (enJ audit_env) d' p) (gjGet (enJ audit_env) ann p))" by simp
  then show ?thesis using ann_fields(3) unfolding ann_fields(1,2) doc_get_def by fastforce
qed

definition reverted :: "(any kvs memtx, any kvs) txn" where
  "reverted = snd (Revert audit_env (Suc (Suc (Suc 0))) user_ctx ''user'' ''a'' 2 second_set)"

lemma revert_runs: "Revert audit_env (Suc (Suc (Suc 0))) user_ctx ''user'' ''a'' 2 second_set = (Inr (), reverted)"
  using revert_succeeds by (simp add: reverted_def prod_eq_iff)


end
