(* ===== verification/Spec2Isabelle.thy ===== *)
theory Spec2Isabelle
  imports Optimizer KvUtil QueryOps Metadata WriteFuel WriteGuard Constraints DeleteFuel Streams LockProtocol Commands ConfigLaws Cascade Scripting VmPool Opening Modifiers DocLock TikvLocker Chronicle
begin

text \<open>
  A model of gokvkit (package \<open>myjson\<close>), an embedded document database over a key-value store.
  A database keeps collections of JSON documents, described by schemas; a document is stored
  under the key of the primary index and every secondary index holds one entry per document
  that carries the document's id. All data, the schemas and the collection locks live in one
  key-value store (Badger, or TiKV with a Redis cache). The development follows the layers of
  the program from below; each theory names the files it translates, and every definition keeps
  the name of the Go function or type where Isabelle allows it.

  \<^bold>\<open>Foundations\<close>

  \<^item> \<open>Prelude\<close>: lists, maps, byte strings; separators and keys as they are joined and split.
  \<^item> \<open>Errors\<close>: \<open>errors/errors.go\<close>. A result is \<open>failure + 'a\<close>: \<open>Fail e\<close> is a returned error, \<open>Panic\<close> a
    panic of the runtime, \<open>NoFuel\<close> a bound on the depth of calls that was too small. A definition
    is \<open>fueled\<close> when more fuel never changes a result other than \<open>NoFuel\<close>.
  \<^item> \<open>Effects\<close>: stateful code as functions from a state to a result and a state, with the loops
    and the error wrapping of the program; the state is kept after an error, as in Go.
  \<^item> \<open>Values\<close>, \<open>Encoding\<close>: the dynamic values of the program with the conversions of its cast library as
    a parameter, 64-bit integers with their wrap-around, \<open>EncodeIndexValue\<close> of \<open>util/util.go\<close>.
  \<^item> \<open>Kv\<close>, \<open>KvUtil\<close>, \<open>KvDb\<close>, \<open>Opening\<close>: \<open>kv/kv.go\<close> (options, change records, the contract of a transaction as the
    locale that the layers above rest on, with a store in memory as its provider),
    \<open>kv/kvutil/util.go\<close>, the \<open>Tx\<close> of both backends and \<open>kv/registry/registry.go\<close>; what the backends
    register and how they open.

  \<^bold>\<open>Data and queries\<close>

  \<^item> \<open>Model\<close>: the types of \<open>model.go\<close>, \<open>Query.Validate\<close> and \<open>builder.go\<close>.
  \<^item> \<open>Document\<close>, \<open>DocumentLaws\<close>: \<open>document.go\<close>. JSON texts and paths are a parameter (the libraries that
    parse and edit them), with their documented behaviour as named laws. \<open>Where\<close> is a conjunction
    on the clauses it handles without its special cases; \<open>Diff\<close> and \<open>ApplyOps\<close> are inverse.
  \<^item> \<open>Modifiers\<close>, \<open>DocLock\<close>: the modifiers that \<open>document.go\<close> adds to the path library, and its mutex: a step
    relation of concurrent calls on one document, with the exact condition for a deadlock.
  \<^item> \<open>Schema\<close>: the state and accessors of \<open>schema.go\<close>, schemas in the context, index differences.
  \<^item> \<open>Loader\<close>, \<open>LoaderLaws\<close>: loading, refreshing and marshalling of \<open>schema.go\<close>. A loaded schema is well-formed
    as the operations need it; loading ends exactly when references do not go in circles.
  \<^item> \<open>Indexing\<close>, \<open>Optimizer\<close>: \<open>indexing.go\<close>, \<open>optimizer.go\<close> and the scans of \<open>tx_util.go\<close>. Keys determine what they
    were made from; the scan of a chosen index misses no result when the matched fields lead it.
  \<^item> \<open>QueryOps\<close>: ordering, grouping, aggregates, having, paging and projection (\<open>util.go\<close>, \<open>tx.go\<close>).
  \<^item> \<open>Authz\<close>, \<open>Metadata\<close>: \<open>authorization.go\<close>, \<open>metadata.go\<close>, \<open>metakeys.go\<close>; scripts run on a parameter.

  \<^bold>\<open>Transactions\<close>

  \<^item> \<open>TxRead\<close>, \<open>TxWrite\<close>: \<open>tx.go\<close> and \<open>tx_util.go\<close>. A transaction is the state of its key-value transaction,
    its change records, the globals of its script engine, the references it knows to exist and
    a counter that stands for the clock and the random ids.
  \<^item> \<open>TxLaws\<close>, \<open>Fuel\<close>, \<open>WriteFuel\<close>, \<open>DeleteFuel\<close>: reads change nothing; queries call lookups, joins and aggregates,
    which call queries again, but never deeper than three; a write other than a delete never
    needs more than five levels, one for its own change record. A cascading delete needs as many
    more as its collection has levels of collections below it that refer to it (\<open>delete_depth\<close>).
  \<^item> \<open>Store\<close>, \<open>Lookup\<close>, \<open>Writes\<close>, \<open>Operations\<close>: the abstract view of a collection (a map from ids to
    documents) and what it means that the store is in step with it; every write is a change of
    that map at one id, and the secondary indexes follow. The theorems on single operations.
  \<^item> \<open>QueryLaws\<close>: what a query answers in terms of that map, whichever index it reads: the documents that
    pass, in the order asked for, cut into pages that follow each other.
  \<^item> \<open>Constraints\<close>, \<open>Cascade\<close>, \<open>WriteGuard\<close>: unique indexes stay unique, foreign keys of a stored document
    exist, a delete takes out exactly the documents that refer to the deleted one, and an
    operation that a rule denies writes nothing.
  \<^item> \<open>AuditLog\<close>, \<open>Chronicle\<close>: the change records. Every write leaves one, in the list that the commit publishes
    and in the collection of \<open>cdc.yaml\<close>; the records of a document lead back through its versions,
    every further write keeps that, \<open>TimeTravel\<close> returns along them, and \<open>Revert\<close> stores what it returns.
  \<^item> \<open>Backends\<close>: \<open>kv/badger\<close> and \<open>kv/tikv\<close>. Badger transactions keep the contract, batches and TiKV do not.
  \<^item> \<open>Database\<close>, \<open>Commands\<close>: \<open>Tx\<close> of \<open>db.go\<close> and the operations that run in a transaction of their own; all
    or nothing, reads after committed writes, histories of transactions; \<open>Cmd\<close> of \<open>tx.go\<close>.

  \<^bold>\<open>Configuration\<close>

  \<^item> \<open>Locker\<close>, \<open>LockProtocol\<close>, \<open>TikvLocker\<close>: \<open>kv/badger/locker.go\<close> and \<open>kv/tikv/locker.go\<close>. The operations of a lock,
    and the protocol of any number of lock objects on one key as a step relation (time passing,
    attempts, renewals, lost leases, releases) with mutual exclusion as its invariant. The lock of
    TiKV has its own definitions and relation, which reaches the same states.
  \<^item> \<open>Dag\<close>: \<open>dag.go\<close>, the graph of foreign keys; the graph library is a parameter.
  \<^item> \<open>Configure\<close>, \<open>Plan\<close>, \<open>ConfigLaws\<close>: \<open>db_util.go\<close> and the rest of \<open>db.go\<close>: locked collections, stored
    schemas, indexes, plans, their application, opening a database, the refresh, change streams.
  \<^item> \<open>Streams\<close>: what a listener on the change stream is handed, over the badger backend.
  \<^item> \<open>Base64\<close>, \<open>Scripting\<close>, \<open>VmPool\<close>: \<open>javascript.go\<close>, \<open>opts.go\<close> and \<open>RunScript\<close>: the globals of a script, the
    helpers the program writes itself, the options of a database; the pool of script engines with
    the goroutine that fills it and \<open>Close\<close> as a step relation, with the states from which \<open>Close\<close> returns.

  \<^bold>\<open>How the parts meet.\<close> A command reaches a collection through the cached schemas of the environment;
  \<open>persistCommand\<close> reads the old document through the query path, writes the primary key, then each
  index, then the change record as a command of its own. \<open>Store\<close> ties the keys of \<open>Indexing\<close> to that
  pipeline, \<open>Database\<close> ties it to committed states, \<open>Configure\<close> runs it inside the locks of \<open>Locker\<close>.
  The lemmas of a layer are proved once from the contract below it: over \<open>Kv\<close>'s locale for reads
  and writes, over the abstract collection for histories.

  \<^bold>\<open>Bounds.\<close> Recursive calls carry a depth. Queries end with depth three and writes with depth five
  (\<open>query_depth\<close>, \<open>write_depth\<close>), so the theorems that take a depth hold for any larger one. The depth of
  loading is that of the nesting of properties, references included (\<open>loading_ends\<close>); without that
  bound there is none (\<open>self_reference_diverges\<close>).

  \<^bold>\<open>Assumptions.\<close> Libraries are arguments: JSON and YAML conversion, the cast and validation libraries,
  the script engine, the graph, the key-value clients, the clock and the random ids. What a
  theorem needs of them is a named predicate (such as \<open>flatten_laws\<close>, \<open>codec_laws\<close>, \<open>audit_codec\<close>,
  \<open>badger_laws\<close>, \<open>dag_laws\<close>), and a witness instantiates it by functions that compute. Go maps are association
  lists; where the order of a map matters the theorems hold for every order.

  \<^bold>\<open>Not modelled.\<close> \<open>api.go\<close> holds interface types without code, and \<open>testutil\<close> serves the tests. Running a
  script, sending a request and the key-value clients are parameters. The iteration helpers of a
  list of documents, \<open>Scan\<close>, \<open>Encode\<close>, \<open>Decode\<close> and the JSON printers hand their arguments to a library;
  accessors that return a field are the field. Contexts that are cancelled in the middle of an
  operation and the error group (its functions run one after the other here) are left out: the
  steps of one transaction are sequential, and concurrent parts are modelled where they share
  state: transactions in the committed state, lock objects in the lock protocol, calls of one
  document in its mutex, and the pool of script engines in its channel.
\<close>

end
